(* ===== verification/Prelude.thy ===== *)
theory Prelude
  imports Main "HOL-Library.Word" "HOL-Library.AList"
begin

text \<open>
  Shared vocabulary of the development: Rust's fixed-width integers as words with the
  checked and saturating operations of the standard library, results as sums
  (\<open>Inl\<close> is \<open>Err\<close>), and the list, option and word facts the component theories use.
  Arithmetic written with a plain operator in the source is plain word arithmetic here:
  every workspace of the repository builds its release profile without
  \<^verbatim>\<open>overflow-checks\<close>, so it wraps.
\<close>

unbundle bit_operations_syntax

section \<open>Types\<close>

type_synonym u8 = "8 word"
type_synonym u16 = "16 word"
type_synonym u32 = "32 word"
type_synonym u64 = "64 word"

text \<open>A Rust \<open>HashMap\<close>: an association list with distinct keys.\<close>

type_synonym ('k, 'v) hmap = "('k \<times> 'v) list"

section \<open>Collections of rewrite rules\<close>

named_theorems rust_arith \<open>definitions of the checked and saturating word operations\<close>

section \<open>Results\<close>

definition is_ok :: "'e + 'a \<Rightarrow> bool" where
  "is_ok r = (case r of Inl _ \<Rightarrow> False | Inr _ \<Rightarrow> True)"

definition is_err :: "'e + 'a \<Rightarrow> bool" where
  "is_err r = (case r of Inl _ \<Rightarrow> True | Inr _ \<Rightarrow> False)"

definition map_err :: "('e \<Rightarrow> 'f) \<Rightarrow> 'e + 'a \<Rightarrow> 'f + 'a" where
  "map_err f r = (case r of Inl e \<Rightarrow> Inl (f e) | Inr a \<Rightarrow> Inr a)"

definition result_bind :: "'e + 'a \<Rightarrow> ('a \<Rightarrow> 'e + 'b) \<Rightarrow> 'e + 'b" where
  "result_bind r k = (case r of Inl e \<Rightarrow> Inl e | Inr a \<Rightarrow> k a)"

text \<open>A loop over a list that stops at the first error.\<close>

fun map_result :: "('a \<Rightarrow> 'e + 'b) \<Rightarrow> 'a list \<Rightarrow> 'e + 'b list" where
  "map_result f [] = Inr []"
| "map_result f (x # xs) = (case f x of Inl e \<Rightarrow> Inl e | Inr y \<Rightarrow>
     (case map_result f xs of Inl e \<Rightarrow> Inl e | Inr ys \<Rightarrow> Inr (y # ys)))"

text \<open>Decimal numbers, as \<^verbatim>\<open>format!\<close> prints them.\<close>

fun decimal :: "nat \<Rightarrow> string" where
  "decimal n = (if n < 10 then [char_of (48 + n)] else decimal (n div 10) @ [char_of (48 + n mod 10)])"

declare decimal.simps [simp del]

lemma map_result_ok: "(\<And>x. x \<in> set xs \<Longrightarrow> f x = Inr (g x)) \<Longrightarrow> map_result f xs = Inr (map g xs)"
  by (induction xs) simp_all

lemma is_ok_simps [simp]: "is_ok (Inr a)" "\<not> is_ok (Inl e)"
  by (simp_all add: is_ok_def)

lemma is_err_simps [simp]: "is_err (Inl e)" "\<not> is_err (Inr a)"
  by (simp_all add: is_err_def)

lemma map_err_simps [simp]: "map_err f (Inl e) = Inl (f e)" "map_err f (Inr a) = Inr a"
  by (simp_all add: map_err_def)

lemma result_bind_simps [simp]:
  "result_bind (Inl e) k = Inl e" "result_bind (Inr a) k = k a"
  by (simp_all add: result_bind_def)

lemma is_ok_iff: "is_ok r \<longleftrightarrow> (\<exists>a. r = Inr a)"
  by (cases r) simp_all

lemma is_err_iff: "is_err r \<longleftrightarrow> (\<exists>e. r = Inl e)"
  by (cases r) simp_all

lemma outcome_failed: "map_prod is_ok id p = (False, s') \<longleftrightarrow> (\<exists>e. p = (Inl e, s'))"
  by (cases p) (auto simp: is_ok_def split: sum.splits)

lemma map_err_eq_Inr [simp]: "map_err f r = Inr a \<longleftrightarrow> r = Inr a"
  by (cases r) simp_all

lemma result_bind_eq_Inr: "result_bind r k = Inr b \<longleftrightarrow> (\<exists>a. r = Inr a \<and> k a = Inr b)"
  by (cases r) simp_all

section \<open>Checked and saturating arithmetic\<close>

definition checked_add :: "'a::len word \<Rightarrow> 'a word \<Rightarrow> 'a word option" where
  [rust_arith]: "checked_add a b = (if a \<le> a + b then Some (a + b) else None)"

definition checked_sub :: "'a::len word \<Rightarrow> 'a word \<Rightarrow> 'a word option" where
  [rust_arith]: "checked_sub a b = (if b \<le> a then Some (a - b) else None)"

definition saturating_sub :: "'a::len word \<Rightarrow> 'a word \<Rightarrow> 'a word" where
  [rust_arith]: "saturating_sub a b = (if b \<le> a then a - b else 0)"

definition saturating_add :: "'a::len word \<Rightarrow> 'a word \<Rightarrow> 'a word" where
  [rust_arith]: "saturating_add a b = (if a \<le> a + b then a + b else - 1)"

text \<open>\<^verbatim>\<open>u64::div_ceil\<close>: the quotient rounded up, computed without overflow.\<close>

definition div_ceil :: "u64 \<Rightarrow> u64 \<Rightarrow> u64" where
  "div_ceil a b = (if a mod b \<noteq> 0 then a div b + 1 else a div b)"

text \<open>\<^verbatim>\<open>u64::is_power_of_two\<close>: exactly one bit is set.\<close>

definition is_power_of_two :: "u64 \<Rightarrow> bool" where
  "is_power_of_two a \<longleftrightarrow> a \<noteq> 0 \<and> a AND (a - 1) = 0"

lemma no_wrap_iff: "a \<le> a + b \<longleftrightarrow> unat a + unat b < 2 ^ LENGTH('a)"
  for a b :: "'a::len word"
  by (simp add: no_olen_add_nat)

lemma unat_add_no_wrap: "unat a + unat b < 2 ^ LENGTH('a) \<Longrightarrow> unat (a + b) = unat a + unat b"
  for a b :: "'a::len word"
  by (rule unat_add_lem [THEN iffD1])

lemma checked_add_eq_Some:
  "checked_add a b = Some c \<longleftrightarrow> unat a + unat b < 2 ^ LENGTH('a) \<and> c = a + b"
  for a b :: "'a::len word"
  by (auto simp: checked_add_def no_wrap_iff)

lemma checked_sub_eq_Some: "checked_sub a b = Some c \<longleftrightarrow> b \<le> a \<and> c = a - b"
  for a b :: "'a::len word"
  by (auto simp: checked_sub_def)

lemma unat_saturating_sub: "unat (saturating_sub a b) = unat a - unat b"
  for a b :: "'a::len word"
  by (auto simp: saturating_sub_def unat_sub word_le_nat_alt)

lemma unat_u64_less [simp]: "unat (x :: u64) < 18446744073709551616"
  using unsigned_less [of x] by simp

lemma unat_u32_less [simp]: "unat (x :: u32) < 4294967296"
  using unsigned_less [of x] by simp

section \<open>Powers of two\<close>

lemma odd_part: "0 < n \<Longrightarrow> \<exists>m q. n = 2 ^ m * q \<and> odd q" for n :: nat
proof (induction n rule: less_induct)
  case (less n)
  show ?case
  proof (cases "odd n")
    case True
    then show ?thesis by (intro exI [of _ 0] exI [of _ n]) simp
  next
    case False
    then have "even n" by simp
    then obtain j where j: "n = 2 * j" by (rule evenE)
    then have "j < n" "0 < j" using less.prems by simp_all
    then obtain m q where "j = 2 ^ m * q" "odd q" using less.IH by blast
    with j show ?thesis by (intro exI [of _ "Suc m"] exI [of _ q]) simp
  qed
qed

lemma power_of_two_unat:
  assumes "is_power_of_two a"
  obtains k where "k < 64" "unat a = 2 ^ k"
proof -
  have a: "a \<noteq> 0" "a AND (a - 1) = 0" using assms by (simp_all add: is_power_of_two_def)
  then have "0 < unat a" by (simp add: unat_gt_0)
  then obtain m q where mq: "unat a = 2 ^ m * q" "odd q" using odd_part by blast
  have pred: "unat (a - 1) = 2 ^ m * q - 1" using \<open>0 < unat a\<close> mq(1) by (simp add: unat_sub word_le_nat_alt Suc_le_eq)
  have hi: "drop_bit (Suc m) (unat a) = q div 2" "drop_bit (Suc m) (unat (a - 1)) = q div 2"
  proof -
    have "2 ^ m * q div 2 ^ Suc m = 2 ^ m * q div 2 ^ m div 2" by (simp only: power_Suc2 div_mult2_eq)
    then have e: "2 ^ m * q div 2 ^ Suc m = q div 2" by simp
    then show "drop_bit (Suc m) (unat a) = q div 2" using mq(1) by (simp add: drop_bit_eq_div)
    obtain j where j: "q = 2 * j + 1" using mq(2) by (elim oddE) simp
    have "2 ^ m * q - 1 = 2 ^ Suc m * j + (2 ^ m - 1)" by (simp add: j algebra_simps)
    also have "\<dots> div 2 ^ Suc m = j"
    proof -
      have "(2::nat) ^ m - 1 < 2 ^ Suc m" by (rule less_imp_diff_less) simp
      then show ?thesis by (subst div_mult_self4) simp_all
    qed
    finally show "drop_bit (Suc m) (unat (a - 1)) = q div 2" using pred j by (simp add: drop_bit_eq_div)
  qed
  have "drop_bit (Suc m) (unat (a AND (a - 1))) = q div 2"
    by (simp add: unsigned_and_eq hi)
  then have "q div 2 = 0" using a(2) by simp
  then have "q = 1" using mq(2) by (cases q) auto
  moreover from this have "m < 64"
  proof -
    have "(2::nat) ^ m < 2 ^ 64" using mq(1) \<open>q = 1\<close> unat_u64_less [of a] by simp
    then show ?thesis by (rule power_less_imp_less_exp [rotated]) simp
  qed
  ultimately show thesis using that mq(1) by simp
qed

lemma some_case_ex: "(case x of None \<Rightarrow> False | Some y \<Rightarrow> P y) \<Longrightarrow> \<exists>y. x = Some y \<and> P y"
  by (cases x) simp_all

end
