(* ===== verification/Runs.thy ===== *)
theory Runs
  imports Prelude
begin

text \<open>
  Sequences of operations on a component, and the contracts the components of this
  development offer over them. A step function takes the environment of one call (which
  may make it fail), the state and the operation; \<open>call_ok\<close> says which calls a contract is
  about; a run threads the state through a list of calls. Each contract is a locale whose law
  speaks of one step and whose lemmas carry it to runs; the component theories interpret them on
  their own operations.
\<close>

fun run_steps :: "('e \<Rightarrow> 's \<Rightarrow> 'c \<Rightarrow> 'r \<times> 's) \<Rightarrow> 's \<Rightarrow> ('e \<times> 'c) list \<Rightarrow> 'r list \<times> 's" where
  "run_steps step s [] = ([], s)"
| "run_steps step s ((E, c) # cs) = (case step E s c of (r, s1) \<Rightarrow>
     (case run_steps step s1 cs of (rs, s2) \<Rightarrow> (r # rs, s2)))"

text \<open>A specification is a partial step; a refused operation leaves the abstract state.\<close>

fun spec_run :: "('a \<Rightarrow> 'c \<Rightarrow> 'a option) \<Rightarrow> 'a \<Rightarrow> 'c list \<Rightarrow> bool list \<times> 'a" where
  "spec_run spec a [] = ([], a)"
| "spec_run spec a (c # cs) = (case spec a c of
       Some a1 \<Rightarrow> (case spec_run spec a1 cs of (rs, a2) \<Rightarrow> (True # rs, a2))
     | None \<Rightarrow> (case spec_run spec a cs of (rs, a2) \<Rightarrow> (False # rs, a2)))"

lemma snd_run_steps_Cons [simp]:
  "snd (run_steps step s (Ec # cs)) =
     snd (run_steps step (snd (step (fst Ec) s (snd Ec))) cs)"
  by (cases Ec) (simp split: prod.splits)

section \<open>Invariants\<close>

locale invariant_steps =
  fixes step :: "'e \<Rightarrow> 's \<Rightarrow> 'c \<Rightarrow> 'r \<times> 's" and call_ok :: "'e \<Rightarrow> 'c \<Rightarrow> bool" and inv :: "'s \<Rightarrow> bool"
  assumes step_inv: "call_ok E c \<Longrightarrow> inv s \<Longrightarrow> inv (snd (step E s c))"
begin

lemma run_inv:
  "\<forall>(E, c) \<in> set cs. call_ok E c \<Longrightarrow> inv s \<Longrightarrow> inv (snd (run_steps step s cs))"
  by (induction cs arbitrary: s) (auto simp: step_inv)

end

section \<open>Simulation of a specification\<close>

fun sim_run :: "('a \<Rightarrow> 'c \<Rightarrow> 'r \<times> 'a) \<Rightarrow> 'a \<Rightarrow> 'c list \<Rightarrow> 'r list \<times> 'a" where
  "sim_run spec a [] = ([], a)"
| "sim_run spec a (c # cs) = (case spec a c of (r, a1) \<Rightarrow> (case sim_run spec a1 cs of (rs, a2) \<Rightarrow> (r # rs, a2)))"

locale simulates = invariant_steps step call_ok inv
  for step :: "'e \<Rightarrow> 's \<Rightarrow> 'c \<Rightarrow> 'r \<times> 's" and call_ok :: "'e \<Rightarrow> 'c \<Rightarrow> bool" and inv :: "'s \<Rightarrow> bool" +
  fixes spec :: "'a \<Rightarrow> 'c \<Rightarrow> 'r \<times> 'a" and abs :: "'s \<Rightarrow> 'a"
  assumes step_simulates: "call_ok E c \<Longrightarrow> inv s \<Longrightarrow> spec (abs s) c = apsnd abs (step E s c)"
begin

lemma run_simulates:
  assumes "\<forall>(E, c) \<in> set cs. call_ok E c" and "inv s"
  shows "sim_run spec (abs s) (map snd cs) = apsnd abs (run_steps step s cs)"
  using assms
proof (induction cs arbitrary: s)
  case (Cons Ec cs)
  obtain E c where Ec: "Ec = (E, c)" by (cases Ec)
  obtain r s1 where s1: "step E s c = (r, s1)" by (cases "step E s c")
  have "inv s1" using step_inv [of E c s] Cons.prems Ec s1 by simp
  then have "sim_run spec (abs s1) (map snd cs) = apsnd abs (run_steps step s1 cs)"
    using Cons by simp
  moreover have "spec (abs s) c = (r, abs s1)" using step_simulates [of E c s] Cons.prems Ec s1 by simp
  ultimately show ?case using Ec s1 by (simp split: prod.splits)
qed simp

end

text \<open>A partial specification is a total one that answers whether it applied.\<close>

definition attempt :: "('a \<Rightarrow> 'c \<Rightarrow> 'a option) \<Rightarrow> 'a \<Rightarrow> 'c \<Rightarrow> bool \<times> 'a" where
  "attempt spec a c = (case spec a c of Some a1 \<Rightarrow> (True, a1) | None \<Rightarrow> (False, a))"

lemma sim_run_attempt: "sim_run (attempt spec) a cs = spec_run spec a cs"
  by (induction spec a cs rule: spec_run.induct) (simp_all add: attempt_def split: option.splits)

locale refines_spec = invariant_steps step call_ok inv
  for step :: "'e \<Rightarrow> 's \<Rightarrow> 'c \<Rightarrow> bool \<times> 's" and call_ok :: "'e \<Rightarrow> 'c \<Rightarrow> bool" and inv :: "'s \<Rightarrow> bool" +
  fixes spec :: "'a \<Rightarrow> 'c \<Rightarrow> 'a option" and abs :: "'s \<Rightarrow> 'a"
  assumes step_refines: "call_ok E c \<Longrightarrow> inv s \<Longrightarrow>
    fst (step E s c) = (spec (abs s) c \<noteq> None) \<and>
    abs (snd (step E s c)) = (case spec (abs s) c of Some a \<Rightarrow> a | None \<Rightarrow> abs s)"

sublocale refines_spec \<subseteq> sim: simulates step call_ok inv "attempt spec" abs
proof
  fix E c s
  assume "call_ok E c" "inv s"
  from step_refines [OF this] show "attempt spec (abs s) c = apsnd abs (step E s c)"
    by (cases "step E s c") (auto simp: attempt_def split: option.splits)
qed

context refines_spec
begin

lemma run_refines:
  assumes "\<forall>(E, c) \<in> set cs. call_ok E c" and "inv s"
  shows "spec_run spec (abs s) (map snd cs) =
    (fst (run_steps step s cs), abs (snd (run_steps step s cs)))"
  using sim.run_simulates [OF assms] by (simp add: sim_run_attempt apsnd_def map_prod_def split_beta)

end

section \<open>Frames\<close>

text \<open>What is stored under a key survives every operation that may not touch the key.\<close>

locale framed_steps =
  fixes step :: "'e \<Rightarrow> 's \<Rightarrow> 'c \<Rightarrow> 'r \<times> 's" and lookup :: "'s \<Rightarrow> 'k \<Rightarrow> 'v option"
    and may_touch :: "'c \<Rightarrow> 'k \<Rightarrow> bool"
  assumes frame: "lookup s k = Some v \<Longrightarrow> \<not> may_touch c k \<Longrightarrow> lookup (snd (step E s c)) k = Some v"
begin

lemma run_frame:
  "lookup s k = Some v \<Longrightarrow> \<forall>(E, c) \<in> set cs. \<not> may_touch c k \<Longrightarrow>
   lookup (snd (run_steps step s cs)) k = Some v"
  by (induction cs arbitrary: s) (auto simp: frame)

end

end
