(* ===== verification/Host_Fs.thy ===== *)
theory Host_Fs
  imports Prelude
begin

text \<open>
  The part of the host file system that CubeCoW (\<^verbatim>\<open>cubecow/src/engine/reflink.rs\<close>) uses
  through \<^verbatim>\<open>std::fs\<close>: the tree \<open><volumes_dir>/<dir>/<file>\<close>, with one function for each
  call the engine makes. A call fails as the kernel would on the state of the tree, and,
  besides, whenever the fault oracle of the operating system says so; a failing call
  leaves the tree as it was, except that a failing \<^verbatim>\<open>remove_dir_all\<close> may have removed some of the
  entries of its directory. Names are Rust \<open>String\<close>s (valid UTF-8).
\<close>

section \<open>The tree\<close>

text \<open>A regular file: its bytes and its modification time.\<close>

record regular_file =
  content :: "u8 list"
  mtime :: nat

text \<open>An entry of a volume directory: a regular file, or something else (a directory, a
  link) of which only the size and the time are seen.\<close>

datatype node = NFile regular_file | NOther u64 nat

text \<open>An entry of \<open>volumes_dir\<close> itself.\<close>

datatype dentry = EDir "(string \<times> node) list" | EOther

type_synonym fs = "(string \<times> dentry) list"

text \<open>A path at or below \<open>volumes_dir\<close>.\<close>

datatype vpath = PRoot | PDir string | PFile string string

fun path_string :: "string \<Rightarrow> vpath \<Rightarrow> string" where
  "path_string root PRoot = root"
| "path_string root (PDir d) = root @ ''/'' @ d"
| "path_string root (PFile d f) = root @ ''/'' @ d @ ''/'' @ f"

section \<open>Errors and the operating system\<close>

text \<open>\<^verbatim>\<open>std::io::Error\<close>: the two kinds the engine tells apart, or another errno.\<close>

datatype io_error = IoNotFound | IoAlreadyExists | IoOther nat

definition EISDIR :: nat where "EISDIR = 21"
definition ENOTDIR :: nat where "ENOTDIR = 20"
definition ENOTEMPTY :: nat where "ENOTEMPTY = 39"
definition EINVAL :: nat where "EINVAL = 22"

fun raw_os_error :: "io_error \<Rightarrow> nat" where
  "raw_os_error IoNotFound = 2"
| "raw_os_error IoAlreadyExists = 17"
| "raw_os_error (IoOther n) = n"

datatype syscall = CreateDirAll | OpenNew | OpenWrite | OpenRead | SetLen | SyncAll | Stat
  | ReadDir | RemoveFile | RemoveDir | RemoveDirAll | CloneRange | SyncDir

text \<open>
  What the engine takes from the outside: the faults of this call, the entries that a failing
  \<^verbatim>\<open>remove_dir_all\<close> has removed before it failed, the clock the kernel stamps files with, the third-party formatter of timestamps and the answer of
  \<^verbatim>\<open>statvfs\<close> (fragment size, blocks, free blocks).
\<close>

record os =
  fault :: "syscall \<Rightarrow> vpath \<Rightarrow> io_error option"
  removed :: "string \<Rightarrow> string \<Rightarrow> bool"
  clock :: nat
  rfc3339 :: "nat \<Rightarrow> string"
  statvfs :: "io_error + (u64 \<times> u64 \<times> u64)"

definition no_faults :: "os \<Rightarrow> bool" where
  "no_faults E \<longleftrightarrow> (\<forall>c p. fault E c p = None)"

section \<open>Looking at the tree\<close>

definition dir_at :: "fs \<Rightarrow> string \<Rightarrow> (string \<times> node) list option" where
  "dir_at t d = (case map_of t d of Some (EDir ns) \<Rightarrow> Some ns | _ \<Rightarrow> None)"

definition node_at :: "fs \<Rightarrow> string \<Rightarrow> string \<Rightarrow> node option" where
  "node_at t d f = (case dir_at t d of Some ns \<Rightarrow> map_of ns f | None \<Rightarrow> None)"

definition put_node :: "fs \<Rightarrow> string \<Rightarrow> string \<Rightarrow> node \<Rightarrow> fs" where
  "put_node t d f n = (case dir_at t d of
       Some ns \<Rightarrow> AList.update d (EDir (AList.update f n ns)) t | None \<Rightarrow> t)"

definition del_node :: "fs \<Rightarrow> string \<Rightarrow> string \<Rightarrow> fs" where
  "del_node t d f = (case dir_at t d of
       Some ns \<Rightarrow> AList.update d (EDir (AList.delete f ns)) t | None \<Rightarrow> t)"

definition wf_fs :: "fs \<Rightarrow> bool" where
  "wf_fs t \<longleftrightarrow> distinct (map fst t) \<and> (\<forall>d ns. dir_at t d = Some ns \<longrightarrow> distinct (map fst ns))"

section \<open>Calls\<close>

definition missing :: "fs \<Rightarrow> string \<Rightarrow> io_error" where
  "missing t d = (case map_of t d of Some EOther \<Rightarrow> IoOther ENOTDIR | _ \<Rightarrow> IoNotFound)"

definition fs_create_dir_all :: "os \<Rightarrow> fs \<Rightarrow> string \<Rightarrow> io_error + fs" where
  "fs_create_dir_all E t d = (case fault E CreateDirAll (PDir d) of Some e \<Rightarrow> Inl e | None \<Rightarrow>
     (case map_of t d of
        None \<Rightarrow> Inr (AList.update d (EDir []) t)
      | Some (EDir _) \<Rightarrow> Inr t
      | Some EOther \<Rightarrow> Inl IoAlreadyExists))"

definition fs_open_new :: "os \<Rightarrow> fs \<Rightarrow> string \<Rightarrow> string \<Rightarrow> io_error + fs" where
  "fs_open_new E t d f = (case fault E OpenNew (PFile d f) of Some e \<Rightarrow> Inl e | None \<Rightarrow>
     (case dir_at t d of None \<Rightarrow> Inl (missing t d) | Some ns \<Rightarrow>
        (case map_of ns f of
           Some _ \<Rightarrow> Inl IoAlreadyExists
         | None \<Rightarrow> Inr (put_node t d f (NFile \<lparr>content = [], mtime = clock E\<rparr>)))))"

text \<open>\<^verbatim>\<open>File::set_len\<close>: cut, or extend with zeros. A size that is no \<^verbatim>\<open>off_t\<close> is refused.\<close>

definition resize_bytes :: "u64 \<Rightarrow> u8 list \<Rightarrow> u8 list" where
  "resize_bytes n bs = take (unat n) bs @ replicate (unat n - length bs) 0"

definition fs_set_len :: "os \<Rightarrow> fs \<Rightarrow> string \<Rightarrow> string \<Rightarrow> u64 \<Rightarrow> io_error + fs" where
  "fs_set_len E t d f n = (if 0x8000000000000000 \<le> n then Inl (IoOther EINVAL) else
     case fault E SetLen (PFile d f) of Some e \<Rightarrow> Inl e | None \<Rightarrow>
     (case node_at t d f of
        Some (NFile x) \<Rightarrow> Inr (put_node t d f
          (NFile (x\<lparr>content := resize_bytes n (content x), mtime := clock E\<rparr>)))
      | Some (NOther _ _) \<Rightarrow> Inl (IoOther EISDIR)
      | None \<Rightarrow> Inl IoNotFound))"

text \<open>\<^verbatim>\<open>OpenOptions::write(true).open\<close> and \<^verbatim>\<open>File::open\<close> on an existing file.\<close>

definition fs_open :: "syscall \<Rightarrow> os \<Rightarrow> fs \<Rightarrow> string \<Rightarrow> string \<Rightarrow> io_error + regular_file" where
  "fs_open c E t d f = (case fault E c (PFile d f) of Some e \<Rightarrow> Inl e | None \<Rightarrow>
     (case node_at t d f of
        Some (NFile x) \<Rightarrow> Inr x
      | Some (NOther _ _) \<Rightarrow> Inl (IoOther EISDIR)
      | None \<Rightarrow> Inl IoNotFound))"

definition fs_sync_all :: "os \<Rightarrow> fs \<Rightarrow> string \<Rightarrow> string \<Rightarrow> io_error + fs" where
  "fs_sync_all E t d f = (case fault E SyncAll (PFile d f) of Some e \<Rightarrow> Inl e | None \<Rightarrow> Inr t)"

text \<open>\<^verbatim>\<open>std::fs::metadata\<close>: size and modification time.\<close>

definition fs_metadata :: "os \<Rightarrow> fs \<Rightarrow> string \<Rightarrow> string \<Rightarrow> io_error + (u64 \<times> nat)" where
  "fs_metadata E t d f = (case fault E Stat (PFile d f) of Some e \<Rightarrow> Inl e | None \<Rightarrow>
     (case node_at t d f of
        Some (NFile x) \<Rightarrow> Inr (of_nat (length (content x)), mtime x)
      | Some (NOther sz mt) \<Rightarrow> Inr (sz, mt)
      | None \<Rightarrow> Inl IoNotFound))"

definition fs_read_dir :: "os \<Rightarrow> fs \<Rightarrow> string \<Rightarrow> io_error + (string \<times> node) list" where
  "fs_read_dir E t d = (case fault E ReadDir (PDir d) of Some e \<Rightarrow> Inl e | None \<Rightarrow>
     (case dir_at t d of None \<Rightarrow> Inl (missing t d) | Some ns \<Rightarrow> Inr ns))"

definition fs_read_root :: "os \<Rightarrow> fs \<Rightarrow> io_error + fs" where
  "fs_read_root E t = (case fault E ReadDir PRoot of Some e \<Rightarrow> Inl e | None \<Rightarrow> Inr t)"

definition fs_remove_file :: "os \<Rightarrow> fs \<Rightarrow> string \<Rightarrow> string \<Rightarrow> io_error + fs" where
  "fs_remove_file E t d f = (case fault E RemoveFile (PFile d f) of Some e \<Rightarrow> Inl e | None \<Rightarrow>
     (case node_at t d f of
        Some (NFile _) \<Rightarrow> Inr (del_node t d f)
      | Some (NOther _ _) \<Rightarrow> Inl (IoOther EISDIR)
      | None \<Rightarrow> Inl (missing t d)))"

definition fs_remove_dir :: "os \<Rightarrow> fs \<Rightarrow> string \<Rightarrow> io_error + fs" where
  "fs_remove_dir E t d = (case fault E RemoveDir (PDir d) of Some e \<Rightarrow> Inl e | None \<Rightarrow>
     (case map_of t d of
        None \<Rightarrow> Inl IoNotFound
      | Some EOther \<Rightarrow> Inl (IoOther ENOTDIR)
      | Some (EDir ns) \<Rightarrow> if ns = [] then Inr (AList.delete d t) else Inl (IoOther ENOTEMPTY)))"

definition partly_removed :: "os \<Rightarrow> fs \<Rightarrow> string \<Rightarrow> fs" where
  "partly_removed E t d = (case dir_at t d of
       None \<Rightarrow> t | Some ns \<Rightarrow> AList.update d (EDir (filter (\<lambda>(f, _). \<not> removed E d f) ns)) t)"

definition fs_remove_dir_all :: "os \<Rightarrow> fs \<Rightarrow> string \<Rightarrow> (io_error + unit) \<times> fs" where
  "fs_remove_dir_all E t d = (case fault E RemoveDirAll (PDir d) of Some e \<Rightarrow> (Inl e, partly_removed E t d) | None \<Rightarrow>
     (case map_of t d of
        None \<Rightarrow> (Inl IoNotFound, t)
      | Some EOther \<Rightarrow> (Inl (IoOther ENOTDIR), t)
      | Some (EDir _) \<Rightarrow> (Inr (), AList.delete d t)))"

section \<open>Facts about the tree\<close>

lemma no_faultsD [simp]: "no_faults E \<Longrightarrow> fault E c p = None"
  by (simp add: no_faults_def)

lemma dir_at_update [simp]:
  "dir_at (AList.update d (EDir ns) t) d' = (if d' = d then Some ns else dir_at t d')"
  by (simp add: dir_at_def update_conv')

lemma dir_at_delete [simp]:
  "dir_at (AList.delete d t) d' = (if d' = d then None else dir_at t d')"
  by (simp add: dir_at_def delete_conv')

lemma dir_at_put_node:
  "dir_at (put_node t d f n) d' =
     (if d' = d then map_option (AList.update f n) (dir_at t d) else dir_at t d')"
  by (auto simp: put_node_def split: option.splits)

lemma dir_at_del_node:
  "dir_at (del_node t d f) d' =
     (if d' = d then map_option (AList.delete f) (dir_at t d) else dir_at t d')"
  by (auto simp: del_node_def split: option.splits)

lemma node_at_put_node [simp]:
  "dir_at t d \<noteq> None \<Longrightarrow> node_at (put_node t d f n) d' f' =
     (if d' = d \<and> f' = f then Some n else node_at t d' f')"
  by (auto simp: node_at_def dir_at_put_node update_conv' split: option.splits)

lemma node_at_del_node [simp]:
  "node_at (del_node t d f) d' f' = (if d' = d \<and> f' = f then None else node_at t d' f')"
  by (auto simp: node_at_def dir_at_del_node delete_conv' split: option.splits)

lemma node_at_new_dir [simp]:
  "dir_at t d = None \<Longrightarrow> node_at (AList.update d (EDir []) t) d' f = node_at t d' f"
  by (simp add: node_at_def)

lemma node_at_delete_dir [simp]:
  "node_at (AList.delete d t) d' f = (if d' = d then None else node_at t d' f)"
  by (simp add: node_at_def)

lemma node_at_SomeD: "node_at t d f = Some n \<Longrightarrow> dir_at t d \<noteq> None"
  by (auto simp: node_at_def split: option.splits)

lemma dir_at_None_node [simp]: "dir_at t d = None \<Longrightarrow> node_at t d f = None"
  by (simp add: node_at_def)

lemma has_dir_put_node [simp]: "dir_at (put_node t d f n) d' = None \<longleftrightarrow> dir_at t d' = None"
  by (simp add: dir_at_put_node)

lemma has_dir_del_node [simp]: "dir_at (del_node t d f) d' = None \<longleftrightarrow> dir_at t d' = None"
  by (simp add: dir_at_del_node)

lemma stray_put_node [simp]: "map_of (put_node t d f n) x = Some EOther \<longleftrightarrow> map_of t x = Some EOther"
  by (auto simp: put_node_def update_conv' dir_at_def split: option.splits dentry.splits)

lemma stray_del_node [simp]: "map_of (del_node t d f) x = Some EOther \<longleftrightarrow> map_of t x = Some EOther"
  by (auto simp: del_node_def update_conv' dir_at_def split: option.splits dentry.splits)

lemma wf_put_node [simp]: "wf_fs t \<Longrightarrow> wf_fs (put_node t d f n)"
  by (auto simp: wf_fs_def put_node_def distinct_update split: option.splits if_splits)

lemma wf_del_node [simp]: "wf_fs t \<Longrightarrow> wf_fs (del_node t d f)"
  by (auto simp: wf_fs_def del_node_def distinct_update distinct_delete
      split: option.splits if_splits)

lemma wf_new_dir [simp]: "wf_fs t \<Longrightarrow> wf_fs (AList.update d (EDir []) t)"
  by (auto simp: wf_fs_def distinct_update split: if_splits)

lemma wf_delete_dir [simp]: "wf_fs t \<Longrightarrow> wf_fs (AList.delete d t)"
  by (auto simp: wf_fs_def distinct_delete split: if_splits)

lemma dir_at_empty_iff: "dir_at t d = Some ns \<Longrightarrow> ns = [] \<longleftrightarrow> (\<forall>f. node_at t d f = None)"
  by (cases ns) (auto simp: node_at_def split: if_splits)

lemma length_resize_bytes [simp]: "length (resize_bytes n bs) = unat n"
  by (simp add: resize_bytes_def)

lemma of_nat_length_resize [simp]: "(of_nat (length (resize_bytes n bs)) :: u64) = n"
  by simp

section \<open>Successful calls\<close>

lemma fs_create_dir_all_ok:
  assumes "fs_create_dir_all E t d = Inr t'"
  shows "node_at t' = node_at t" "dir_at t' d \<noteq> None"
    "d' \<noteq> d \<Longrightarrow> dir_at t' d' = dir_at t d'"
    "dir_at t d = Some ns \<Longrightarrow> t' = t" "wf_fs t \<Longrightarrow> wf_fs t'"
    "map_of t' x = Some EOther \<longleftrightarrow> map_of t x = Some EOther"
proof -
  have *: "t' = t \<and> dir_at t d \<noteq> None \<or>
      dir_at t d = None \<and> map_of t d = None \<and> t' = AList.update d (EDir []) t"
    using assms by (auto simp: fs_create_dir_all_def dir_at_def
        split: option.splits dentry.splits)
  then show "node_at t' = node_at t" by (auto simp: fun_eq_iff)
  from * show "dir_at t' d \<noteq> None" "d' \<noteq> d \<Longrightarrow> dir_at t' d' = dir_at t d'"
    "dir_at t d = Some ns \<Longrightarrow> t' = t" "wf_fs t \<Longrightarrow> wf_fs t'"
    by auto
  from * show "map_of t' x = Some EOther \<longleftrightarrow> map_of t x = Some EOther"
    by (auto simp: update_conv' split: if_splits)
qed

lemma fs_open_new_ok:
  assumes "fs_open_new E t d f = Inr t'"
  shows "t' = put_node t d f (NFile \<lparr>content = [], mtime = clock E\<rparr>)"
    "dir_at t d \<noteq> None" "node_at t d f = None"
  using assms by (auto simp: fs_open_new_def node_at_def split: option.splits)

lemma fs_remove_file_ok:
  assumes "fs_remove_file E t d f = Inr t'"
  shows "t' = del_node t d f" "\<exists>x. node_at t d f = Some (NFile x)"
  using assms by (auto simp: fs_remove_file_def split: option.splits node.splits)

lemma fs_remove_dir_ok:
  assumes "fs_remove_dir E t d = Inr t'"
  shows "t' = AList.delete d t" "dir_at t d = Some []"
  using assms by (auto simp: fs_remove_dir_def dir_at_def
      split: option.splits dentry.splits if_splits)

lemma fs_remove_dir_node_at:
  "fs_remove_dir E t d = Inr t' \<Longrightarrow> node_at t' = node_at t"
  using fs_remove_dir_ok [of E t d t'] by (auto simp: fun_eq_iff node_at_def)

end
