(* ===== verification/Cow_Metrics.thy ===== *)
theory Cow_Metrics
  imports Prelude
begin

text \<open>
  The metrics collector of CubeCoW (\<^verbatim>\<open>cubecow/src/pkg/metrics/mod.rs\<close>): a map from metric
  names to 64-bit counters. \<open>fetch_add\<close> wraps; \<open>dec\<close> saturates and ignores unknown names.
\<close>

type_synonym counters = "(string, u64) hmap"

definition METRIC_VOLUME_COUNT :: string where "METRIC_VOLUME_COUNT = ''volume_count''"
definition METRIC_SNAPSHOT_COUNT :: string where "METRIC_SNAPSHOT_COUNT = ''snapshot_count''"
definition METRIC_TOTAL_BYTES :: string where "METRIC_TOTAL_BYTES = ''total_bytes''"
definition METRIC_USED_BYTES :: string where "METRIC_USED_BYTES = ''used_bytes''"

lemmas metric_keys = METRIC_VOLUME_COUNT_def METRIC_SNAPSHOT_COUNT_def
  METRIC_TOTAL_BYTES_def METRIC_USED_BYTES_def

definition metrics_new :: counters where
  "metrics_new = fold (\<lambda>key m. AList.update key 0 m)
     [METRIC_VOLUME_COUNT, METRIC_SNAPSHOT_COUNT, METRIC_TOTAL_BYTES, METRIC_USED_BYTES] []"

definition metrics_get :: "counters \<Rightarrow> string \<Rightarrow> u64" where
  "metrics_get m key = (case map_of m key of Some v \<Rightarrow> v | None \<Rightarrow> 0)"

definition metrics_inc_by :: "counters \<Rightarrow> string \<Rightarrow> u64 \<Rightarrow> counters" where
  "metrics_inc_by m key delta = AList.update key (metrics_get m key + delta) m"

definition metrics_inc :: "counters \<Rightarrow> string \<Rightarrow> counters" where
  "metrics_inc m key = AList.update key (metrics_get m key + 1) m"

definition metrics_dec :: "counters \<Rightarrow> string \<Rightarrow> counters" where
  "metrics_dec m key = (case map_of m key of
       Some v \<Rightarrow> AList.update key (saturating_sub v 1) m | None \<Rightarrow> m)"

definition metrics_set :: "counters \<Rightarrow> string \<Rightarrow> u64 \<Rightarrow> counters" where
  "metrics_set m key v = AList.update key v m"

lemma metrics_get_inc [simp]:
  "metrics_get (metrics_inc m k) k' = (if k' = k then metrics_get m k + 1 else metrics_get m k')"
  by (simp add: metrics_get_def metrics_inc_def update_conv')

lemma metrics_get_set [simp]:
  "metrics_get (metrics_set m k v) k' = (if k' = k then v else metrics_get m k')"
  by (simp add: metrics_get_def metrics_set_def update_conv')

lemma metrics_get_dec [simp]:
  "metrics_get (metrics_dec m k) k' =
     (if k' = k then saturating_sub (metrics_get m k) 1 else metrics_get m k')"
  by (auto simp: metrics_get_def metrics_dec_def update_conv' saturating_sub_def
      split: option.splits)

lemma metrics_new_get [simp]: "metrics_get metrics_new k = 0"
  by (auto simp: metrics_get_def metrics_new_def metric_keys split: option.splits if_splits)

lemma metric_keys_distinct [simp]:
  "METRIC_VOLUME_COUNT \<noteq> METRIC_SNAPSHOT_COUNT" "METRIC_SNAPSHOT_COUNT \<noteq> METRIC_VOLUME_COUNT"
  by (simp_all add: metric_keys)

end
