(* ===== verification/Reflink.thy ===== *)
theory Reflink
  imports Host_Fs Cow_Metrics "HOL-Library.List_Lexorder" "HOL-Library.Char_ord"
begin

text \<open>
  The xfs-reflink engine of CubeCoW (\<^verbatim>\<open>cubecow/src/engine/reflink.rs\<close>): the state of a
  \<open>ReflinkEngine\<close> together with the tree it owns on disk, and every operation of the
  \<open>Engine\<close> trait, branch by branch. An operation takes the operating system, the state and
  its arguments, and returns its result with the new state. The writer lock makes an
  operation atomic, but for \<open>create_volume\<close> and \<open>create_snapshot\<close>, which release it between
  their phases: their phases are definitions of their own, composed as the code does.
\<close>

section \<open>Types\<close>

datatype NameKind = Volume | Snapshot (origin_volume: string)

datatype CubecowError = NotFound string | AlreadyExists string | ResourceExhausted string
  | InvalidArg string | IoError io_error | ConfigError string | PreconditionFailed string

record volume_view =
  v_name :: string
  v_size_bytes :: u64
  v_device_path :: string
  v_snapshot_count :: int
  v_created_at :: string

record snapshot_view =
  s_name :: string
  s_size_bytes :: u64
  s_device_path :: string
  s_origin_volume :: string
  s_created_at :: string

record VolumeBlockInfo =
  num_blocks :: u64
  block_size :: u32

text \<open>The engine's fields, and the tree under \<open>volumes_dir\<close>.\<close>

record ReflinkEngine =
  volumes_dir :: string
  name_index :: "(string, NameKind) hmap"
  metrics :: counters
  disk :: fs

type_synonym 'a outcome = "(CubecowError + 'a) \<times> ReflinkEngine"

definition REFLINK_BLOCK_SIZE :: u32 where "REFLINK_BLOCK_SIZE = 512"

definition quoted :: "string \<Rightarrow> string" where
  "quoted n = [CHR 0x27] @ n @ [CHR 0x27]"

section \<open>Index and path helpers\<close>

definition idx_get :: "ReflinkEngine \<Rightarrow> string \<Rightarrow> NameKind option" where
  "idx_get s n = map_of (name_index s) n"

definition idx_insert :: "string \<Rightarrow> NameKind \<Rightarrow> ReflinkEngine \<Rightarrow> ReflinkEngine" where
  "idx_insert n k s = s\<lparr>name_index := AList.update n k (name_index s)\<rparr>"

definition idx_remove :: "string \<Rightarrow> ReflinkEngine \<Rightarrow> ReflinkEngine" where
  "idx_remove n s = s\<lparr>name_index := AList.delete n (name_index s)\<rparr>"

definition vol_dir :: "string \<Rightarrow> vpath" where "vol_dir v = PDir v"

definition vol_main_file :: "string \<Rightarrow> vpath" where "vol_main_file v = PFile v v"

definition snap_file :: "string \<Rightarrow> string \<Rightarrow> vpath" where "snap_file ov sn = PFile ov sn"

text \<open>Whether some snapshot of \<open>v\<close> is in the index.\<close>

definition has_snapshots_of :: "(string, NameKind) hmap \<Rightarrow> string \<Rightarrow> bool" where
  "has_snapshots_of idx v \<longleftrightarrow>
     list_ex (\<lambda>(_, k). case k of Snapshot ov \<Rightarrow> ov = v | Volume \<Rightarrow> False) idx"

definition validate_name :: "string \<Rightarrow> string \<Rightarrow> CubecowError + unit" where
  "validate_name name kind =
    (if name = [] then Inl (InvalidArg (kind @ '' name is empty''))
     else if name = ''.'' \<or> name = ''..''
       then Inl (InvalidArg (kind @ '' name '' @ quoted name @ '' is reserved''))
     else if CHR ''/'' \<in> set name \<or> CHR 0x00 \<in> set name
       then Inl (InvalidArg (kind @ '' name '' @ quoted name @ '' contains an invalid character''))
     else if hd name = CHR ''.''
       then Inl (InvalidArg (kind @ '' name '' @ quoted name @ '' must not start with '' @ quoted ''.''))
     else Inr ())"

definition dotted :: "string \<Rightarrow> bool" where
  "dotted n = (case n of c # _ \<Rightarrow> c = CHR ''.'' | [] \<Rightarrow> False)"

section \<open>Helpers on files\<close>

definition fsync_dir :: "os \<Rightarrow> fs \<Rightarrow> vpath \<Rightarrow> io_error + unit" where
  "fsync_dir E t p = (case fault E SyncDir p of Some e \<Rightarrow> Inl e | None \<Rightarrow>
     (case p of PDir d \<Rightarrow> (case map_of t d of None \<Rightarrow> Inl IoNotFound | Some _ \<Rightarrow> Inr ()) | _ \<Rightarrow> Inr ()))"

definition describe_ficlone_errno :: "nat \<Rightarrow> string" where
  "describe_ficlone_errno errno =
    (let dash = '' '' @ [CHR 0xE2, CHR 0x80, CHR 0x94] @ '' '' in
     if errno = 95 then ''EOPNOTSUPP'' @ dash @ ''filesystem does not support reflink''
     else if errno = 22
       then ''EINVAL'' @ dash @ ''kernel/filesystem rejected FICLONE (no reflink support)''
     else if errno = 18 then ''EXDEV'' @ dash @ ''cross-filesystem clone''
     else if errno = 28 then ''ENOSPC'' @ dash @ ''filesystem out of space''
     else ''errno='' @ decimal errno)"

text \<open>
  \<open>ficlone\<close> creates the destination, shares the source's extents with it, and on an ioctl
  error unlinks the destination, ignoring the outcome of the unlink.
\<close>

definition ficlone :: "os \<Rightarrow> fs \<Rightarrow> regular_file \<Rightarrow> string \<Rightarrow> string \<Rightarrow> (nat + unit) \<times> fs" where
  "ficlone E t src d f = (case fs_open_new E t d f of
       Inl e \<Rightarrow> (Inl (raw_os_error e), t)
     | Inr t1 \<Rightarrow> (case fault E CloneRange (PFile d f) of
         Some e \<Rightarrow> (Inl (raw_os_error e),
                    (case fs_remove_file E t1 d f of Inr t2 \<Rightarrow> t2 | Inl _ \<Rightarrow> t1))
       | None \<Rightarrow> (Inr (),
           put_node t1 d f (NFile \<lparr>content = content src, mtime = clock E\<rparr>))))"

definition count_snapshots_on_disk :: "os \<Rightarrow> fs \<Rightarrow> string \<Rightarrow> string \<Rightarrow> CubecowError + int" where
  "count_snapshots_on_disk E t d volume_name = (case fs_read_dir E t d of
       Inl IoNotFound \<Rightarrow> Inr 0
     | Inl e \<Rightarrow> Inl (IoError e)
     | Inr ns \<Rightarrow> Inr (fold (\<lambda>(name, _) count.
         if name = volume_name then count
         else if dotted name then count
         else min (2 ^ 31 - 1) (count + 1)) ns 0))"

definition statvfs_total_used :: "os \<Rightarrow> io_error + (u64 \<times> u64)" where
  "statvfs_total_used E = (case statvfs E of
       Inl e \<Rightarrow> Inl e
     | Inr (frsize, blocks, bfree) \<Rightarrow>
         (let total = blocks * frsize; avail = bfree * frsize
          in Inr (total, saturating_sub total avail)))"

definition volumes_dir_stats :: "os \<Rightarrow> u64 \<times> u64" where
  "volumes_dir_stats E = (case statvfs_total_used E of Inr v \<Rightarrow> v | Inl _ \<Rightarrow> (0, 0))"

section \<open>Views\<close>

definition project_volume :: "os \<Rightarrow> ReflinkEngine \<Rightarrow> string \<Rightarrow> CubecowError + volume_view" where
  "project_volume E s v = (case fs_metadata E (disk s) v v of
       Inl IoNotFound \<Rightarrow> Inl (NotFound (''volume '' @ quoted v))
     | Inl e \<Rightarrow> Inl (IoError e)
     | Inr (sz, mt) \<Rightarrow> result_bind (count_snapshots_on_disk E (disk s) v v) (\<lambda>cnt.
         Inr \<lparr>v_name = v, v_size_bytes = sz,
              v_device_path = path_string (volumes_dir s) (vol_main_file v),
              v_snapshot_count = cnt, v_created_at = rfc3339 E mt\<rparr>))"

definition project_snapshot :: "os \<Rightarrow> ReflinkEngine \<Rightarrow> string \<Rightarrow> CubecowError + snapshot_view" where
  "project_snapshot E s sn = (case idx_get s sn of
       Some Volume \<Rightarrow>
         Inl (NotFound (''snapshot '' @ quoted sn @ '' (a volume with that name exists)''))
     | None \<Rightarrow> Inl (NotFound (''snapshot '' @ quoted sn))
     | Some (Snapshot ov) \<Rightarrow> (case fs_metadata E (disk s) ov sn of
         Inl IoNotFound \<Rightarrow> Inl (NotFound (''snapshot '' @ quoted sn))
       | Inl e \<Rightarrow> Inl (IoError e)
       | Inr (sz, mt) \<Rightarrow> Inr \<lparr>s_name = sn, s_size_bytes = sz,
            s_device_path = path_string (volumes_dir s) (snap_file ov sn),
            s_origin_volume = ov, s_created_at = rfc3339 E mt\<rparr>))"

text \<open>A snapshot seen as a volume.\<close>

definition volume_shaped :: "snapshot_view \<Rightarrow> volume_view" where
  "volume_shaped sv = \<lparr>v_name = s_name sv, v_size_bytes = s_size_bytes sv,
     v_device_path = s_device_path sv, v_snapshot_count = 0, v_created_at = s_created_at sv\<rparr>"

section \<open>Volumes\<close>

text \<open>A fallible file call inside an operation: on success go on with the new tree.\<close>

definition try_io :: "io_error + fs \<Rightarrow> (io_error \<Rightarrow> CubecowError) \<Rightarrow> ReflinkEngine
    \<Rightarrow> (ReflinkEngine \<Rightarrow> 'a outcome) \<Rightarrow> 'a outcome" where
  "try_io r f s k = (case r of Inl e \<Rightarrow> (Inl (f e), s) | Inr t \<Rightarrow> k (s\<lparr>disk := t\<rparr>))"

definition sync_step :: "io_error + unit \<Rightarrow> ReflinkEngine
    \<Rightarrow> (ReflinkEngine \<Rightarrow> 'a outcome) \<Rightarrow> 'a outcome" where
  "sync_step r s k = (case r of Inl e \<Rightarrow> (Inl (IoError e), s) | Inr _ \<Rightarrow> k s)"

text \<open>A file call whose failure is ignored.\<close>

definition best_effort :: "io_error + fs \<Rightarrow> ReflinkEngine \<Rightarrow> ReflinkEngine" where
  "best_effort r s = (case r of Inl _ \<Rightarrow> s | Inr t \<Rightarrow> s\<lparr>disk := t\<rparr>)"

text \<open>First phase of \<open>create_volume\<close>, under the writer lock: reserve the name.\<close>

definition cv_reserve :: "ReflinkEngine \<Rightarrow> string \<Rightarrow> unit outcome" where
  "cv_reserve s name = (case idx_get s name of
       Some _ \<Rightarrow>
         (Inl (AlreadyExists (''name '' @ quoted name @ '' already exists in reflink namespace'')), s)
     | None \<Rightarrow> (Inr (), idx_insert name Volume s))"

text \<open>Second phase: make the directory and the main file, without the lock.\<close>

definition cv_build :: "os \<Rightarrow> ReflinkEngine \<Rightarrow> string \<Rightarrow> u64 \<Rightarrow> volume_view outcome" where
  "cv_build E s name size_bytes =
    try_io (fs_create_dir_all E (disk s) name) IoError s (\<lambda>s1.
    try_io (fs_open_new E (disk s1) name name)
      (\<lambda>e. if e = IoAlreadyExists
           then AlreadyExists (''volume main file ''
             @ quoted (path_string (volumes_dir s) (vol_main_file name)) @ '' already exists'')
           else IoError e) s1 (\<lambda>s2.
    try_io (fs_set_len E (disk s2) name name size_bytes) IoError s2 (\<lambda>s3.
    try_io (fs_sync_all E (disk s3) name name) IoError s3 (\<lambda>s4.
    sync_step (fsync_dir E (disk s4) (vol_dir name)) s4 (\<lambda>s5.
    sync_step (fsync_dir E (disk s5) PRoot) s5 (\<lambda>s6.
      let s7 = s6\<lparr>metrics := metrics_inc (metrics s6) METRIC_VOLUME_COUNT\<rparr>
      in (project_volume E s7 name, s7)))))))"

text \<open>Last phase, after an error: drop the reservation and what was built.\<close>

definition cv_rollback :: "os \<Rightarrow> ReflinkEngine \<Rightarrow> string \<Rightarrow> ReflinkEngine" where
  "cv_rollback E s name =
    (let s1 = idx_remove name s;
         s2 = best_effort (fs_remove_file E (disk s1) name name) s1
     in best_effort (fs_remove_dir E (disk s2) name) s2)"

definition create_volume :: "os \<Rightarrow> ReflinkEngine \<Rightarrow> string \<Rightarrow> u64 \<Rightarrow> volume_view outcome" where
  "create_volume E s name size_bytes = (case validate_name name ''volume'' of
       Inl e \<Rightarrow> (Inl e, s)
     | Inr _ \<Rightarrow> (case cv_reserve s name of
         (Inl e, s1) \<Rightarrow> (Inl e, s1)
       | (Inr _, s1) \<Rightarrow> (case cv_build E s1 name size_bytes of
           (Inl e, s2) \<Rightarrow> (Inl e, cv_rollback E s2 name)
         | (Inr v, s2) \<Rightarrow> (Inr v, s2))))"

text \<open>An unlink that treats a missing target as done.\<close>

definition absent_ok :: "io_error + fs \<Rightarrow> fs \<Rightarrow> io_error + fs" where
  "absent_ok r t = (case r of Inl IoNotFound \<Rightarrow> Inr t | _ \<Rightarrow> r)"

definition delete_volume :: "os \<Rightarrow> ReflinkEngine \<Rightarrow> string \<Rightarrow> unit outcome" where
  "delete_volume E s name = (case idx_get s name of
       Some (Snapshot _) \<Rightarrow>
         (Inl (InvalidArg (quoted name @ '' is a snapshot; use delete_snapshot instead'')), s)
     | None \<Rightarrow> (Inl (NotFound (''volume '' @ quoted name)), s)
     | Some Volume \<Rightarrow>
         (let has_live_snapshots = has_snapshots_of (name_index s) name in
          try_io (absent_ok (fs_remove_file E (disk s) name name) (disk s)) IoError s (\<lambda>s1.
          try_io (if has_live_snapshots then Inr (disk s1)
                  else absent_ok (fs_remove_dir E (disk s1) name) (disk s1)) IoError s1 (\<lambda>s2.
            let s3 = idx_remove name s2
            in (Inr (), s3\<lparr>metrics := metrics_dec (metrics s3) METRIC_VOLUME_COUNT\<rparr>)))))"

definition resize_volume :: "os \<Rightarrow> ReflinkEngine \<Rightarrow> string \<Rightarrow> u64 \<Rightarrow> (u64 \<times> u64) outcome" where
  "resize_volume E s name new_size_bytes = (case idx_get s name of
       Some (Snapshot _) \<Rightarrow> (Inl (InvalidArg (quoted name @ '' is a snapshot; cannot resize'')), s)
     | None \<Rightarrow> (Inl (NotFound (''volume '' @ quoted name)), s)
     | Some Volume \<Rightarrow> (case fs_metadata E (disk s) name name of
         Inl e \<Rightarrow> (Inl (IoError e), s)
       | Inr (old_size, _) \<Rightarrow>
           if new_size_bytes < old_size
           then (Inl (InvalidArg (''shrinking is not supported (current='' @ decimal (unat old_size)
                  @ '', requested='' @ decimal (unat new_size_bytes) @ '')'')), s)
           else if new_size_bytes = old_size then (Inr (old_size, old_size), s)
           else (case fs_open OpenWrite E (disk s) name name of
               Inl e \<Rightarrow> (Inl (IoError e), s)
             | Inr _ \<Rightarrow>
                 try_io (fs_set_len E (disk s) name name new_size_bytes) IoError s (\<lambda>s1.
                 try_io (fs_sync_all E (disk s1) name name) IoError s1 (\<lambda>s2.
                   (Inr (old_size, new_size_bytes), s2))))))"

definition get_volume_info :: "os \<Rightarrow> ReflinkEngine \<Rightarrow> string \<Rightarrow> CubecowError + volume_view" where
  "get_volume_info E s name = (case idx_get s name of
       Some Volume \<Rightarrow> project_volume E s name
     | Some (Snapshot _) \<Rightarrow>
         result_bind (project_snapshot E s name) (\<lambda>snap. Inr (volume_shaped snap))
     | None \<Rightarrow> Inl (NotFound (''volume or snapshot '' @ quoted name)))"

definition get_volume_block_info ::
    "os \<Rightarrow> ReflinkEngine \<Rightarrow> string \<Rightarrow> CubecowError + VolumeBlockInfo" where
  "get_volume_block_info E s name = result_bind (get_volume_info E s name) (\<lambda>vol.
     Inr \<lparr>num_blocks = v_size_bytes vol div ucast REFLINK_BLOCK_SIZE,
          block_size = REFLINK_BLOCK_SIZE\<rparr>)"

section \<open>Listings\<close>

text \<open>
  The bounds of a page: \<open>start + page_size\<close> is a \<open>usize\<close> addition, and the slice
  \<open>names[start..end]\<close> panics (\<open>None\<close>) when its bounds are out of order.
\<close>

definition page_bounds :: "string list \<Rightarrow> u64 \<Rightarrow> string option \<Rightarrow> nat \<times> nat" where
  "page_bounds names page_size page_token =
    (let total = length names;
         start = (case page_token of
             Some tok \<Rightarrow> length (takeWhile (\<lambda>n. n \<noteq> tok) names)
           | None \<Rightarrow> 0);
         effective_page_size = (if page_size = 0 then of_nat total else page_size)
     in (start, min (unat (of_nat start + effective_page_size)) total))"

definition page_of :: "string list \<Rightarrow> u64 \<Rightarrow> string option
    \<Rightarrow> (string list \<times> string option) option" where
  "page_of names page_size page_token =
    (case page_bounds names page_size page_token of (start, stop) \<Rightarrow>
       if start \<le> stop
       then Some (take (stop - start) (drop start names),
                  if stop < length names then Some (names ! stop) else None)
       else None)"

text \<open>Materialise a page, skipping the names whose projection fails.\<close>

definition collect_ok :: "('a \<Rightarrow> 'e + 'b) \<Rightarrow> 'a list \<Rightarrow> 'b list" where
  "collect_ok f xs = List.map_filter (\<lambda>x. case f x of Inr y \<Rightarrow> Some y | Inl _ \<Rightarrow> None) xs"

definition volume_names :: "ReflinkEngine \<Rightarrow> string list" where
  "volume_names s = sort (map fst (filter (\<lambda>(_, k). k = Volume) (name_index s)))"

definition list_volumes :: "os \<Rightarrow> ReflinkEngine \<Rightarrow> u64 \<Rightarrow> string option
    \<Rightarrow> (volume_view list \<times> string option \<times> nat) option" where
  "list_volumes E s page_size page_token =
    (let names = volume_names s in
     case page_of names page_size page_token of
       None \<Rightarrow> None
     | Some (page, next_token) \<Rightarrow>
         Some (collect_ok (project_volume E s) page, next_token, length names))"

definition snapshot_names :: "ReflinkEngine \<Rightarrow> string \<Rightarrow> string list" where
  "snapshot_names s v = sort (map fst (filter (\<lambda>(_, k). k = Snapshot v) (name_index s)))"

definition list_snapshots :: "os \<Rightarrow> ReflinkEngine \<Rightarrow> string \<Rightarrow> u64 \<Rightarrow> string option
    \<Rightarrow> (snapshot_view list \<times> string option) option" where
  "list_snapshots E s volume_name page_size page_token =
    (if idx_get s volume_name \<noteq> Some Volume then Some ([], None)
     else case page_of (snapshot_names s volume_name) page_size page_token of
       None \<Rightarrow> None
     | Some (page, next_token) \<Rightarrow> Some (collect_ok (project_snapshot E s) page, next_token))"

section \<open>Snapshots\<close>

text \<open>First phase of \<open>create_snapshot\<close>, under the reader lock: where the source's bytes are
  and which volume directory the snapshot goes to.\<close>

definition cs_resolve :: "ReflinkEngine \<Rightarrow> string \<Rightarrow> CubecowError + (string \<times> string)" where
  "cs_resolve s source_name = (case idx_get s source_name of
       Some Volume \<Rightarrow> Inr (source_name, source_name)
     | Some (Snapshot ov) \<Rightarrow> Inr (ov, ov)
     | None \<Rightarrow> Inl (NotFound (''source '' @ quoted source_name @ '' for snapshot'')))"

definition cs_reserve :: "ReflinkEngine \<Rightarrow> string \<Rightarrow> string \<Rightarrow> unit outcome" where
  "cs_reserve s ultimate_origin snapshot_name = (case idx_get s snapshot_name of
       Some _ \<Rightarrow> (Inl (AlreadyExists (''name '' @ quoted snapshot_name
                  @ '' already exists in reflink namespace'')), s)
     | None \<Rightarrow> (Inr (), idx_insert snapshot_name (Snapshot ultimate_origin) s))"

text \<open>Third phase, without the lock: clone the source file and count the snapshot.\<close>

definition cs_build :: "os \<Rightarrow> ReflinkEngine \<Rightarrow> string \<Rightarrow> string \<Rightarrow> string \<Rightarrow> string
    \<Rightarrow> snapshot_view outcome" where
  "cs_build E s source_dir source_name ultimate_origin snapshot_name =
    (case fs_open OpenRead E (disk s) source_dir source_name of
       Inl IoNotFound \<Rightarrow> (Inl (NotFound (''source file ''
           @ quoted (path_string (volumes_dir s) (PFile source_dir source_name))
           @ '' missing for snapshot'')), s)
     | Inl e \<Rightarrow> (Inl (IoError e), s)
     | Inr src \<Rightarrow> (case ficlone E (disk s) src ultimate_origin snapshot_name of
         (Inl errno, t) \<Rightarrow> (Inl (PreconditionFailed (''FICLONE failed for snapshot ''
             @ quoted snapshot_name @ '' from ''
             @ quoted (path_string (volumes_dir s) (PFile source_dir source_name))
             @ '': '' @ describe_ficlone_errno errno)), s\<lparr>disk := t\<rparr>)
       | (Inr _, t) \<Rightarrow>
           (let s1 = s\<lparr>disk := t, metrics := metrics_inc (metrics s) METRIC_SNAPSHOT_COUNT\<rparr>
            in (project_snapshot E s1 snapshot_name, s1))))"

definition create_snapshot ::
    "os \<Rightarrow> ReflinkEngine \<Rightarrow> string \<Rightarrow> string \<Rightarrow> snapshot_view outcome" where
  "create_snapshot E s source_name snapshot_name =
    (case validate_name snapshot_name ''snapshot'' of
       Inl e \<Rightarrow> (Inl e, s)
     | Inr _ \<Rightarrow> (case cs_resolve s source_name of
         Inl e \<Rightarrow> (Inl e, s)
       | Inr (source_dir, ultimate_origin) \<Rightarrow> (case cs_reserve s ultimate_origin snapshot_name of
           (Inl e, s1) \<Rightarrow> (Inl e, s1)
         | (Inr _, s1) \<Rightarrow>
             (case cs_build E s1 source_dir source_name ultimate_origin snapshot_name of
               (Inl e, s2) \<Rightarrow> (Inl e, idx_remove snapshot_name s2)
             | (Inr sv, s2) \<Rightarrow> (Inr sv, s2)))))"

definition delete_snapshot :: "os \<Rightarrow> ReflinkEngine \<Rightarrow> string \<Rightarrow> unit outcome" where
  "delete_snapshot E s snapshot_name = (case idx_get s snapshot_name of
       Some Volume \<Rightarrow>
         (Inl (InvalidArg (quoted snapshot_name @ '' is a volume; use delete_volume instead'')), s)
     | None \<Rightarrow> (Inl (NotFound (''snapshot '' @ quoted snapshot_name)), s)
     | Some (Snapshot origin) \<Rightarrow>
         try_io (absent_ok (fs_remove_file E (disk s) origin snapshot_name) (disk s)) IoError s
         (\<lambda>s1.
           let s2 = idx_remove snapshot_name s1;
               s3 = s2\<lparr>metrics := metrics_dec (metrics s2) METRIC_SNAPSHOT_COUNT\<rparr>;
               origin_alive = (idx_get s3 origin \<noteq> None);
               still_has_siblings = has_snapshots_of (name_index s3) origin
           in (Inr (), if \<not> origin_alive \<and> \<not> still_has_siblings
                       then best_effort (fs_remove_dir E (disk s3) origin) s3 else s3)))"

definition activate_volume :: "os \<Rightarrow> ReflinkEngine \<Rightarrow> string \<Rightarrow> CubecowError + volume_view" where
  "activate_volume E s name = (case idx_get s name of
       Some Volume \<Rightarrow> project_volume E s name
     | Some (Snapshot _) \<Rightarrow>
         result_bind (project_snapshot E s name) (\<lambda>snap. Inr (volume_shaped snap))
     | None \<Rightarrow> Inl (NotFound (''volume or snapshot '' @ quoted name)))"

definition deactivate_volume :: "ReflinkEngine \<Rightarrow> string \<Rightarrow> CubecowError + unit" where
  "deactivate_volume s name = (case idx_get s name of
       Some _ \<Rightarrow> Inr ()
     | None \<Rightarrow> Inl (NotFound (''volume or snapshot '' @ quoted name)))"

section \<open>Reset and metrics\<close>

fun reset_dirs :: "os \<Rightarrow> fs \<Rightarrow> string list \<Rightarrow> (io_error + unit) \<times> fs" where
  "reset_dirs E t [] = (Inr (), t)"
| "reset_dirs E t (d # ds) = (case fs_remove_dir_all E t d of
       (Inr _, t1) \<Rightarrow> reset_dirs E t1 ds
     | (Inl e, t1) \<Rightarrow> if e = IoNotFound then reset_dirs E t1 ds else (Inl e, t1))"

definition reset_node_storage :: "os \<Rightarrow> ReflinkEngine \<Rightarrow> unit outcome" where
  "reset_node_storage E s = (case fs_read_root E (disk s) of
       Inl e \<Rightarrow> (Inl (IoError e), s)
     | Inr root \<Rightarrow>
         (let entries = map fst (filter (\<lambda>(_, de). de \<noteq> EOther) root) in
          case reset_dirs E (disk s) entries of
            (Inl e, t) \<Rightarrow> (Inl (IoError e), s\<lparr>disk := t\<rparr>)
          | (Inr _, t) \<Rightarrow> (Inr (), s\<lparr>disk := t, name_index := [],
              metrics := metrics_set (metrics_set (metrics s) METRIC_VOLUME_COUNT 0)
                           METRIC_SNAPSHOT_COUNT 0\<rparr>)))"

definition engine_metrics :: "os \<Rightarrow> ReflinkEngine \<Rightarrow> counters \<times> ReflinkEngine" where
  "engine_metrics E s = (case volumes_dir_stats E of (total_b, used_b) \<Rightarrow>
     (let s1 = s\<lparr>metrics := metrics_set (metrics_set (metrics s) METRIC_TOTAL_BYTES total_b)
                 METRIC_USED_BYTES used_b\<rparr>
      in (metrics s1, s1)))"

section \<open>Start-up\<close>

definition read_dir_count_non_dotfiles :: "os \<Rightarrow> fs \<Rightarrow> string \<Rightarrow> io_error + nat" where
  "read_dir_count_non_dotfiles E t d = result_bind (fs_read_dir E t d)
     (\<lambda>ns. Inr (length (filter (\<lambda>(n, _). \<not> dotted n) ns)))"

definition ignore_io :: "io_error + fs \<Rightarrow> fs \<Rightarrow> fs" where
  "ignore_io r t = (case r of Inl _ \<Rightarrow> t | Inr t1 \<Rightarrow> t1)"

text \<open>The inner loop of the scan: register the files of one volume directory.\<close>

fun scan_snapshots :: "os \<Rightarrow> string \<Rightarrow> fs \<Rightarrow> (string, NameKind) hmap \<Rightarrow> (string \<times> node) list
    \<Rightarrow> (io_error + (string, NameKind) hmap) \<times> fs" where
  "scan_snapshots E vol t idx [] = (Inr idx, t)"
| "scan_snapshots E vol t idx ((n, NOther _ _) # subs) = scan_snapshots E vol t idx subs"
| "scan_snapshots E vol t idx ((n, NFile x) # subs) =
    (if n = vol then scan_snapshots E vol t idx subs
     else if dotted n then scan_snapshots E vol t idx subs
     else case fault E Stat (PFile vol n) of
       Some e \<Rightarrow> (Inl e, t)
     | None \<Rightarrow>
         if (of_nat (length (content x)) :: u64) = 0
         then scan_snapshots E vol (ignore_io (fs_remove_file E t vol n) t) idx subs
         else if map_of idx n \<noteq> None then scan_snapshots E vol t idx subs
         else scan_snapshots E vol t (AList.update n (Snapshot vol) idx) subs)"

text \<open>The outer loop, over the entries of \<open>volumes_dir\<close>.\<close>

fun scan_volumes :: "os \<Rightarrow> fs \<Rightarrow> (string, NameKind) hmap \<Rightarrow> (string \<times> dentry) list
    \<Rightarrow> (io_error + (string, NameKind) hmap) \<times> fs" where
  "scan_volumes E t idx [] = (Inr idx, t)"
| "scan_volumes E t idx ((vol, EOther) # es) = scan_volumes E t idx es"
| "scan_volumes E t idx ((vol, EDir _) # es) =
    (if dotted vol then scan_volumes E t idx es
     else let enumerate = (\<lambda>idx1. case fs_read_dir E t vol of
            Inl e \<Rightarrow> (Inl e, t)
          | Inr subs \<Rightarrow> (case scan_snapshots E vol t idx1 subs of
              (Inl e, t1) \<Rightarrow> (Inl e, t1)
            | (Inr idx2, t1) \<Rightarrow> scan_volumes E t1 idx2 es))
     in case fs_metadata E t vol vol of
       Inr _ \<Rightarrow> enumerate (AList.update vol Volume idx)
     | Inl IoNotFound \<Rightarrow> (case read_dir_count_non_dotfiles E t vol of
         Inl e \<Rightarrow> (Inl e, t)
       | Inr leftovers \<Rightarrow>
           if leftovers = 0
           then scan_volumes E (ignore_io (fs_remove_dir E t vol) t) idx es
           else enumerate idx)
     | Inl e \<Rightarrow> (Inl e, t))"

definition scan_and_rebuild_index ::
    "os \<Rightarrow> fs \<Rightarrow> (io_error + (string, NameKind) hmap) \<times> fs" where
  "scan_and_rebuild_index E t = (case fs_read_root E t of
       Inl IoNotFound \<Rightarrow> (Inr [], t)
     | Inl e \<Rightarrow> (Inl e, t)
     | Inr entries \<Rightarrow> scan_volumes E t [] entries)"

definition count_kind :: "(NameKind \<Rightarrow> bool) \<Rightarrow> (string, NameKind) hmap \<Rightarrow> u64" where
  "count_kind P idx = fold (\<lambda>(_, k) c. if P k then c + 1 else c) idx 0"

text \<open>
  What \<open>initialize_with_config\<close> does once the configuration is valid, \<open>volumes_dir\<close>
  exists and the FICLONE probe has passed: scan, then prime the metrics.
\<close>

definition initialize_scan :: "os \<Rightarrow> string \<Rightarrow> fs \<Rightarrow> io_error + ReflinkEngine" where
  "initialize_scan E vdir t = (case scan_and_rebuild_index E t of
       (Inl e, _) \<Rightarrow> Inl e
     | (Inr idx, t1) \<Rightarrow>
         (let volume_count = count_kind (\<lambda>k. k = Volume) idx;
              snapshot_count = count_kind (\<lambda>k. k \<noteq> Volume) idx;
              m = metrics_set (metrics_set metrics_new METRIC_VOLUME_COUNT volume_count)
                    METRIC_SNAPSHOT_COUNT snapshot_count
          in Inr \<lparr>volumes_dir = vdir, name_index = idx, metrics = m, disk = t1\<rparr>))"

end
