(* ===== verification/Reflink_Store.thy ===== *)
theory Reflink_Store
  imports Reflink Runs
begin

text \<open>
  What the reflink engine promises: a store of named, independent byte strings, each a
  volume or a snapshot of a volume. This theory states the agreement between the name
  index and the files on disk that every operation keeps, the store an agreeing state
  stands for, and that each operation, when no call faults, either is rejected and leaves
  the store as it was or performs the store's operation.
\<close>

section \<open>Agreement of index and disk\<close>

definition name_ok :: "string \<Rightarrow> bool" where
  "name_ok n \<longleftrightarrow> n \<noteq> [] \<and> CHR ''/'' \<notin> set n \<and> CHR 0x00 \<notin> set n \<and> hd n \<noteq> CHR ''.''"

text \<open>The directory the file of a name lives in.\<close>

fun home :: "string \<Rightarrow> NameKind \<Rightarrow> string" where
  "home n Volume = n"
| "home n (Snapshot ov) = ov"

definition agree ::
    "(string \<rightharpoonup> NameKind) \<Rightarrow> (string \<Rightarrow> string \<Rightarrow> node option) \<Rightarrow> bool" where
  "agree I N \<longleftrightarrow>
     (\<forall>n k. I n = Some k \<longrightarrow> name_ok n \<and> name_ok (home n k) \<and>
        (\<exists>x. N (home n k) n = Some (NFile x) \<and> length (content x) < 2 ^ 64)) \<and>
     (\<forall>d n y. N d n = Some y \<longrightarrow> (\<exists>k. I n = Some k \<and> home n k = d))"

definition engine_ok :: "ReflinkEngine \<Rightarrow> bool" where
  "engine_ok s \<longleftrightarrow> distinct (map fst (name_index s)) \<and> wf_fs (disk s) \<and>
     (\<forall>d. map_of (disk s) d \<noteq> Some EOther) \<and> agree (idx_get s) (node_at (disk s))"

section \<open>The store\<close>

type_synonym store = "string \<rightharpoonup> NameKind \<times> u8 list"

definition store_of ::
    "(string \<rightharpoonup> NameKind) \<Rightarrow> (string \<Rightarrow> string \<Rightarrow> node option) \<Rightarrow> store" where
  "store_of I N n = (case I n of None \<Rightarrow> None | Some k \<Rightarrow>
     (case N (home n k) n of Some (NFile x) \<Rightarrow> Some (k, content x) | _ \<Rightarrow> None))"

definition view :: "ReflinkEngine \<Rightarrow> store" where
  "view s = store_of (idx_get s) (node_at (disk s))"

datatype op = CreateVolume string u64 | DeleteVolume string | ResizeVolume string u64
  | CreateSnapshot string string | DeleteSnapshot string | ResetNodeStorage

text \<open>The specification: the new store, or \<open>None\<close> when the operation is refused. A file
  cannot be made \<open>2 ^ 63\<close> bytes or longer; resizing to the length a volume has is always
  accepted.\<close>

fun spec_step :: "store \<Rightarrow> op \<Rightarrow> store option" where
  "spec_step a (CreateVolume n sz) =
     (if name_ok n \<and> a n = None \<and> sz < 0x8000000000000000
      then Some (a(n \<mapsto> (Volume, replicate (unat sz) 0))) else None)"
| "spec_step a (DeleteVolume n) =
     (case a n of Some (Volume, _) \<Rightarrow> Some (a(n := None)) | _ \<Rightarrow> None)"
| "spec_step a (ResizeVolume n sz) =
     (case a n of Some (Volume, bs) \<Rightarrow>
        if length bs \<le> unat sz \<and> (length bs = unat sz \<or> sz < 0x8000000000000000)
        then Some (a(n \<mapsto> (Volume, bs @ replicate (unat sz - length bs) 0))) else None
      | _ \<Rightarrow> None)"
| "spec_step a (CreateSnapshot src n) =
     (case a src of None \<Rightarrow> None | Some (k, bs) \<Rightarrow>
        if name_ok n \<and> a n = None then Some (a(n \<mapsto> (Snapshot (home src k), bs))) else None)"
| "spec_step a (DeleteSnapshot n) =
     (case a n of Some (Snapshot _, _) \<Rightarrow> Some (a(n := None)) | _ \<Rightarrow> None)"
| "spec_step a ResetNodeStorage = Some Map.empty"

text \<open>The engine's operation: whether it returned \<open>Ok\<close>, and the new state.\<close>

fun engine_step :: "os \<Rightarrow> ReflinkEngine \<Rightarrow> op \<Rightarrow> bool \<times> ReflinkEngine" where
  "engine_step E s (CreateVolume n sz) = map_prod is_ok id (create_volume E s n sz)"
| "engine_step E s (DeleteVolume n) = map_prod is_ok id (delete_volume E s n)"
| "engine_step E s (ResizeVolume n sz) = map_prod is_ok id (resize_volume E s n sz)"
| "engine_step E s (CreateSnapshot src n) =
     map_prod is_ok id (create_snapshot E s src n)"
| "engine_step E s (DeleteSnapshot n) = map_prod is_ok id (delete_snapshot E s n)"
| "engine_step E s ResetNodeStorage = map_prod is_ok id (reset_node_storage E s)"

section \<open>Index facts\<close>

lemma validate_name_ok: "validate_name n kind = Inr u \<longleftrightarrow> name_ok n"
  by (auto simp: validate_name_def name_ok_def)

lemma validate_name_err: "validate_name n kind = Inl e \<Longrightarrow> \<not> name_ok n"
  by (auto simp: validate_name_def name_ok_def split: if_splits)

lemma name_ok_not_dotted: "name_ok n \<Longrightarrow> \<not> dotted n"
  by (cases n) (auto simp: name_ok_def dotted_def)

lemma idx_get_insert [simp]: "idx_get (idx_insert n k s) = (idx_get s)(n \<mapsto> k)"
  by (auto simp: idx_get_def idx_insert_def update_conv')

lemma idx_get_remove [simp]: "idx_get (idx_remove n s) = (idx_get s)(n := None)"
  by (auto simp: idx_get_def idx_remove_def delete_conv')

lemma idx_ops_frame [simp]:
  "disk (idx_insert n k s) = disk s" "disk (idx_remove n s) = disk s"
  "volumes_dir (idx_insert n k s) = volumes_dir s" "volumes_dir (idx_remove n s) = volumes_dir s"
  "metrics (idx_insert n k s) = metrics s" "metrics (idx_remove n s) = metrics s"
  by (simp_all add: idx_insert_def idx_remove_def)

lemma idx_get_other_fields [simp]:
  "idx_get (s\<lparr>disk := t\<rparr>) = idx_get s" "idx_get (s\<lparr>metrics := m\<rparr>) = idx_get s"
  "idx_get (s\<lparr>disk := t, metrics := m\<rparr>) = idx_get s"
  by (auto simp: idx_get_def)

lemma distinct_idx_insert [simp]:
  "distinct (map fst (name_index s)) \<Longrightarrow> distinct (map fst (name_index (idx_insert n k s)))"
  by (simp add: idx_insert_def distinct_update)

lemma distinct_idx_remove [simp]:
  "distinct (map fst (name_index s)) \<Longrightarrow> distinct (map fst (name_index (idx_remove n s)))"
  by (simp add: idx_remove_def distinct_delete)

lemma has_snapshots_of_iff:
  "distinct (map fst (name_index s)) \<Longrightarrow>
   has_snapshots_of (name_index s) v \<longleftrightarrow> (\<exists>n. idx_get s n = Some (Snapshot v))"
  by (fastforce simp: has_snapshots_of_def list_ex_iff idx_get_def split: NameKind.splits)

section \<open>Keeping the agreement\<close>

lemma agreeD:
  assumes "agree I N" and "I n = Some k"
  shows "name_ok n" "name_ok (home n k)"
    "\<exists>x. N (home n k) n = Some (NFile x) \<and> length (content x) < 2 ^ 64"
  using assms by (auto simp: agree_def)

lemma agree_owner: "agree I N \<Longrightarrow> N d n = Some y \<Longrightarrow> \<exists>k. I n = Some k \<and> home n k = d"
  by (auto simp: agree_def)

lemma agree_None: "agree I N \<Longrightarrow> I n = None \<Longrightarrow> N d n = None"
  by (cases "N d n") (auto dest: agree_owner)

lemma agree_insert:
  assumes "agree I N" "I n = None" "name_ok n" "name_ok (home n k)" "length (content x) < 2 ^ 64"
  shows "agree (I(n \<mapsto> k)) (\<lambda>d f. if d = home n k \<and> f = n then Some (NFile x) else N d f)"
  using assms agree_None [OF assms(1,2)] by (fastforce simp: agree_def)

lemma agree_remove:
  assumes "agree I N" "I n = Some k"
  shows "agree (I(n := None)) (\<lambda>d f. if d = home n k \<and> f = n then None else N d f)"
  using assms by (fastforce simp: agree_def)

lemma agree_rewrite:
  assumes "agree I N" "I n = Some k" "length (content x) < 2 ^ 64"
  shows "agree I (\<lambda>d f. if d = home n k \<and> f = n then Some (NFile x) else N d f)"
  using assms by (fastforce simp: agree_def)

lemma store_of_insert:
  assumes "agree I N" "I n = None"
  shows "store_of (I(n \<mapsto> k)) (\<lambda>d f. if d = home n k \<and> f = n then Some (NFile x) else N d f)
    = (store_of I N)(n \<mapsto> (k, content x))"
  by (rule ext) (auto simp: store_of_def split: option.splits)

lemma store_of_remove:
  "store_of (I(n := None)) (\<lambda>d f. if d = h \<and> f = n then None else N d f) = (store_of I N)(n := None)"
  by (rule ext) (auto simp: store_of_def split: option.splits)

lemma store_of_rewrite:
  assumes "I n = Some k"
  shows "store_of I (\<lambda>d f. if d = home n k \<and> f = n then Some (NFile x) else N d f)
    = (store_of I N)(n \<mapsto> (k, content x))"
  using assms by (intro ext) (auto simp: store_of_def split: option.splits)

lemma view_Some:
  assumes "engine_ok s" "idx_get s n = Some k"
  shows "\<exists>x. node_at (disk s) (home n k) n = Some (NFile x) \<and> length (content x) < 2 ^ 64 \<and>
    view s n = Some (k, content x)"
proof -
  from assms have "agree (idx_get s) (node_at (disk s))"
    by (simp add: engine_ok_def)
  from agreeD(3) [OF this assms(2)] obtain x
    where "node_at (disk s) (home n k) n = Some (NFile x)" "length (content x) < 2 ^ 64"
    by blast
  with assms(2) show ?thesis by (simp add: view_def store_of_def)
qed

lemma view_None [simp]: "idx_get s n = None \<Longrightarrow> view s n = None"
  by (simp add: view_def store_of_def)

lemma view_None_iff: "engine_ok s \<Longrightarrow> view s n = None \<longleftrightarrow> idx_get s n = None"
  using view_Some [of s n] by (cases "idx_get s n") auto

lemma ok_after_insert:
  assumes "engine_ok s" "idx_get s n = None" "name_ok n" "name_ok (home n k)"
    and "length (content x) < 2 ^ 64" "idx_get s' = (idx_get s)(n \<mapsto> k)"
    and "distinct (map fst (name_index s'))" "wf_fs (disk s')"
    and "\<forall>d. map_of (disk s') d \<noteq> Some EOther"
    and "node_at (disk s') =
      (\<lambda>d f. if d = home n k \<and> f = n then Some (NFile x) else node_at (disk s) d f)"
  shows "engine_ok s'" "view s' = (view s)(n \<mapsto> (k, content x))"
  using assms agree_insert [of "idx_get s" "node_at (disk s)" n k x]
    store_of_insert [of "idx_get s" "node_at (disk s)" n k x]
  by (simp_all add: engine_ok_def view_def)

lemma ok_after_remove:
  assumes "engine_ok s" "idx_get s n = Some k" "idx_get s' = (idx_get s)(n := None)"
    and "distinct (map fst (name_index s'))" "wf_fs (disk s')"
    and "\<forall>d. map_of (disk s') d \<noteq> Some EOther"
    and "node_at (disk s') =
      (\<lambda>d f. if d = home n k \<and> f = n then None else node_at (disk s) d f)"
  shows "engine_ok s'" "view s' = (view s)(n := None)"
  using assms agree_remove [of "idx_get s" "node_at (disk s)" n k]
  by (simp_all add: engine_ok_def view_def store_of_remove)

lemma ok_after_rewrite:
  assumes "engine_ok s" "idx_get s n = Some k" "length (content x) < 2 ^ 64"
    and "name_index s' = name_index s" "wf_fs (disk s')"
    and "\<forall>d. map_of (disk s') d \<noteq> Some EOther"
    and "node_at (disk s') =
      (\<lambda>d f. if d = home n k \<and> f = n then Some (NFile x) else node_at (disk s) d f)"
  shows "engine_ok s'" "view s' = (view s)(n \<mapsto> (k, content x))"
proof -
  have I: "idx_get s' = idx_get s" using assms(4) by (simp add: idx_get_def fun_eq_iff)
  show "engine_ok s'" "view s' = (view s)(n \<mapsto> (k, content x))"
    using assms I agree_rewrite [of "idx_get s" "node_at (disk s)" n k x]
      store_of_rewrite [where I = "idx_get s" and N = "node_at (disk s)" and n = n and k = k and x = x]
    by (simp_all add: engine_ok_def view_def)
qed

section \<open>Creating a volume\<close>

lemma project_volume_ok:
  assumes "no_faults E" "node_at (disk s) v v = Some y"
  shows "\<exists>vv. project_volume E s v = Inr vv"
  using assms node_at_SomeD [OF assms(2)]
  by (auto simp: project_volume_def fs_metadata_def count_snapshots_on_disk_def fs_read_dir_def
      split: node.splits option.splits)

lemma try_io_Inr [simp]: "try_io (Inr t) f s k = k (s\<lparr>disk := t\<rparr>)"
  by (simp add: try_io_def)

lemma try_io_Inl [simp]: "try_io (Inl e) f s k = (Inl (f e), s)"
  by (simp add: try_io_def)

lemma sync_step_Inr [simp]: "sync_step (Inr u) s k = k s"
  by (simp add: sync_step_def)

text \<open>Without faults, \<open>cv_build\<close> on a fresh name ends with exactly the main file added.\<close>

lemma cv_build_ok:
  assumes E: "no_faults E" and wf: "wf_fs (disk s)"
    and stray: "\<forall>d. map_of (disk s) d \<noteq> Some EOther"
    and fresh: "node_at (disk s) n n = None" and small: "sz < 0x8000000000000000"
  obtains vv t where "cv_build E s n sz = (Inr vv, s\<lparr>disk := t,
        metrics := metrics_inc (metrics s) METRIC_VOLUME_COUNT\<rparr>)"
    and "node_at t = (\<lambda>d f. if d = n \<and> f = n
        then Some (NFile \<lparr>content = resize_bytes sz [], mtime = clock E\<rparr>)
        else node_at (disk s) d f)"
    and "wf_fs t" "\<forall>d. map_of t d \<noteq> Some EOther"
proof -
  have "is_ok (fs_create_dir_all E (disk s) n)"
    using E stray by (simp add: fs_create_dir_all_def split: option.splits dentry.splits)
  then obtain t1 where t1: "fs_create_dir_all E (disk s) n = Inr t1"
    by (auto simp: is_ok_iff)
  note mk = fs_create_dir_all_ok [OF t1]
  let ?t2 = "put_node t1 n n (NFile \<lparr>content = [], mtime = clock E\<rparr>)"
  let ?x = "\<lparr>content = resize_bytes sz [], mtime = clock E\<rparr>"
  let ?t3 = "put_node ?t2 n n (NFile ?x)"
  obtain ns where ns: "dir_at t1 n = Some ns" using mk(2) by auto
  have n1: "node_at t1 n n = None" using mk(1) fresh by simp
  have t2: "fs_open_new E t1 n n = Inr ?t2"
    using E ns n1 by (simp add: fs_open_new_def node_at_def)
  have t3: "fs_set_len E ?t2 n n sz = Inr ?t3"
    using E mk(2) small by (simp add: fs_set_len_def not_le)
  have t4: "fs_sync_all E ?t3 n n = Inr ?t3"
    using E by (simp add: fs_sync_all_def)
  have d3: "dir_at ?t3 n \<noteq> None" using mk(2) by simp
  have t5: "fsync_dir E ?t3 (vol_dir n) = Inr ()" "fsync_dir E ?t3 PRoot = Inr ()"
    using E d3 by (auto simp: fsync_dir_def vol_dir_def dir_at_def split: option.splits)
  let ?s' = "s\<lparr>disk := ?t3, metrics := metrics_inc (metrics s) METRIC_VOLUME_COUNT\<rparr>"
  have N: "node_at ?t3 = (\<lambda>d f. if d = n \<and> f = n then Some (NFile ?x) else node_at (disk s) d f)"
    using mk(1,2) by (auto simp: fun_eq_iff)
  obtain vv where vv: "project_volume E ?s' n = Inr vv"
    using project_volume_ok [OF E, of ?s' n] N by auto
  have "cv_build E s n sz = (Inr vv, ?s')"
    using vv by (simp add: cv_build_def t1 t2 t3 t4 t5)
  moreover have "wf_fs ?t3" using wf mk(5) by simp
  moreover have "\<forall>d. map_of ?t3 d \<noteq> Some EOther" using stray mk(6) by simp
  ultimately show ?thesis using N that by blast
qed

lemma create_volume_ok:
  assumes E: "no_faults E" and ok: "engine_ok s" and n: "name_ok n" "idx_get s n = None"
    and small: "sz < 0x8000000000000000"
  shows "\<exists>vv s'. create_volume E s n sz = (Inr vv, s') \<and> engine_ok s' \<and>
    view s' = (view s)(n \<mapsto> (Volume, replicate (unat sz) 0))"
proof -
  let ?s1 = "idx_insert n Volume s"
  have v: "validate_name n ''volume'' = Inr ()" using n by (simp add: validate_name_ok)
  have r: "cv_reserve s n = (Inr (), ?s1)" using n by (simp add: cv_reserve_def)
  from ok have fresh: "node_at (disk s) n n = None"
    using n agree_None by (auto simp: engine_ok_def)
  obtain vv t where b: "cv_build E ?s1 n sz = (Inr vv, ?s1\<lparr>disk := t,
        metrics := metrics_inc (metrics ?s1) METRIC_VOLUME_COUNT\<rparr>)"
    and t: "node_at t = (\<lambda>d f. if d = n \<and> f = n
        then Some (NFile \<lparr>content = resize_bytes sz [], mtime = clock E\<rparr>)
        else node_at (disk ?s1) d f)" "wf_fs t" "\<forall>d. map_of t d \<noteq> Some EOther"
    by (rule cv_build_ok [OF E, of ?s1 n sz]) (use ok fresh small in \<open>auto simp: engine_ok_def\<close>)
  let ?s' = "?s1\<lparr>disk := t, metrics := metrics_inc (metrics ?s1) METRIC_VOLUME_COUNT\<rparr>"
  have "create_volume E s n sz = (Inr vv, ?s')"
    by (simp add: create_volume_def v r b)
  moreover have "engine_ok ?s'" "view ?s' = (view s)(n \<mapsto> (Volume, resize_bytes sz []))"
    using ok_after_insert [OF ok n(2,1), of Volume
        "\<lparr>content = resize_bytes sz [], mtime = clock E\<rparr>" ?s'] n t [unfolded idx_ops_frame] ok
    by (simp_all add: engine_ok_def)
  ultimately show ?thesis by (auto simp: resize_bytes_def)
qed

lemma create_volume_refused:
  assumes "\<not> (name_ok n \<and> idx_get s n = None)"
  shows "\<exists>e. create_volume E s n sz = (Inl e, s)"
proof (cases "validate_name n ''volume''")
  case (Inr u)
  then have "idx_get s n \<noteq> None" using assms by (auto simp: validate_name_ok)
  with Inr show ?thesis by (auto simp: create_volume_def cv_reserve_def)
qed (simp add: create_volume_def)

section \<open>Deleting a volume\<close>

lemma stray_delete [simp]:
  "\<forall>d. map_of t d \<noteq> Some EOther \<Longrightarrow> map_of (AList.delete x t) d \<noteq> Some EOther"
  by (simp add: delete_conv')

lemma absent_ok_Inr [simp]: "absent_ok (Inr t') t = Inr t'"
  by (simp add: absent_ok_def)

lemma remove_file_present:
  "no_faults E \<Longrightarrow> node_at t d f = Some (NFile x) \<Longrightarrow> fs_remove_file E t d f = Inr (del_node t d f)"
  by (simp add: fs_remove_file_def)

text \<open>An emptied directory can be removed, and its removal changes no file.\<close>

lemma remove_dir_empty:
  assumes "no_faults E" "dir_at t d \<noteq> None" "\<forall>f. node_at t d f = None"
  shows "fs_remove_dir E t d = Inr (AList.delete d t)" "node_at (AList.delete d t) = node_at t"
proof -
  from assms(2) obtain ns where ns: "dir_at t d = Some ns" by auto
  then have [simp]: "ns = []" using dir_at_empty_iff assms(3) by auto
  show "fs_remove_dir E t d = Inr (AList.delete d t)"
    using assms(1) ns by (auto simp: fs_remove_dir_def dir_at_def split: option.splits dentry.splits)
  show "node_at (AList.delete d t) = node_at t"
    using assms(3) by (auto simp: fun_eq_iff)
qed

text \<open>Best-effort removal of a directory never changes a file.\<close>

lemma best_effort_remove_dir [simp]:
  "node_at (disk (best_effort (fs_remove_dir E (disk s) d) s)) = node_at (disk s)"
  "name_index (best_effort r s) = name_index s"
  "wf_fs (disk s) \<Longrightarrow> wf_fs (disk (best_effort (fs_remove_dir E (disk s) d) s))"
  "\<forall>d. map_of (disk s) d \<noteq> Some EOther \<Longrightarrow>
    map_of (disk (best_effort (fs_remove_dir E (disk s) d') s)) d'' \<noteq> Some EOther"
proof -
  show "node_at (disk (best_effort (fs_remove_dir E (disk s) d) s)) = node_at (disk s)"
    by (auto simp: best_effort_def fs_remove_dir_node_at split: sum.splits)
  show "name_index (best_effort r s) = name_index s"
    by (simp add: best_effort_def split: sum.splits)
  show "wf_fs (disk s) \<Longrightarrow> wf_fs (disk (best_effort (fs_remove_dir E (disk s) d) s))"
    by (auto simp: best_effort_def dest!: fs_remove_dir_ok(1) split: sum.splits)
  show "\<forall>d. map_of (disk s) d \<noteq> Some EOther \<Longrightarrow>
    map_of (disk (best_effort (fs_remove_dir E (disk s) d') s)) d'' \<noteq> Some EOther"
    by (auto simp: best_effort_def dest!: fs_remove_dir_ok(1) split: sum.splits)
qed

lemma engine_okD:
  assumes "engine_ok s"
  shows "distinct (map fst (name_index s))" "wf_fs (disk s)"
    "\<forall>d. map_of (disk s) d \<noteq> Some EOther" "agree (idx_get s) (node_at (disk s))"
  using assms by (simp_all add: engine_ok_def)

text \<open>A volume without live snapshots is alone in its directory.\<close>

lemma alone_in_dir:
  assumes "engine_ok s" "idx_get s n = Some Volume" "\<not> has_snapshots_of (name_index s) n"
  shows "f \<noteq> n \<Longrightarrow> node_at (disk s) n f = None"
proof (rule ccontr)
  assume "f \<noteq> n" "node_at (disk s) n f \<noteq> None"
  then obtain k where "idx_get s f = Some k" "home f k = n"
    using agree_owner [OF engine_okD(4) [OF assms(1)]] by blast
  with \<open>f \<noteq> n\<close> show False
    using assms(3) has_snapshots_of_iff [OF engine_okD(1) [OF assms(1)]] by (cases k) auto
qed

lemma delete_volume_ok:
  assumes E: "no_faults E" and ok: "engine_ok s" and n: "idx_get s n = Some Volume"
  shows "\<exists>s'. delete_volume E s n = (Inr (), s') \<and> engine_ok s' \<and> view s' = (view s)(n := None)"
proof -
  note okD = engine_okD [OF ok]
  obtain x where x: "node_at (disk s) n n = Some (NFile x)"
    using view_Some [OF ok n] by auto
  let ?t1 = "del_node (disk s) n n"
  have t1: "fs_remove_file E (disk s) n n = Inr ?t1"
    using E x by (rule remove_file_present)
  have d1: "dir_at ?t1 n \<noteq> None" using node_at_SomeD [OF x] by simp
  let ?live = "has_snapshots_of (name_index s) n"
  define t2 where "t2 = (if ?live then ?t1 else AList.delete n ?t1)"
  have rd: "\<not> ?live \<Longrightarrow> fs_remove_dir E ?t1 n = Inr (AList.delete n ?t1) \<and>
      node_at (AList.delete n ?t1) = node_at ?t1"
    using remove_dir_empty [OF E d1] alone_in_dir [OF ok n] by auto
  have N: "node_at t2 = (\<lambda>d f. if d = n \<and> f = n then None else node_at (disk s) d f)"
    using rd by (auto simp: fun_eq_iff t2_def)
  have W: "wf_fs t2" "\<forall>d. map_of t2 d \<noteq> Some EOther"
    using okD by (auto simp: t2_def)
  let ?s2 = "idx_remove n (s\<lparr>disk := t2\<rparr>)"
  let ?s' = "?s2\<lparr>metrics := metrics_dec (metrics ?s2) METRIC_VOLUME_COUNT\<rparr>"
  have "delete_volume E s n = (Inr (), ?s')"
    using n rd by (cases ?live) (simp_all add: delete_volume_def t1 t2_def)
  moreover have "engine_ok ?s'" "view ?s' = (view s)(n := None)"
    using ok_after_remove [OF ok n, of ?s'] okD N W by simp_all
  ultimately show ?thesis by blast
qed

lemma delete_volume_refused:
  "idx_get s n \<noteq> Some Volume \<Longrightarrow> \<exists>e. delete_volume E s n = (Inl e, s)"
  by (auto simp: delete_volume_def split: option.splits NameKind.splits)

section \<open>A volume that is too large\<close>

text \<open>A size that the file system refuses: what was built is removed again.\<close>

lemma cv_rollback_ok:
  assumes E: "no_faults E" and x: "node_at (disk s) n n = Some (NFile x)"
    and t: "wf_fs (disk s)" "\<forall>d. map_of (disk s) d \<noteq> Some EOther"
  shows "node_at (disk (cv_rollback E s n)) = (\<lambda>d f. if d = n \<and> f = n then None else node_at (disk s) d f)"
    "wf_fs (disk (cv_rollback E s n))" "\<forall>d. map_of (disk (cv_rollback E s n)) d \<noteq> Some EOther"
    "name_index (cv_rollback E s n) = name_index (idx_remove n s)"
proof -
  let ?s2 = "(idx_remove n s)\<lparr>disk := del_node (disk s) n n\<rparr>"
  have r: "cv_rollback E s n = best_effort (fs_remove_dir E (disk ?s2) n) ?s2"
    using remove_file_present [OF E x]
    by (simp add: cv_rollback_def Let_def best_effort_def [of "Inr t" for t])
  show "node_at (disk (cv_rollback E s n)) = (\<lambda>d f. if d = n \<and> f = n then None else node_at (disk s) d f)"
    using t(1) unfolding r best_effort_remove_dir(1) by (auto simp: fun_eq_iff)
  show "wf_fs (disk (cv_rollback E s n))" using t(1) unfolding r by (intro best_effort_remove_dir(3)) simp
  show "\<forall>d. map_of (disk (cv_rollback E s n)) d \<noteq> Some EOther"
    using t(2) unfolding r by (intro allI best_effort_remove_dir(4)) simp
  show "name_index (cv_rollback E s n) = name_index (idx_remove n s)"
    by (simp add: r best_effort_def split: sum.splits)
qed

lemma create_volume_too_large:
  assumes E: "no_faults E" and ok: "engine_ok s" and n: "name_ok n" "idx_get s n = None"
    and large: "0x8000000000000000 \<le> sz"
  shows "\<exists>e s'. create_volume E s n sz = (Inl e, s') \<and> engine_ok s' \<and> view s' = view s"
proof -
  let ?s1 = "idx_insert n Volume s"
  note okD = engine_okD [OF ok]
  have "is_ok (fs_create_dir_all E (disk ?s1) n)"
    using E okD(3) by (simp add: fs_create_dir_all_def split: option.splits dentry.splits)
  then obtain t1 where t1: "fs_create_dir_all E (disk ?s1) n = Inr t1" by (auto simp: is_ok_iff)
  note mk = fs_create_dir_all_ok [OF t1]
  let ?x = "\<lparr>content = [], mtime = clock E\<rparr>"
  let ?s2 = "?s1\<lparr>disk := put_node t1 n n (NFile ?x)\<rparr>"
  have fresh: "node_at (disk s) n n = None" using ok n agree_None by (auto simp: engine_ok_def)
  have "node_at t1 n n = None" using mk(1) fresh by simp
  then have t2: "fs_open_new E t1 n n = Inr (disk ?s2)"
    using E mk(2) by (auto simp: fs_open_new_def node_at_def)
  have "cv_build E ?s1 n sz = (Inl (IoError (IoOther EINVAL)), ?s2)"
    using large t1 t2 by (simp add: cv_build_def fs_set_len_def)
  moreover have "validate_name n ''volume'' = Inr ()" "cv_reserve s n = (Inr (), ?s1)"
    using n by (simp_all add: validate_name_ok cv_reserve_def)
  ultimately have c: "create_volume E s n sz = (Inl (IoError (IoOther EINVAL)), cv_rollback E ?s2 n)"
    by (simp add: create_volume_def)
  have N: "node_at (disk ?s2) = (\<lambda>d f. if d = n \<and> f = n then Some (NFile ?x) else node_at (disk s) d f)"
    using mk(1,2) by (auto simp: fun_eq_iff)
  have "wf_fs (disk ?s2)" "\<forall>d. map_of (disk ?s2) d \<noteq> Some EOther" using okD mk(5,6) by simp_all
  note r = cv_rollback_ok [OF E _ this, of n ?x, unfolded N]
  let ?s' = "cv_rollback E ?s2 n"
  have "node_at (disk ?s') = node_at (disk s)" using r(1) fresh by (auto simp: fun_eq_iff)
  moreover have "idx_get ?s' = idx_get (idx_remove n ?s2)" by (simp add: idx_get_def [abs_def] r(4))
  then have "idx_get ?s' = idx_get s" using n(2) by auto
  moreover have "distinct (map fst (name_index ?s'))" using okD(1) by (simp add: r(4))
  ultimately show ?thesis using c ok r(2,3) by (auto simp: engine_ok_def view_def)
qed

section \<open>Resizing a volume\<close>

lemma fs_metadata_present:
  "no_faults E \<Longrightarrow> node_at t d f = Some (NFile x) \<Longrightarrow>
   fs_metadata E t d f = Inr (of_nat (length (content x)), mtime x)"
  by (simp add: fs_metadata_def)

lemma resize_volume_cases:
  assumes E: "no_faults E" and ok: "engine_ok s" and n: "idx_get s n = Some Volume"
    and v: "view s n = Some (Volume, bs)"
  shows "unat sz < length bs \<Longrightarrow> \<exists>e. resize_volume E s n sz = (Inl e, s)"
    and "length bs < unat sz \<Longrightarrow> 0x8000000000000000 \<le> sz \<Longrightarrow> \<exists>e. resize_volume E s n sz = (Inl e, s)"
    and "length bs \<le> unat sz \<Longrightarrow> length bs = unat sz \<or> sz < 0x8000000000000000 \<Longrightarrow>
      \<exists>s'. resize_volume E s n sz = (Inr (of_nat (length bs), sz), s') \<and>
      engine_ok s' \<and> view s' = (view s)(n \<mapsto> (Volume, bs @ replicate (unat sz - length bs) 0))"
proof -
  note okD = engine_okD [OF ok]
  obtain x where x: "node_at (disk s) n n = Some (NFile x)" "length (content x) < 2 ^ 64"
    and bs: "bs = content x"
    using view_Some [OF ok n] v by auto
  let ?old = "of_nat (length bs) :: u64"
  have old: "unat ?old = length bs"
    using x(2) bs by (simp add: unat_of_nat)
  have md: "fs_metadata E (disk s) n n = Inr (?old, mtime x)"
    using fs_metadata_present [OF E x(1)] bs by simp
  show "\<exists>e. resize_volume E s n sz = (Inl e, s)" if "unat sz < length bs"
    using that old n md by (simp add: resize_volume_def word_less_nat_alt)
  show "\<exists>e. resize_volume E s n sz = (Inl e, s)" if "length bs < unat sz" "0x8000000000000000 \<le> sz"
  proof -
    have "sz \<noteq> ?old" "\<not> sz < ?old" using that(1) old by (auto simp: word_less_nat_alt)
    then show ?thesis
      using that(2) E n md x(1) by (simp add: resize_volume_def fs_open_def fs_set_len_def)
  qed
  show "\<exists>s'. resize_volume E s n sz = (Inr (?old, sz), s') \<and> engine_ok s' \<and>
      view s' = (view s)(n \<mapsto> (Volume, bs @ replicate (unat sz - length bs) 0))"
    if le: "length bs \<le> unat sz" and small: "length bs = unat sz \<or> sz < 0x8000000000000000"
  proof (cases "sz = ?old")
    case True
    then have "resize_volume E s n sz = (Inr (?old, sz), s)"
      using n md by (simp add: resize_volume_def)
    moreover have "(view s)(n \<mapsto> (Volume, bs @ replicate (unat sz - length bs) 0)) = view s"
      using True old v by auto
    ultimately show ?thesis using ok by auto
  next
    case False
    let ?y = "x\<lparr>content := resize_bytes sz (content x), mtime := clock E\<rparr>"
    let ?t = "put_node (disk s) n n (NFile ?y)"
    let ?s' = "s\<lparr>disk := ?t\<rparr>"
    have "\<not> sz < ?old" using le old by (simp add: word_less_nat_alt)
    moreover have "\<not> 0x8000000000000000 \<le> sz" using small False old by (auto simp: word_unat_eq_iff)
    ultimately have "resize_volume E s n sz = (Inr (?old, sz), ?s')"
      using False n md E x(1)
      by (simp add: resize_volume_def fs_open_def fs_set_len_def fs_sync_all_def)
    moreover have "content ?y = bs @ replicate (unat sz - length bs) 0"
      using le bs by (simp add: resize_bytes_def)
    moreover have "engine_ok ?s'" "view ?s' = (view s)(n \<mapsto> (Volume, content ?y))"
      using ok_after_rewrite [OF ok n, of ?y ?s'] okD node_at_SomeD [OF x(1)]
      by (simp_all add: fun_eq_iff)
    ultimately show ?thesis by auto
  qed
qed

lemma resize_volume_refused:
  "idx_get s n \<noteq> Some Volume \<Longrightarrow> \<exists>e. resize_volume E s n sz = (Inl e, s)"
  by (auto simp: resize_volume_def split: option.splits NameKind.splits)

section \<open>Snapshots\<close>

lemma project_snapshot_ok:
  assumes "no_faults E" "idx_get s n = Some (Snapshot ov)" "node_at (disk s) ov n = Some y"
  shows "\<exists>sv. project_snapshot E s n = Inr sv"
  using assms by (auto simp: project_snapshot_def fs_metadata_def split: node.splits)

text \<open>Without faults, \<open>ficlone\<close> onto a fresh name adds a copy of the source.\<close>

lemma ficlone_ok:
  assumes E: "no_faults E" and d: "dir_at t d \<noteq> None" and fresh: "node_at t d f = None"
  obtains t' where "ficlone E t src d f = (Inr (), t')"
    and "node_at t' = (\<lambda>d' f'. if d' = d \<and> f' = f
      then Some (NFile \<lparr>content = content src, mtime = clock E\<rparr>) else node_at t d' f')"
    and "wf_fs t \<Longrightarrow> wf_fs t'"
    and "\<forall>d. map_of t d \<noteq> Some EOther \<Longrightarrow> \<forall>d. map_of t' d \<noteq> Some EOther"
proof -
  let ?t1 = "put_node t d f (NFile \<lparr>content = [], mtime = clock E\<rparr>)"
  let ?t2 = "put_node ?t1 d f (NFile \<lparr>content = content src, mtime = clock E\<rparr>)"
  have "fs_open_new E t d f = Inr ?t1"
    using E d fresh by (auto simp: fs_open_new_def node_at_def)
  then have "ficlone E t src d f = (Inr (), ?t2)"
    using E by (simp add: ficlone_def)
  then show ?thesis using that [of ?t2] d by (auto simp: fun_eq_iff)
qed

lemma create_snapshot_ok:
  assumes E: "no_faults E" and ok: "engine_ok s" and src: "view s src = Some (k, bs)"
    and n: "name_ok n" "idx_get s n = None"
  shows "\<exists>sv s'. create_snapshot E s src n = (Inr sv, s') \<and> engine_ok s' \<and>
    view s' = (view s)(n \<mapsto> (Snapshot (home src k), bs))"
proof -
  note okD = engine_okD [OF ok]
  have k: "idx_get s src = Some k" using src by (simp add: view_def store_of_def split: option.splits node.splits)
  let ?h = "home src k"
  obtain x where x: "node_at (disk s) ?h src = Some (NFile x)" "length (content x) < 2 ^ 64" "content x = bs"
    using view_Some [OF ok k] src by auto
  let ?s1 = "idx_insert n (Snapshot ?h) s"
  have v: "validate_name n ''snapshot'' = Inr ()" using n by (simp add: validate_name_ok)
  have r: "cs_resolve s src = Inr (?h, ?h)" using k by (cases k) (simp_all add: cs_resolve_def)
  have rv: "cs_reserve s ?h n = (Inr (), ?s1)" using n by (simp add: cs_reserve_def)
  have op: "fs_open OpenRead E (disk s) ?h src = Inr x" using E x by (simp add: fs_open_def)
  obtain t where t: "ficlone E (disk s) x ?h n = (Inr (), t)"
    "node_at t = (\<lambda>d f. if d = ?h \<and> f = n
      then Some (NFile \<lparr>content = content x, mtime = clock E\<rparr>) else node_at (disk s) d f)"
    "wf_fs t" "\<forall>d. map_of t d \<noteq> Some EOther"
    using ficlone_ok [OF E node_at_SomeD [OF x(1)] agree_None [OF okD(4) n(2)]] okD(2,3) by blast
  let ?s2 = "?s1\<lparr>disk := t, metrics := metrics_inc (metrics ?s1) METRIC_SNAPSHOT_COUNT\<rparr>"
  obtain sv where sv: "project_snapshot E ?s2 n = Inr sv"
    using project_snapshot_ok [OF E, of ?s2 n ?h] t(2) by auto
  have "cs_build E ?s1 ?h src ?h n = (Inr sv, ?s2)"
    using sv by (simp add: cs_build_def op t(1))
  then have "create_snapshot E s src n = (Inr sv, ?s2)"
    by (simp add: create_snapshot_def v r rv)
  moreover have "engine_ok ?s2" "view ?s2 = (view s)(n \<mapsto> (Snapshot ?h, content x))"
    using ok_after_insert [OF ok n(2,1), of "Snapshot ?h"
        "\<lparr>content = content x, mtime = clock E\<rparr>" ?s2] okD t x(2) agreeD(2) [OF okD(4) k]
    by simp_all
  ultimately show ?thesis using x(3) by auto
qed

lemma create_snapshot_refused:
  assumes "engine_ok s" "view s src = None \<or> \<not> name_ok n \<or> idx_get s n \<noteq> None"
  shows "\<exists>e. create_snapshot E s src n = (Inl e, s)"
proof (cases "validate_name n ''snapshot''")
  case (Inr u)
  then have "idx_get s src = None \<or> idx_get s n \<noteq> None"
    using assms by (auto simp: validate_name_ok view_None_iff)
  with Inr show ?thesis
    by (auto simp: create_snapshot_def cs_resolve_def cs_reserve_def
        split: option.splits NameKind.splits)
qed (simp add: create_snapshot_def)

lemma delete_snapshot_ok:
  assumes E: "no_faults E" and ok: "engine_ok s" and n: "idx_get s n = Some (Snapshot ov)"
  shows "\<exists>s'. delete_snapshot E s n = (Inr (), s') \<and> engine_ok s' \<and> view s' = (view s)(n := None)"
proof -
  note okD = engine_okD [OF ok]
  obtain x where x: "node_at (disk s) ov n = Some (NFile x)"
    using view_Some [OF ok n] by auto
  let ?s1 = "s\<lparr>disk := del_node (disk s) ov n\<rparr>"
  define s3 where "s3 = (idx_remove n ?s1)
    \<lparr>metrics := metrics_dec (metrics (idx_remove n ?s1)) METRIC_SNAPSHOT_COUNT\<rparr>"
  let ?reap = "\<not> (idx_get s3 ov \<noteq> None) \<and> \<not> has_snapshots_of (name_index s3) ov"
  let ?s' = "if ?reap then best_effort (fs_remove_dir E (disk s3) ov) s3 else s3"
  have s3: "idx_get s3 = (idx_get s)(n := None)" "distinct (map fst (name_index s3))"
    "wf_fs (disk s3)" "\<forall>d. map_of (disk s3) d \<noteq> Some EOther"
    "node_at (disk s3) = (\<lambda>d f. if d = ov \<and> f = n then None else node_at (disk s) d f)"
    using okD by (simp_all add: s3_def fun_eq_iff)
  have "delete_snapshot E s n = (Inr (), ?s')"
    using n by (simp add: delete_snapshot_def remove_file_present [OF E x] s3_def Let_def)
  moreover have I: "idx_get ?s' = idx_get s3"
    by (auto simp: idx_get_def fun_eq_iff)
  have "engine_ok ?s' \<and> view ?s' = (view s)(n := None)"
    using ok_after_remove [OF ok n, of ?s'] s3 I by auto
  ultimately show ?thesis by blast
qed

lemma delete_snapshot_refused:
  "(\<forall>ov. idx_get s n \<noteq> Some (Snapshot ov)) \<Longrightarrow> \<exists>e. delete_snapshot E s n = (Inl e, s)"
  by (auto simp: delete_snapshot_def split: option.splits NameKind.splits)

section \<open>Reset\<close>

lemma reset_dirs_ok:
  assumes "no_faults E" "wf_fs t" "\<forall>d. map_of t d \<noteq> Some EOther"
  shows "\<exists>t'. reset_dirs E t ds = (Inr (), t') \<and> wf_fs t' \<and>
    (\<forall>d. map_of t' d = (if d \<in> set ds then None else map_of t d))"
  using assms(2,3)
proof (induction ds arbitrary: t)
  case Nil
  then show ?case by simp
next
  case (Cons d ds)
  show ?case
  proof (cases "map_of t d")
    case None
    then have "fs_remove_dir_all E t d = (Inl IoNotFound, t)"
      using assms(1) by (simp add: fs_remove_dir_all_def)
    then show ?thesis using Cons.IH [OF Cons.prems] None by fastforce
  next
    case (Some de)
    then have "fs_remove_dir_all E t d = (Inr (), AList.delete d t)"
      using assms(1) Cons.prems(2) by (cases de) (auto simp: fs_remove_dir_all_def)
    moreover have "wf_fs (AList.delete d t)" "\<forall>d'. map_of (AList.delete d t) d' \<noteq> Some EOther"
      using Cons.prems by auto
    ultimately show ?thesis using Cons.IH [of "AList.delete d t"] by (fastforce simp: delete_conv')
  qed
qed

lemma reset_node_storage_ok:
  assumes E: "no_faults E" and ok: "engine_ok s"
  shows "\<exists>s'. reset_node_storage E s = (Inr (), s') \<and> engine_ok s' \<and> view s' = Map.empty"
proof -
  note okD = engine_okD [OF ok]
  let ?ds = "map fst (filter (\<lambda>(_, de). de \<noteq> EOther) (disk s))"
  obtain t where t: "reset_dirs E (disk s) ?ds = (Inr (), t)" "wf_fs t"
    "\<forall>d. map_of t d = (if d \<in> set ?ds then None else map_of (disk s) d)"
    using reset_dirs_ok [OF E okD(2,3), of ?ds] by blast
  have all: "map_of t d = None" for d
  proof (cases "map_of (disk s) d")
    case None
    then show ?thesis using t(3) by simp
  next
    case (Some de)
    then have "d \<in> set ?ds" using okD(3) by (force dest: map_of_SomeD)
    then show ?thesis using t(3) by simp
  qed
  then have N: "node_at t d f = None" for d f
    by (simp add: node_at_def dir_at_def)
  let ?s' = "s\<lparr>disk := t, name_index := [],
     metrics := metrics_set (metrics_set (metrics s) METRIC_VOLUME_COUNT 0) METRIC_SNAPSHOT_COUNT 0\<rparr>"
  have "reset_node_storage E s = (Inr (), ?s')"
    using E t(1) by (simp add: reset_node_storage_def fs_read_root_def)
  moreover have "idx_get ?s' n = None" for n by (simp add: idx_get_def)
  then have "engine_ok ?s'" "view ?s' = Map.empty"
    using t(2) N all by (auto simp: engine_ok_def agree_def view_def store_of_def)
  ultimately show ?thesis by blast
qed

section \<open>Every operation\<close>

text \<open>One lemma per operation, gathered: either the specification refuses and the store is
  unchanged, or the engine succeeds and its store is the specification's.\<close>

lemma engine_step_simulates:
  assumes E: "no_faults E" and ok: "engine_ok s"
  shows "\<exists>s'. engine_step E s c = (spec_step (view s) c \<noteq> None, s') \<and> engine_ok s' \<and>
    (case spec_step (view s) c of Some a \<Rightarrow> view s' = a | None \<Rightarrow> view s' = view s)"
proof (cases c)
  case (CreateVolume n sz)
  show ?thesis
  proof (cases "name_ok n \<and> idx_get s n = None")
    case True
    then show ?thesis
      using create_volume_ok [OF E ok, of n sz] create_volume_too_large [OF E ok, of n sz] CreateVolume ok
      by (cases "sz < 0x8000000000000000") (auto simp: view_None_iff not_less)
  next
    case False
    then show ?thesis
      using create_volume_refused [of n s E sz] CreateVolume ok by (auto simp: view_None_iff)
  qed
next
  case (DeleteVolume n)
  show ?thesis
  proof (cases "idx_get s n = Some Volume")
    case True
    then show ?thesis using delete_volume_ok [OF E ok True] view_Some [OF ok True] DeleteVolume by auto
  next
    case False
    then show ?thesis using delete_volume_refused [OF False, of E] DeleteVolume ok
      view_Some [OF ok, of n] by (cases "idx_get s n") (auto split: NameKind.splits)
  qed
next
  case (ResizeVolume n sz)
  show ?thesis
  proof (cases "idx_get s n = Some Volume")
    case True
    then obtain bs where v: "view s n = Some (Volume, bs)" using view_Some [OF ok True] by auto
    show ?thesis using resize_volume_cases [OF E ok True v, of sz] v ResizeVolume ok
      by (cases "length bs \<le> unat sz"; cases "length bs = unat sz"; cases "sz < 0x8000000000000000")
        (auto simp: not_less)
  next
    case False
    then show ?thesis using resize_volume_refused [OF False, of E sz] ResizeVolume ok
      view_Some [OF ok, of n] by (cases "idx_get s n") (auto split: NameKind.splits)
  qed
next
  case (CreateSnapshot src n)
  show ?thesis
  proof (cases "view s src")
    case None
    then show ?thesis using create_snapshot_refused [OF ok, of src n E] CreateSnapshot ok by auto
  next
    case (Some kb)
    then obtain k bs where v: "view s src = Some (k, bs)" by (cases kb) auto
    show ?thesis
      using create_snapshot_ok [OF E ok v, of n] create_snapshot_refused [OF ok, of src n E]
        v CreateSnapshot ok
      by (cases "name_ok n \<and> idx_get s n = None") (auto simp: view_None_iff)
  qed
next
  case (DeleteSnapshot n)
  show ?thesis
  proof (cases "\<exists>ov. idx_get s n = Some (Snapshot ov)")
    case True
    then obtain ov where i: "idx_get s n = Some (Snapshot ov)" ..
    show ?thesis using delete_snapshot_ok [OF E ok i] view_Some [OF ok i] DeleteSnapshot by auto
  next
    case False
    then show ?thesis using delete_snapshot_refused [of s n E] DeleteSnapshot ok
      view_Some [OF ok, of n] by (cases "idx_get s n") (auto split: NameKind.splits)
  qed
next
  case ResetNodeStorage
  then show ?thesis using reset_node_storage_ok [OF E ok] by auto
qed

section \<open>Runs\<close>

text \<open>A sequence of operations, each under its own operating-system behaviour.\<close>

definition engine_run :: "ReflinkEngine \<Rightarrow> (os \<times> op) list \<Rightarrow> bool list \<times> ReflinkEngine" where
  "engine_run = run_steps engine_step"

interpretation reflink: refines_spec engine_step "\<lambda>E _. no_faults E" engine_ok spec_step view
proof
  fix E s c
  assume "no_faults E" "engine_ok s"
  from engine_step_simulates [OF this, of c] obtain s' where
    s': "engine_step E s c = (spec_step (view s) c \<noteq> None, s')" "engine_ok s'"
    "case spec_step (view s) c of Some a \<Rightarrow> view s' = a | None \<Rightarrow> view s' = view s" by blast
  then show "engine_ok (snd (engine_step E s c))" by simp
  from s' show "fst (engine_step E s c) = (spec_step (view s) c \<noteq> None) \<and>
    view (snd (engine_step E s c)) = (case spec_step (view s) c of Some a \<Rightarrow> a | None \<Rightarrow> view s)"
    by (auto split: option.splits)
qed

definition quiet_os :: os where
  "quiet_os = \<lparr>fault = (\<lambda>_ _. None), removed = (\<lambda>_ _. False), clock = 0, rfc3339 = (\<lambda>_. ''t''), statvfs = Inl IoNotFound\<rparr>"

definition fresh_engine :: ReflinkEngine where
  "fresh_engine = \<lparr>volumes_dir = ''/r/volumes'', name_index = [], metrics = metrics_new, disk = []\<rparr>"

lemma quiet_os_no_faults [simp]: "no_faults quiet_os"
  by (simp add: quiet_os_def no_faults_def)

lemma fresh_engine_ok [simp]: "engine_ok fresh_engine"
  by (simp add: engine_ok_def fresh_engine_def wf_fs_def dir_at_def agree_def idx_get_def node_at_def)

lemma view_fresh_engine [simp]: "view fresh_engine = Map.empty"
  by (auto simp: view_def store_of_def fresh_engine_def idx_get_def)

text \<open>
  C1. The engine refines the store: over any sequence of operations whose calls do not
  fault, from any agreeing state, every operation succeeds exactly when the store's
  operation is enabled, the state agrees throughout, and the named byte strings at the end
  are those of the store.
\<close>

theorem reflink_refines_store:
  assumes "engine_ok s" and "\<forall>(E, c) \<in> set cs. no_faults E"
  shows "engine_ok (snd (engine_run s cs)) \<and>
    spec_run spec_step (view s) (map snd cs) =
      (fst (engine_run s cs), view (snd (engine_run s cs)))"
  using reflink.run_inv [OF assms(2,1)] reflink.run_refines [OF assms(2,1)]
  by (simp add: engine_run_def)

text \<open>C1, applied: a volume, a snapshot of it, a second snapshot from the first; the volume
  is deleted and both snapshots stay.\<close>

theorem reflink_refines_store_witness:
  "spec_run spec_step Map.empty [CreateVolume ''a'' 2, CreateSnapshot ''a'' ''s'', CreateSnapshot ''s'' ''r'',
      DeleteVolume ''a'', CreateVolume ''s'' 1] =
   (fst (engine_run fresh_engine (map (\<lambda>c. (quiet_os, c)) [CreateVolume ''a'' 2,
      CreateSnapshot ''a'' ''s'', CreateSnapshot ''s'' ''r'', DeleteVolume ''a'', CreateVolume ''s'' 1])),
    view (snd (engine_run fresh_engine (map (\<lambda>c. (quiet_os, c)) [CreateVolume ''a'' 2,
      CreateSnapshot ''a'' ''s'', CreateSnapshot ''s'' ''r'', DeleteVolume ''a'', CreateVolume ''s'' 1]))))
   \<and> fst (spec_run spec_step Map.empty [CreateVolume ''a'' 2, CreateSnapshot ''a'' ''s'',
      CreateSnapshot ''s'' ''r'', DeleteVolume ''a'', CreateVolume ''s'' 1])
      = [True, True, True, True, False]"
proof -
  let ?cs = "[CreateVolume ''a'' 2, CreateSnapshot ''a'' ''s'', CreateSnapshot ''s'' ''r'',
      DeleteVolume ''a'', CreateVolume ''s'' 1]"
  have "\<forall>(E, c) \<in> set (map (\<lambda>c. (quiet_os, c)) ?cs). no_faults E" by simp
  from reflink_refines_store [OF fresh_engine_ok this]
  have 1: "spec_run spec_step Map.empty ?cs = (fst (engine_run fresh_engine (map (\<lambda>c. (quiet_os, c)) ?cs)),
      view (snd (engine_run fresh_engine (map (\<lambda>c. (quiet_os, c)) ?cs))))"
    by (simp add: comp_def)
  have 2: "fst (spec_run spec_step Map.empty ?cs) = [True, True, True, True, False]"
    by (simp add: name_ok_def)
  show ?thesis using 1 2 by blast
qed

end
