(* ===== verification/Reflink_Safety.thy ===== *)
theory Reflink_Safety
  imports Reflink_Store
begin

text \<open>
  What holds of the reflink engine whatever calls fail: no operation touches the file of a
  name other than its own, a failed creation leaves the index as it was, and an
  interrupted deletion can be repeated. The frame property is stated once, as the
  interface a snapshot store offers its clients, and interpreted on the engine.
\<close>

section \<open>Frames of file calls\<close>

definition same_but :: "string \<Rightarrow> string \<Rightarrow> fs \<Rightarrow> fs \<Rightarrow> bool" where
  "same_but d f t t' \<longleftrightarrow> (\<forall>d' f'. (d', f') \<noteq> (d, f) \<longrightarrow> node_at t' d' f' = node_at t d' f')"

lemma same_but_refl [simp, intro]: "same_but d f t t"
  by (simp add: same_but_def)

lemma same_but_trans [trans]: "same_but d f t t' \<Longrightarrow> same_but d f t' t'' \<Longrightarrow> same_but d f t t''"
  by (simp add: same_but_def)

lemma same_but_put [simp, intro]: "same_but d f t (put_node t d f x)"
  by (auto simp: same_but_def put_node_def node_at_def update_conv' split: option.splits)

lemma same_but_del [simp, intro]: "same_but d f t (del_node t d f)"
  by (simp add: same_but_def)

lemma same_but_mkdir: "fs_create_dir_all E t d' = Inr t' \<Longrightarrow> same_but d f t t'"
  by (simp add: same_but_def fs_create_dir_all_ok(1))

lemma same_but_open_new: "fs_open_new E t d f = Inr t' \<Longrightarrow> same_but d f t t'"
  by (auto dest: fs_open_new_ok(1))

lemma same_but_set_len: "fs_set_len E t d f n = Inr t' \<Longrightarrow> same_but d f t t'"
  by (auto simp: fs_set_len_def split: if_splits option.splits node.splits)

lemma same_but_sync: "fs_sync_all E t d' f' = Inr t' \<Longrightarrow> same_but d f t t'"
  by (auto simp: fs_sync_all_def split: option.splits)

lemma same_but_unlink: "fs_remove_file E t d f = Inr t' \<Longrightarrow> same_but d f t t'"
  by (auto dest: fs_remove_file_ok(1))

lemma same_but_rmdir: "fs_remove_dir E t d' = Inr t' \<Longrightarrow> same_but d f t t'"
  by (simp add: same_but_def fs_remove_dir_node_at)

lemmas same_but_calls = same_but_mkdir same_but_open_new same_but_set_len same_but_sync
  same_but_unlink same_but_rmdir

lemma same_but_ficlone: "ficlone E t src d f = (r, t') \<Longrightarrow> same_but d f t t'"
  unfolding ficlone_def
  by (auto split: sum.splits option.splits dest!: same_but_open_new same_but_unlink
      intro: same_but_trans)

section \<open>Frames of operations\<close>

text \<open>A step inside an operation: the index stays, and only one file may change.\<close>

definition local_to :: "string \<Rightarrow> string \<Rightarrow> ReflinkEngine \<Rightarrow> ReflinkEngine \<Rightarrow> bool" where
  "local_to d f s s' \<longleftrightarrow> name_index s' = name_index s \<and> same_but d f (disk s) (disk s')"

lemma local_to_refl [simp, intro]: "local_to d f s s"
  by (simp add: local_to_def)

lemma local_to_trans: "local_to d f s s' \<Longrightarrow> local_to d f s' s'' \<Longrightarrow> local_to d f s s''"
  by (auto simp: local_to_def intro: same_but_trans)

lemma local_to_metrics [simp]: "local_to d f s (s'\<lparr>metrics := m\<rparr>) \<longleftrightarrow> local_to d f s s'"
  by (simp add: local_to_def)

lemma try_io_local:
  assumes "\<And>t. r = Inr t \<Longrightarrow> same_but d f (disk s) t"
    and "\<And>t. r = Inr t \<Longrightarrow> local_to d f (s\<lparr>disk := t\<rparr>) (snd (k (s\<lparr>disk := t\<rparr>)))"
  shows "local_to d f s (snd (try_io r g s k))"
proof (cases r)
  case (Inr t)
  have "local_to d f s (s\<lparr>disk := t\<rparr>)" using assms(1) Inr by (simp add: local_to_def)
  then show ?thesis using assms(2) Inr local_to_trans by fastforce
qed simp

lemma sync_step_local:
  assumes "local_to d f s (snd (k s))"
  shows "local_to d f s (snd (sync_step r s k))"
  using assms by (cases r) (simp_all add: sync_step_def)

lemma best_effort_local:
  "(\<And>t. r = Inr t \<Longrightarrow> same_but d f (disk s) t) \<Longrightarrow> local_to d f s (best_effort r s)"
  by (cases r) (simp_all add: best_effort_def local_to_def)

lemma cv_build_local: "local_to n n s (snd (cv_build E s n sz))"
  unfolding cv_build_def Let_def
  by (intro try_io_local sync_step_local) (auto dest: same_but_calls)

text \<open>What may happen to the rest of the state, whatever fails.\<close>

definition only_name :: "string \<Rightarrow> string \<Rightarrow> string \<Rightarrow> ReflinkEngine \<Rightarrow> ReflinkEngine \<Rightarrow> bool" where
  "only_name d f n s s' \<longleftrightarrow> same_but d f (disk s) (disk s') \<and>
     (\<forall>m. m \<noteq> n \<longrightarrow> idx_get s' m = idx_get s m)"

lemma only_name_refl [simp, intro]: "only_name d f n s s"
  by (simp add: only_name_def)

lemma local_only_name: "local_to d f s s' \<Longrightarrow> only_name d f n s s'"
  by (simp add: only_name_def local_to_def idx_get_def)

lemma only_name_trans: "only_name d f n s s' \<Longrightarrow> only_name d f n s' s'' \<Longrightarrow> only_name d f n s s''"
  by (auto simp: only_name_def intro: same_but_trans)

lemma only_name_insert [simp, intro]: "only_name d f n s (idx_insert n k s)"
  by (simp add: only_name_def)

lemma only_name_remove [simp, intro]: "only_name d f n s (idx_remove n s)"
  by (simp add: only_name_def)

lemma idx_get_best_effort [simp]: "idx_get (best_effort r s) = idx_get s"
  by (simp add: idx_get_def fun_eq_iff)

lemma cv_rollback_only: "only_name n n n s (cv_rollback E s n)"
  unfolding cv_rollback_def Let_def
  by (rule only_name_trans [OF only_name_trans [OF only_name_remove
        local_only_name [OF best_effort_local]] local_only_name [OF best_effort_local]])
    (auto dest: same_but_calls)

lemma create_volume_only: "only_name n n n s (snd (create_volume E s n sz))"
proof (cases "validate_name n ''volume''")
  case (Inr u)
  have 1: "only_name n n n s (snd (cv_build E (idx_insert n Volume s) n sz))"
    using only_name_trans [OF only_name_insert local_only_name [OF cv_build_local]] .
  show ?thesis
    using 1 only_name_trans [OF 1 cv_rollback_only] Inr
    by (auto simp: create_volume_def cv_reserve_def split: option.splits sum.splits prod.splits)
qed (simp add: create_volume_def)

lemma same_but_unlink_absent:
  "absent_ok (fs_remove_file E t d f) t = Inr t' \<Longrightarrow> same_but d f t t'"
  by (auto simp: absent_ok_def dest: same_but_unlink split: sum.splits io_error.splits)

lemma same_but_rmdir_absent:
  "absent_ok (fs_remove_dir E t d') t = Inr t' \<Longrightarrow> same_but d f t t'"
  by (auto simp: absent_ok_def dest: same_but_rmdir split: sum.splits io_error.splits)

lemma try_io_only:
  assumes "\<And>t. r = Inr t \<Longrightarrow> same_but d f (disk s) t"
    and "\<And>t. r = Inr t \<Longrightarrow> only_name d f n (s\<lparr>disk := t\<rparr>) (snd (k (s\<lparr>disk := t\<rparr>)))"
  shows "only_name d f n s (snd (try_io r g s k))"
proof (cases r)
  case (Inr t)
  have "only_name d f n s (s\<lparr>disk := t\<rparr>)" using assms(1) Inr by (simp add: only_name_def)
  from only_name_trans [OF this assms(2) [OF Inr]] Inr show ?thesis by simp
qed simp

lemma only_name_metrics [simp]: "only_name d f n s (s'\<lparr>metrics := m\<rparr>) \<longleftrightarrow> only_name d f n s s'"
  by (simp add: only_name_def)

lemma delete_volume_only: "only_name n n n s (snd (delete_volume E s n))"
proof (cases "idx_get s n = Some Volume")
  case True
  show ?thesis
    unfolding delete_volume_def Let_def True option.case NameKind.case
    by (intro try_io_only)
      (auto dest: same_but_unlink_absent same_but_rmdir_absent split: if_splits)
qed (use delete_volume_refused [of s n E] in auto)

lemma resize_volume_local: "local_to n n s (snd (resize_volume E s n sz))"
proof (cases "idx_get s n = Some Volume")
  case True
  have "local_to n n s (snd (try_io (fs_set_len E (disk s) n n sz) IoError s (\<lambda>s1.
      try_io (fs_sync_all E (disk s1) n n) IoError s1 (\<lambda>s2. (Inr (old, sz), s2)))))" for old :: u64
    by (intro try_io_local) (auto dest: same_but_calls)
  then show ?thesis using True by (simp add: resize_volume_def split: sum.splits)
qed (use resize_volume_refused [of s n E sz] in auto)

lemma cs_build_local: "local_to h n s (snd (cs_build E s d src h n))"
  unfolding cs_build_def
  by (auto simp: local_to_def Let_def dest!: same_but_ficlone
      split: sum.splits io_error.splits prod.splits)

lemma create_snapshot_only:
  assumes "idx_get s src = Some k"
  shows "only_name (home src k) n n s (snd (create_snapshot E s src n))"
proof (cases "validate_name n ''snapshot''")
  case (Inr u)
  let ?h = "home src k"
  have r: "cs_resolve s src = Inr (?h, ?h)"
    using assms by (cases k) (simp_all add: cs_resolve_def)
  have 1: "only_name ?h n n s (snd (cs_build E (idx_insert n (Snapshot ?h) s) ?h src ?h n))"
    using only_name_trans [OF only_name_insert local_only_name [OF cs_build_local]] .
  show ?thesis
    using 1 only_name_trans [OF 1 only_name_remove] Inr r
    by (auto simp: create_snapshot_def cs_reserve_def split: option.splits sum.splits prod.splits)
qed (simp add: create_snapshot_def)

lemma delete_snapshot_only:
  assumes "idx_get s n = Some (Snapshot ov)"
  shows "only_name ov n n s (snd (delete_snapshot E s n))"
proof -
  have 1: "only_name ov n n s1 ((idx_remove n s1)\<lparr>metrics := m\<rparr>)" for s1 m by simp
  have 2: "only_name ov n n s1 (best_effort (fs_remove_dir E (disk s1) ov) ((idx_remove n s1)\<lparr>metrics := m\<rparr>))"
    for s1 m
    by (rule only_name_trans [OF 1 local_only_name [OF best_effort_local]])
      (use same_but_rmdir in auto)
  show ?thesis
    unfolding delete_snapshot_def Let_def assms option.case NameKind.case
    by (intro try_io_only)
      (use 2 [of "s\<lparr>disk := t\<rparr>" for t] in \<open>auto dest: same_but_unlink_absent\<close>)
qed

section \<open>Isolation\<close>

lemma only_name_view: "only_name d m m s s' \<Longrightarrow> n \<noteq> m \<Longrightarrow> view s' n = view s n"
  by (simp add: only_name_def same_but_def view_def store_of_def cong: option.case_cong)

lemma create_snapshot_no_source:
  "idx_get s src = None \<Longrightarrow> \<exists>e. create_snapshot E s src n = (Inl e, s)"
  by (cases "validate_name n ''snapshot''") (simp_all add: create_snapshot_def cs_resolve_def)

lemma create_snapshot_taken:
  "idx_get s n = Some k \<Longrightarrow> \<exists>e. create_snapshot E s src n = (Inl e, s)"
  by (cases "validate_name n ''snapshot''")
    (auto simp: create_snapshot_def cs_resolve_def cs_reserve_def
      split: option.splits NameKind.splits)

text \<open>The only operations that may change what a name stands for.\<close>

fun may_touch :: "op \<Rightarrow> string \<Rightarrow> bool" where
  "may_touch (DeleteVolume m) n \<longleftrightarrow> m = n"
| "may_touch (DeleteSnapshot m) n \<longleftrightarrow> m = n"
| "may_touch (ResizeVolume m _) n \<longleftrightarrow> m = n"
| "may_touch ResetNodeStorage _ \<longleftrightarrow> True"
| "may_touch (CreateVolume _ _) _ \<longleftrightarrow> False"
| "may_touch (CreateSnapshot _ _) _ \<longleftrightarrow> False"

lemma engine_step_frame:
  assumes v: "view s n = Some v" and c: "\<not> may_touch c n"
  shows "view (snd (engine_step E s c)) n = Some v"
proof -
  obtain k where k: "idx_get s n = Some k" using v by (cases "idx_get s n") auto
  show ?thesis
  proof (cases c)
    case (CreateVolume m sz)
    then show ?thesis
      using v k only_name_view [OF create_volume_only, of n m E s sz]
        create_volume_refused [of n s E sz] by (cases "n = m") auto
  next
    case (DeleteVolume m)
    then show ?thesis using v c only_name_view [OF delete_volume_only, of n m E s] by auto
  next
    case (ResizeVolume m sz)
    then show ?thesis
      using v c only_name_view [OF local_only_name [OF resize_volume_local], of n m E s sz] by auto
  next
    case (CreateSnapshot src m)
    show ?thesis
    proof (cases "idx_get s src")
      case None
      then show ?thesis
        using create_snapshot_no_source [of s src E m] CreateSnapshot v by auto
    next
      case (Some k')
      then show ?thesis
        using v only_name_view [OF create_snapshot_only [OF Some], of n m E]
          create_snapshot_taken [OF k, of E src] CreateSnapshot by (cases "n = m") auto
    qed
  next
    case (DeleteSnapshot m)
    show ?thesis
    proof (cases "\<exists>ov. idx_get s m = Some (Snapshot ov)")
      case True
      then show ?thesis
        using v c DeleteSnapshot only_name_view [OF delete_snapshot_only, of s m _ n E] by auto
    next
      case False
      then show ?thesis using v DeleteSnapshot delete_snapshot_refused [of s m E] by auto
    qed
  qed (use c in simp)
qed

interpretation reflink_frame: framed_steps engine_step view may_touch
  by unfold_locales (rule engine_step_frame)

text \<open>
  C2. Isolation: a volume or snapshot that exists keeps its kind and its bytes through any
  sequence of operations that does not delete or resize that very name (or reset the node),
  from any state and whatever file-system calls fail on the way. In particular a snapshot
  survives the deletion and the resizing of its origin.
\<close>

theorem reflink_isolation:
  assumes "view s n = Some v" and "\<forall>(E, c) \<in> set cs. \<not> may_touch c n"
  shows "view (snd (engine_run s cs)) n = Some v"
  using reflink_frame.run_frame [OF assms] by (simp add: engine_run_def)

text \<open>C2, applied: the snapshot ''s'' of ''a'' keeps its bytes while ''a'' is resized and then
  deleted under an operating system that fails every fsync and every rmdir.\<close>

definition flaky_os :: os where
  "flaky_os = quiet_os\<lparr>fault := (\<lambda>c p. if c = SyncAll \<or> c = RemoveDir then Some (IoOther 5) else None)\<rparr>"

definition snap_engine :: ReflinkEngine where
  "snap_engine = snd (engine_run fresh_engine
     [(quiet_os, CreateVolume ''a'' 2), (quiet_os, CreateSnapshot ''a'' ''s'')])"

theorem reflink_isolation_witness:
  "view snap_engine ''s'' = Some (Snapshot ''a'', [0, 0]) \<and>
   view (snd (engine_run snap_engine [(flaky_os, ResizeVolume ''a'' 4), (flaky_os, DeleteVolume ''a''),
      (flaky_os, CreateVolume ''s'' 3)])) ''s'' = Some (Snapshot ''a'', [0, 0])"
proof -
  have 1: "view snap_engine ''s'' = Some (Snapshot ''a'', [0, 0])"
    by code_simp
  have "view (snd (engine_run snap_engine [(flaky_os, ResizeVolume ''a'' 4), (flaky_os, DeleteVolume ''a''),
      (flaky_os, CreateVolume ''s'' 3)])) ''s'' = Some (Snapshot ''a'', [0, 0])"
    by (rule reflink_isolation [OF 1]) simp
  with 1 show ?thesis by blast
qed

section \<open>Failed operations\<close>

lemma create_volume_failed:
  assumes "create_volume E s n sz = (Inl e, s')"
  shows "idx_get s' = idx_get s"
proof (cases "name_ok n \<and> idx_get s n = None")
  case True
  then obtain u where u: "validate_name n ''volume'' = Inr u" using validate_name_ok by fastforce
  have "idx_get (snd (cv_build E (idx_insert n Volume s) n sz)) = (idx_get s)(n \<mapsto> Volume)"
    using cv_build_local [of n "idx_insert n Volume s" E sz]
    by (simp add: local_to_def idx_get_def idx_insert_def update_conv' fun_eq_iff)
  then show ?thesis
    using assms True u
    by (auto simp: create_volume_def cv_reserve_def cv_rollback_def Let_def idx_get_best_effort
        split: prod.splits sum.splits)
qed (use create_volume_refused [of n s E sz] assms in auto)

lemma create_snapshot_failed:
  assumes "create_snapshot E s src n = (Inl e, s')"
  shows "idx_get s' = idx_get s"
proof (cases "idx_get s n")
  case None
  have "idx_get s1 = (idx_get s)(n \<mapsto> k)"
    if "cs_build E (idx_insert n k s) d src h n = (r, s1)" for k d h r s1
    using cs_build_local [of h n "idx_insert n k s" E d src] that
    by (simp add: local_to_def idx_get_def idx_insert_def update_conv' fun_eq_iff)
  then show ?thesis
    using assms None
    by (fastforce simp: create_snapshot_def cs_reserve_def fun_eq_iff
        split: prod.splits sum.splits if_splits)
qed (use create_snapshot_taken [of s n _ E src] assms in auto)

lemma delete_volume_failed:
  assumes "delete_volume E s n = (Inl e, s')"
  shows "s' = s \<or> s' = s\<lparr>disk := del_node (disk s) n n\<rparr>"
proof (cases "idx_get s n = Some Volume")
  case True
  let ?r1 = "absent_ok (fs_remove_file E (disk s) n n) (disk s)"
  show ?thesis
  proof (cases ?r1)
    case (Inr t1)
    then have "t1 = disk s \<or> t1 = del_node (disk s) n n"
      by (auto simp: absent_ok_def dest: fs_remove_file_ok split: sum.splits io_error.splits)
    moreover have "s' = s\<lparr>disk := t1\<rparr>"
      using assms True Inr by (auto simp: delete_volume_def try_io_def Let_def split: sum.splits)
    ultimately show ?thesis by auto
  qed (use assms True in \<open>simp add: delete_volume_def\<close>)
qed (use delete_volume_refused [of s n E] assms in auto)

lemma delete_snapshot_failed: "delete_snapshot E s n = (Inl e, s') \<Longrightarrow> s' = s"
  by (auto simp: delete_snapshot_def try_io_def Let_def
      split: option.splits NameKind.splits sum.splits)

lemma reset_node_storage_failed:
  "reset_node_storage E s = (Inl e, s') \<Longrightarrow> idx_get s' = idx_get s"
  by (auto simp: reset_node_storage_def Let_def split: sum.splits prod.splits)

lemma creation_taken:
  "c = CreateVolume n sz \<or> c = CreateSnapshot src n \<Longrightarrow> idx_get s n = Some k \<Longrightarrow>
   snd (engine_step E s c) = s"
  using create_volume_refused [of n s E sz] create_snapshot_taken [of s n k E src] by auto

lemma creation_only:
  "c = CreateVolume n sz \<or> c = CreateSnapshot src n \<Longrightarrow>
   only_name (case c of CreateSnapshot _ _ \<Rightarrow> home src (the (idx_get s src)) | _ \<Rightarrow> n) n n s
     (snd (engine_step E s c))"
  using create_volume_only [of n s E sz] create_snapshot_no_source [of s src E n]
    create_snapshot_only [of s src _ n E]
  by (cases "idx_get s src") auto

text \<open>
  C3. Errors are reported with the name space intact: whatever calls fail, from any state,
  an operation that reports an error leaves the name index as it was, so nothing is half
  registered and no name is lost; and a failed creation of a volume or of a snapshot also
  leaves every stored byte string as it was. A reset that fails half way has removed files
  while every name stays in the index (\<open>failed_reset_keeps_stale_names\<close>).
\<close>

theorem failed_operation_keeps_names:
  assumes "engine_step E s c = (False, s')"
  shows "idx_get s' = idx_get s \<and>
    (\<forall>n sz src. c = CreateVolume n sz \<or> c = CreateSnapshot src n \<longrightarrow> view s' = view s)"
proof
  show idx: "idx_get s' = idx_get s"
  proof (cases c)
    case (ResizeVolume n sz)
    then show ?thesis using resize_volume_local [of n s E sz] assms
      by (cases "resize_volume E s n sz") (simp add: local_to_def idx_get_def fun_eq_iff)
  qed (use assms in \<open>auto simp: outcome_failed dest: create_volume_failed create_snapshot_failed
      delete_volume_failed delete_snapshot_failed reset_node_storage_failed\<close>)
  have "view s' m = view s m" if c: "c = CreateVolume n sz \<or> c = CreateSnapshot src n" for n sz src m
  proof (cases "m = n")
    case False
    then show ?thesis using only_name_view [OF creation_only [OF c], of m E s] assms by simp
  next
    case True
    then show ?thesis using creation_taken [OF c, of s _ E] idx assms by (cases "idx_get s n") auto
  qed
  then show "\<forall>n sz src. c = CreateVolume n sz \<or> c = CreateSnapshot src n \<longrightarrow> view s' = view s" by blast
qed

text \<open>C3, applied: fsync fails while ''b'' is created; ''b'' is not registered and ''a'' and its
  snapshot are as before.\<close>

theorem failed_operation_keeps_names_witness:
  "fst (engine_step flaky_os snap_engine (CreateVolume ''b'' 3)) = False \<and>
   idx_get (snd (engine_step flaky_os snap_engine (CreateVolume ''b'' 3))) = idx_get snap_engine \<and>
   view (snd (engine_step flaky_os snap_engine (CreateVolume ''b'' 3))) = view snap_engine"
proof -
  have f: "fst (engine_step flaky_os snap_engine (CreateVolume ''b'' 3)) = False" by code_simp
  then have "engine_step flaky_os snap_engine (CreateVolume ''b'' 3) =
      (False, snd (engine_step flaky_os snap_engine (CreateVolume ''b'' 3)))"
    by (metis prod.collapse)
  from failed_operation_keeps_names [OF this] f show ?thesis by blast
qed

text \<open>The index is cleared at the end of \<^verbatim>\<open>reset_node_storage\<close> only: when the removal of the
  directory ''b'' fails after the main file in it is gone, the names of the removed volumes
  ''a'' and ''b'' are still taken, and the files are not there.\<close>

definition reset_fault_os :: os where
  "reset_fault_os = quiet_os\<lparr>fault := (\<lambda>c p. if c = RemoveDirAll \<and> p = PDir ''b'' then Some (IoOther 5) else None),
     removed := (\<lambda>d f. f = ''b'')\<rparr>"

definition two_engine :: ReflinkEngine where
  "two_engine = snd (engine_run fresh_engine
     [(quiet_os, CreateVolume ''a'' 1), (quiet_os, CreateVolume ''b'' 1)])"

lemma failed_reset_keeps_stale_names:
  "let (ok, s) = engine_step reset_fault_os two_engine ResetNodeStorage in
   \<not> ok \<and> idx_get s ''a'' = Some Volume \<and> view s ''a'' = None \<and>
   idx_get s ''b'' = Some Volume \<and> view s ''b'' = None \<and> map_of (disk s) ''b'' = Some (EDir [])"
  by code_simp

section \<open>Repeating a deletion\<close>

lemma delete_volume_resume:
  assumes E: "no_faults E" and ok: "engine_ok s" and n: "idx_get s n = Some Volume"
  shows "delete_volume E (s\<lparr>disk := del_node (disk s) n n\<rparr>) n = delete_volume E s n"
proof -
  obtain x where x: "node_at (disk s) n n = Some (NFile x)"
    using view_Some [OF ok n] by auto
  have "missing (del_node (disk s) n n) n = IoNotFound"
    using engine_okD(3) [OF ok] by (auto simp: missing_def split: option.splits dentry.splits)
  then show ?thesis
    using n x E by (simp add: delete_volume_def remove_file_present fs_remove_file_def absent_ok_def)
qed

text \<open>
  C4. A deletion can be repeated: when a permitted deletion of a volume or snapshot reports
  an error because some call failed, however far it got, repeating it without faults
  succeeds, and then exactly that name is gone and index and disk agree.
\<close>

theorem interrupted_deletion_can_be_repeated:
  assumes ok: "engine_ok s" and c: "c = DeleteVolume n \<or> c = DeleteSnapshot n"
    and allowed: "spec_step (view s) c = Some a"
    and failed: "engine_step E s c = (False, s')" and E': "no_faults E'"
  shows "\<exists>s''. engine_step E' s' c = (True, s'') \<and> engine_ok s'' \<and> view s'' = a \<and>
    a = (view s)(n := None)"
proof -
  have "engine_step E' s' c = engine_step E' s c"
    using c
  proof
    assume d: "c = DeleteVolume n"
    have "idx_get s n = Some Volume"
      using allowed d view_Some [OF ok, of n]
      by (cases "idx_get s n") (auto split: option.splits NameKind.splits)
    then show ?thesis
      using failed d delete_volume_resume [OF E' ok] by (auto simp: outcome_failed dest: delete_volume_failed)
  next
    assume "c = DeleteSnapshot n"
    then show ?thesis using failed by (auto simp: outcome_failed dest: delete_snapshot_failed)
  qed
  moreover have "a = (view s)(n := None)"
    using allowed c by (auto split: option.splits NameKind.splits)
  ultimately show ?thesis using engine_step_simulates [OF E' ok, of c] allowed by auto
qed

text \<open>C4, applied: removing the directory of ''b'' fails after its file is gone; the second
  attempt completes.\<close>

definition vol_engine :: ReflinkEngine where
  "vol_engine = snd (engine_run fresh_engine [(quiet_os, CreateVolume ''b'' 1)])"

theorem interrupted_deletion_witness:
  "node_at (disk (snd (engine_step flaky_os vol_engine (DeleteVolume ''b'')))) ''b'' ''b'' = None \<and>
   (\<exists>s''. engine_step quiet_os (snd (engine_step flaky_os vol_engine (DeleteVolume ''b''))) (DeleteVolume ''b'')
      = (True, s'') \<and> engine_ok s'' \<and> view s'' = (view vol_engine)(''b'' := None))"
proof -
  have ok: "engine_ok vol_engine"
    using reflink.run_inv [of "[(quiet_os, CreateVolume ''b'' 1)]" fresh_engine]
    unfolding vol_engine_def engine_run_def by simp
  have v: "view vol_engine ''b'' = Some (Volume, [0])" by code_simp
  have f: "fst (engine_step flaky_os vol_engine (DeleteVolume ''b'')) = False" by code_simp
  have g: "node_at (disk (snd (engine_step flaky_os vol_engine (DeleteVolume ''b'')))) ''b'' ''b'' = None"
    by code_simp
  have "spec_step (view vol_engine) (DeleteVolume ''b'') = Some ((view vol_engine)(''b'' := None))"
    using v by simp
  from interrupted_deletion_can_be_repeated [OF ok _ this, of "''b''" flaky_os _ quiet_os] g f
  show ?thesis by (metis prod.collapse quiet_os_no_faults)
qed

end
