(* ===== verification/Reflink_Recovery.thy ===== *)
theory Reflink_Recovery
  imports Reflink_Safety
begin

text \<open>
  Start-up of the reflink engine: \<open>scan_and_rebuild_index\<close> finds again every volume and
  snapshot that is on disk, removes the zero-byte files a crash inside \<open>ficlone\<close> leaves and
  the empty directories a crash inside \<open>create_volume\<close> or \<open>delete_volume\<close> leaves, and nothing
  else. The result is stated for one directory (the inner loop), for the loop over
  directories and for the engine that comes up.
\<close>

section \<open>What a scan may find\<close>

definition snapfile :: "string \<Rightarrow> string \<Rightarrow> node \<Rightarrow> bool" where
  "snapfile vol f y \<longleftrightarrow> (case y of NFile x \<Rightarrow> f \<noteq> vol \<and> \<not> dotted f \<and> content x \<noteq> [] | _ \<Rightarrow> False)"

definition residue :: "string \<Rightarrow> string \<Rightarrow> node \<Rightarrow> bool" where
  "residue vol f y \<longleftrightarrow>
     (case y of NFile x \<Rightarrow> f \<noteq> vol \<and> \<not> dotted f \<and> content x = [] | _ \<Rightarrow> False)"

text \<open>
  A tree that holds exactly the files of the names \<open>I\<close>, and possibly residue. Snapshots are
  not empty and are not called like the volume directory they live in.
\<close>

definition recoverable :: "(string \<rightharpoonup> NameKind) \<Rightarrow> fs \<Rightarrow> bool" where
  "recoverable I t \<longleftrightarrow>
     (\<forall>n k. I n = Some k \<longrightarrow> name_ok n \<and> name_ok (home n k) \<and>
        (\<exists>x. node_at t (home n k) n = Some (NFile x) \<and> length (content x) < 2 ^ 64 \<and>
             (k \<noteq> Volume \<longrightarrow> n \<noteq> home n k \<and> content x \<noteq> []))) \<and>
     (\<forall>d f y. node_at t d f = Some y \<longrightarrow>
        (\<exists>k. I f = Some k \<and> home f k = d) \<or> \<not> dotted d \<and> residue d f y)"

lemma recoverableD:
  assumes "recoverable I t" and "I n = Some k"
  shows "name_ok n" "name_ok (home n k)"
    "\<exists>x. node_at t (home n k) n = Some (NFile x) \<and> length (content x) < 2 ^ 64 \<and>
      (k \<noteq> Volume \<longrightarrow> n \<noteq> home n k \<and> content x \<noteq> [])"
  using assms unfolding recoverable_def by blast+

lemma recoverable_owner:
  "recoverable I t \<Longrightarrow> node_at t d f = Some y \<Longrightarrow>
   (\<exists>k. I f = Some k \<and> home f k = d) \<or> \<not> dotted d \<and> residue d f y"
  unfolding recoverable_def by blast

section \<open>One directory\<close>

lemma of_nat_len_0: "length bs < 2 ^ 64 \<Longrightarrow> (of_nat (length bs) :: u64) = 0 \<longleftrightarrow> bs = []"
  by (auto simp: of_nat_eq_0_iff word_of_nat_eq_0_iff dest: dvd_imp_le)

lemma map_of_del_node: "d' \<noteq> d \<Longrightarrow> map_of (del_node t d f) d' = map_of t d'"
  by (auto simp: del_node_def update_conv' split: option.splits)

text \<open>What the inner loop makes of the index and of the files of \<open>vol\<close>.\<close>

definition found :: "string \<Rightarrow> (string \<times> node) list \<Rightarrow> (string \<rightharpoonup> NameKind) \<Rightarrow> (string \<rightharpoonup> NameKind)" where
  "found vol subs I f = (case map_of subs f of
     Some y \<Rightarrow> if snapfile vol f y then Some (Snapshot vol) else I f | None \<Rightarrow> I f)"

definition kept :: "string \<Rightarrow> (string \<times> node) list \<Rightarrow> (string \<Rightarrow> string \<Rightarrow> node option)
    \<Rightarrow> (string \<Rightarrow> string \<Rightarrow> node option)" where
  "kept vol subs N d f =
     (if d = vol \<and> (\<exists>y. map_of subs f = Some y \<and> residue vol f y) then None else N d f)"

lemma found_Nil [simp]: "found vol [] I = I"
  by (rule ext) (simp add: found_def)

lemma kept_Nil [simp]: "kept vol [] N = N"
  by (intro ext) (simp add: kept_def)

lemma found_Cons: "map_of subs f = None \<Longrightarrow>
  found vol ((f, y) # subs) I = found vol subs (if snapfile vol f y then I(f \<mapsto> Snapshot vol) else I)"
  by (rule ext) (auto simp: found_def split: option.splits)

lemma kept_Cons: "map_of subs f = None \<Longrightarrow>
  kept vol ((f, y) # subs) N = kept vol subs
    (if residue vol f y then (\<lambda>d g. if d = vol \<and> g = f then None else N d g) else N)"
  by (intro ext) (auto simp: kept_def)

lemma scan_snapshots_ok:
  assumes E: "no_faults E" and "distinct (map fst subs)"
    and "\<forall>(f, y) \<in> set subs. node_at t vol f = Some y"
    and "\<forall>(f, y) \<in> set subs. snapfile vol f y \<longrightarrow> map_of idx f = None"
    and "\<forall>(f, y) \<in> set subs. \<forall>x. y = NFile x \<longrightarrow> length (content x) < 2 ^ 64"
    and "wf_fs t" and "distinct (map fst idx)"
  shows "\<exists>idx' t'. scan_snapshots E vol t idx subs = (Inr idx', t') \<and> distinct (map fst idx') \<and>
    wf_fs t' \<and> (\<forall>d. d \<noteq> vol \<longrightarrow> map_of t' d = map_of t d) \<and>
    (\<forall>d. map_of t' d = Some EOther \<longleftrightarrow> map_of t d = Some EOther) \<and>
    map_of idx' = found vol subs (map_of idx) \<and> node_at t' = kept vol subs (node_at t)"
  using assms(2-)
proof (induction subs arbitrary: t idx)
  case Nil
  then show ?case by simp
next
  case (Cons fy subs)
  obtain f y where fy: "fy = (f, y)" by (cases fy)
  have new: "map_of subs f = None" using Cons.prems(1) fy by (simp add: map_of_eq_None_iff)
  have ne: "\<forall>(g, z) \<in> set subs. g \<noteq> f" using Cons.prems(1) fy by force
  note upd = found_Cons [OF new] kept_Cons [OF new]
  consider (res) x where "y = NFile x" "residue vol f y" "\<not> snapfile vol f y"
    | (snap) x where "y = NFile x" "snapfile vol f y" "\<not> residue vol f y"
    | (skip) "\<not> residue vol f y" "\<not> snapfile vol f y"
    by (cases y) (auto simp: residue_def snapfile_def)
  then show ?case
  proof cases
    case res
    let ?t = "del_node t vol f"
    have "scan_snapshots E vol t idx (fy # subs) = scan_snapshots E vol ?t idx subs"
      using res E Cons.prems(2) fy by (simp add: residue_def ignore_io_def remove_file_present)
    moreover have "\<forall>(g, z) \<in> set subs. node_at ?t vol g = Some z"
      using Cons.prems(2) ne by auto
    moreover have "node_at ?t = (\<lambda>d g. if d = vol \<and> g = f then None else node_at t d g)"
      by (simp add: fun_eq_iff)
    ultimately show ?thesis
      using Cons.IH [of ?t idx] Cons.prems res fy by (simp add: map_of_del_node upd del: scan_snapshots.simps)
  next
    case snap
    let ?i = "AList.update f (Snapshot vol) idx"
    have "scan_snapshots E vol t idx (fy # subs) = scan_snapshots E vol t ?i subs"
      using snap E Cons.prems(3,4) fy by (auto simp: snapfile_def of_nat_len_0)
    moreover have "\<forall>(g, z) \<in> set subs. snapfile vol g z \<longrightarrow> map_of ?i g = None"
      using Cons.prems(3) ne by (auto simp: update_conv')
    moreover have "map_of ?i = (map_of idx)(f \<mapsto> Snapshot vol)"
      by (simp add: update_conv' fun_eq_iff)
    ultimately show ?thesis
      using Cons.IH [of t ?i] Cons.prems snap fy
      by (simp add: distinct_update upd fun_upd_def del: scan_snapshots.simps)
  next
    case skip
    then have "scan_snapshots E vol t idx (fy # subs) = scan_snapshots E vol t idx subs"
      using E fy Cons.prems(4) by (cases y) (auto simp: residue_def snapfile_def)
    then show ?thesis using Cons.IH [of t idx] Cons.prems skip fy
      by (simp add: upd del: scan_snapshots.simps)
  qed
qed

section \<open>All directories\<close>

text \<open>The names whose files are in the directories \<open>D\<close>, and the files left there.\<close>

definition names_in :: "string set \<Rightarrow> (string \<rightharpoonup> NameKind) \<Rightarrow> (string \<rightharpoonup> NameKind)" where
  "names_in D I n = (case I n of Some k \<Rightarrow> if home n k \<in> D then Some k else None | None \<Rightarrow> None)"

definition cleaned :: "string set \<Rightarrow> (string \<Rightarrow> string \<Rightarrow> node option)
    \<Rightarrow> (string \<Rightarrow> string \<Rightarrow> node option)" where
  "cleaned D N d f = (case N d f of Some y \<Rightarrow>
     if d \<in> D \<and> \<not> dotted d \<and> residue d f y then None else Some y | None \<Rightarrow> None)"

text \<open>A directory without files of any name adds nothing.\<close>

lemma names_in_empty_dir:
  assumes "recoverable I t" and "\<forall>f x. node_at t vol f = Some (NFile x) \<longrightarrow> dotted vol \<or> residue vol f (NFile x)"
  shows "names_in (insert vol D) I = names_in D I"
  using recoverableD [OF assms(1)] assms(2)
  by (intro ext) (fastforce simp: names_in_def residue_def split: option.splits
      dest: name_ok_not_dotted)

text \<open>The inner loop, started with the volume itself registered if its main file is there.\<close>

lemma found_names:
  assumes rec: "recoverable I t" and ns: "\<And>f. node_at t vol f = map_of ns f"
    and new: "vol \<notin> D"
    and J: "J = (if map_of ns vol = None then names_in D I else (names_in D I)(vol \<mapsto> Volume))"
  shows "found vol ns J = names_in (insert vol D) I"
proof
  fix f
  have main: "map_of ns vol \<noteq> None \<Longrightarrow> I vol = Some Volume"
    using recoverable_owner [OF rec, of vol vol] recoverableD(3) [OF rec, of vol] ns
    by (force simp: residue_def split: node.splits)
  show "found vol ns J f = names_in (insert vol D) I f"
  proof (cases "map_of ns f")
    case None
    then have "I f = Some k \<Longrightarrow> home f k \<noteq> vol" for k
      using recoverableD(3) [OF rec, of f k] ns by auto
    then show ?thesis
      using None J by (auto simp: found_def names_in_def split: option.splits)
  next
    case (Some y)
    show ?thesis
    proof (cases "\<exists>k. I f = Some k \<and> home f k = vol")
      case True
      then obtain k where k: "I f = Some k" "home f k = vol" by blast
      obtain x where x: "y = NFile x" "k \<noteq> Volume \<longrightarrow> f \<noteq> vol \<and> content x \<noteq> []"
        using recoverableD(3) [OF rec k(1)] k Some ns by auto
      then show ?thesis
        using k Some J name_ok_not_dotted [OF recoverableD(1) [OF rec k(1)]]
        by (cases k) (auto simp: found_def names_in_def snapfile_def)
    next
      case False
      then have "residue vol f y" using recoverable_owner [OF rec, of vol f y] ns Some by auto
      then show ?thesis
        using False Some J
        by (auto simp: found_def names_in_def residue_def snapfile_def split: node.splits option.splits)
    qed
  qed
qed

lemma kept_cleaned:
  assumes "\<And>f. N vol f = map_of ns f" "\<not> dotted vol"
  shows "kept vol ns N = cleaned {vol} N"
  using assms by (intro ext) (auto simp: kept_def cleaned_def split: option.splits)

lemma cleaned_trivial:
  "(\<And>f y. N vol f = Some y \<Longrightarrow> dotted vol \<or> \<not> residue vol f y) \<Longrightarrow> cleaned {vol} N = N"
  by (intro ext) (auto simp: cleaned_def split: option.splits)

lemma cleaned_insert: "cleaned {d} (cleaned D N) = cleaned (insert d D) N"
  by (intro ext) (auto simp: cleaned_def split: option.splits)

text \<open>The state between two entries of \<open>volumes_dir\<close>: the directories \<open>D\<close> are done.\<close>

definition scanned :: "(string \<rightharpoonup> NameKind) \<Rightarrow> fs \<Rightarrow> string set \<Rightarrow> fs \<Rightarrow> (string, NameKind) hmap \<Rightarrow> bool" where
  "scanned I t0 D t idx \<longleftrightarrow> wf_fs t \<and> distinct (map fst idx) \<and> map_of idx = names_in D I \<and>
     node_at t = cleaned D (node_at t0) \<and> (\<forall>d. d \<notin> D \<longrightarrow> map_of t d = map_of t0 d) \<and>
     (\<forall>d. map_of t d = Some EOther \<longleftrightarrow> map_of t0 d = Some EOther)"

lemma enumerate_dir:
  assumes E: "no_faults E" and rec: "recoverable I t0" and sc: "scanned I t0 D t idx"
    and dir: "map_of t0 vol = Some (EDir ns)" and new: "vol \<notin> D" and vis: "\<not> dotted vol"
    and big: "\<forall>f x. map_of ns f = Some (NFile x) \<longrightarrow> length (content x) < 2 ^ 64"
    and J: "idx1 = (if map_of ns vol = None then idx else AList.update vol Volume idx)"
  shows "\<exists>idx2 t1. scan_snapshots E vol t idx1 ns = (Inr idx2, t1) \<and>
    scanned I t0 (insert vol D) t1 idx2"
proof -
  have dir_t: "map_of t vol = Some (EDir ns)" and wf: "wf_fs t" and di: "distinct (map fst idx)"
    using sc dir new by (auto simp: scanned_def)
  have n0: "node_at t0 vol f = map_of ns f" "node_at t vol f = map_of ns f" for f
    using dir dir_t by (auto simp: node_at_def dir_at_def)
  have "dir_at t vol = Some ns" using dir_t by (simp add: dir_at_def)
  then have dn: "distinct (map fst ns)" using wf by (simp add: wf_fs_def)
  have at: "\<forall>(f, y) \<in> set ns. map_of ns f = Some y" using dn by auto
  have J': "map_of idx1 = (if map_of ns vol = None then names_in D I else (names_in D I)(vol \<mapsto> Volume))"
    using J sc by (auto simp: scanned_def update_conv' fun_eq_iff)
  have fresh: "map_of idx1 f = None" if "map_of ns f = Some y" "snapfile vol f y" for f y
  proof -
    have "f \<noteq> vol" "\<not> residue vol f y"
      using that(2) by (auto simp: snapfile_def residue_def split: node.splits)
    then show ?thesis
      using recoverable_owner [OF rec, of vol f y] that(1) new J' n0
      by (auto simp: names_in_def split: option.splits)
  qed
  have "distinct (map fst idx1)" using di J by (simp add: distinct_update)
  then obtain idx2 t1 where r: "scan_snapshots E vol t idx1 ns = (Inr idx2, t1)"
    "distinct (map fst idx2)" "wf_fs t1" "\<forall>d. d \<noteq> vol \<longrightarrow> map_of t1 d = map_of t d"
    "\<forall>d. map_of t1 d = Some EOther \<longleftrightarrow> map_of t d = Some EOther"
    "map_of idx2 = found vol ns (map_of idx1)" "node_at t1 = kept vol ns (node_at t)"
    using scan_snapshots_ok [OF E dn, of t vol idx1] at n0(2) fresh big wf by fastforce
  have "map_of idx2 = names_in (insert vol D) I"
    using r(6) found_names [OF rec n0(1) new J'] by simp
  moreover have "node_at t1 = cleaned (insert vol D) (node_at t0)"
    using r(7) kept_cleaned [of "node_at t" vol ns] n0(2) vis sc
    by (simp add: scanned_def cleaned_insert)
  ultimately show ?thesis using r sc by (auto simp: scanned_def)
qed

lemma recoverable_length:
  "recoverable I t \<Longrightarrow> node_at t d f = Some (NFile x) \<Longrightarrow> length (content x) < 2 ^ 64"
  using recoverable_owner [of I t d f "NFile x"] recoverableD(3) [of I t f]
  by (fastforce simp: residue_def)

text \<open>A directory that holds no name is passed over.\<close>

lemma scanned_skip:
  assumes sc: "scanned I t0 D t idx" and rec: "recoverable I t0"
    and none: "\<And>f y. node_at t0 vol f = Some y \<Longrightarrow> dotted vol"
  shows "scanned I t0 (insert vol D) t idx"
proof -
  have "cleaned {vol} (node_at t) = node_at t"
    using none sc by (intro cleaned_trivial) (auto simp: scanned_def cleaned_def split: option.splits)
  then show ?thesis
    using sc names_in_empty_dir [OF rec, of vol D] none
    by (auto simp: scanned_def cleaned_insert)
qed

lemma scanned_rmdir:
  assumes sc: "scanned I t0 D t idx" and r: "fs_remove_dir E t vol = Inr t1" and "vol \<in> D"
  shows "scanned I t0 D t1 idx"
proof -
  have "map_of t vol \<noteq> Some EOther"
    using fs_remove_dir_ok(2) [OF r] by (auto simp: dir_at_def)
  then have "map_of t0 vol \<noteq> Some EOther" using sc by (simp add: scanned_def)
  then show ?thesis
    using sc fs_remove_dir_ok(1) [OF r] fs_remove_dir_node_at [OF r] assms(3)
    by (auto simp: scanned_def delete_conv')
qed

lemma scan_entry:
  assumes E: "no_faults E" and rec: "recoverable I t0" and sc: "scanned I t0 D t idx"
    and e: "map_of t0 vol = Some de" and new: "vol \<notin> D"
  shows "\<exists>idx1 t1. scan_volumes E t idx ((vol, de) # es) = scan_volumes E t1 idx1 es \<and>
    scanned I t0 (insert vol D) t1 idx1"
proof (cases "dotted vol \<or> de = EOther")
  case True
  then have "scan_volumes E t idx ((vol, de) # es) = scan_volumes E t idx es"
    by (cases de) auto
  moreover have "dotted vol" if "node_at t0 vol f = Some y" for f y
    using True that e by (auto simp: node_at_def dir_at_def)
  ultimately show ?thesis using scanned_skip [OF sc rec] by blast
next
  case False
  then obtain ns where ns: "de = EDir ns" by (cases de) auto
  have dir: "map_of t0 vol = Some (EDir ns)" and dt: "map_of t vol = Some (EDir ns)"
    using e ns sc new by (auto simp: scanned_def)
  have n0: "node_at t0 vol f = map_of ns f" and nt: "node_at t vol f = map_of ns f" for f
    using dir dt by (simp_all add: node_at_def dir_at_def)
  have rd: "fs_read_dir E t vol = Inr ns" using dt E by (simp add: fs_read_dir_def dir_at_def)
  have big: "\<forall>f x. map_of ns f = Some (NFile x) \<longrightarrow> length (content x) < 2 ^ 64"
    using recoverable_length [OF rec, of vol] n0 by simp
  have vis: "\<not> dotted f" if m: "(f, y) \<in> set ns" for f y
  proof -
    obtain z where "map_of ns f = Some z" using weak_map_of_SomeI [OF m] by blast
    then show ?thesis
      using recoverable_owner [OF rec, of vol f z] recoverableD(1) [OF rec, of f] n0
      by (auto simp: residue_def dest: name_ok_not_dotted split: node.splits)
  qed
  let ?idx1 = "if map_of ns vol = None then idx else AList.update vol Volume idx"
  obtain idx2 t1 where scan: "scan_snapshots E vol t ?idx1 ns = (Inr idx2, t1)"
    and sc1: "scanned I t0 (insert vol D) t1 idx2"
    using enumerate_dir [OF E rec sc dir new _ big refl] False by blast
  show ?thesis
  proof (cases "ns = []")
    case True
    then have rm: "fs_remove_dir E t vol = Inr (AList.delete vol t)"
      using dt E by (simp add: fs_remove_dir_def)
    have "scanned I t0 (insert vol D) (AList.delete vol t) idx"
      by (rule scanned_rmdir [OF scanned_skip [OF sc rec] rm]) (use n0 True in auto)
    moreover have "scan_volumes E t idx ((vol, de) # es) =
        scan_volumes E (ignore_io (fs_remove_dir E t vol) t) idx es"
      using False ns True nt rd E by (simp add: fs_metadata_def read_dir_count_non_dotfiles_def)
    ultimately show ?thesis using rm by (auto simp: ignore_io_def)
  next
    case False2: False
    then have "filter (\<lambda>(n, _). \<not> dotted n) ns \<noteq> []" using vis by (cases ns) auto
    then have "scan_volumes E t idx ((vol, de) # es) = scan_volumes E t1 idx2 es"
      using False ns nt rd E scan
      by (auto simp: fs_metadata_def read_dir_count_non_dotfiles_def
          split: option.splits node.splits)
    then show ?thesis using sc1 by blast
  qed
qed

lemma scan_volumes_ok:
  assumes E: "no_faults E" and rec: "recoverable I t0"
  shows "scanned I t0 D t idx \<Longrightarrow> distinct (map fst es) \<Longrightarrow>
    (\<forall>(d, de) \<in> set es. map_of t0 d = Some de \<and> d \<notin> D) \<Longrightarrow>
    \<exists>idx' t'. scan_volumes E t idx es = (Inr idx', t') \<and>
      scanned I t0 (D \<union> fst ` set es) t' idx'"
proof (induction es arbitrary: D t idx)
  case (Cons e es)
  obtain vol de where e: "e = (vol, de)" by (cases e)
  obtain idx1 t1 where 1: "scan_volumes E t idx (e # es) = scan_volumes E t1 idx1 es"
    "scanned I t0 (insert vol D) t1 idx1"
    using scan_entry [OF E rec Cons.prems(1), of vol de es] Cons.prems(3) e by auto
  have "\<forall>(d, de) \<in> set es. map_of t0 d = Some de \<and> d \<notin> insert vol D"
    using Cons.prems(2,3) e by force
  from Cons.IH [OF 1(2) _ this] 1(1) Cons.prems(2) e show ?case by simp
qed simp

section \<open>Start-up\<close>

lemma count_kind_card:
  assumes "distinct (map fst idx)"
  shows "count_kind P idx = of_nat (card {n. \<exists>k. map_of idx n = Some k \<and> P k})"
proof -
  have "fold (\<lambda>(_, k) c. if P k then c + 1 else c) l c = c + of_nat (length (filter (\<lambda>(_, k). P k) l))"
    for c :: u64 and l :: "(string \<times> NameKind) list"
    by (induction l arbitrary: c) (auto simp: algebra_simps)
  moreover have "set (map fst (filter (\<lambda>(_, k). P k) idx)) = {n. \<exists>k. map_of idx n = Some k \<and> P k}"
    using assms by (force simp: image_iff)
  moreover have "distinct (map fst (filter (\<lambda>(_, k). P k) idx))"
    using assms by (simp add: distinct_map_filter)
  ultimately show ?thesis
    using distinct_card [of "map fst (filter (\<lambda>(_, k). P k) idx)"] by (simp add: count_kind_def)
qed

lemma scanned_start: "wf_fs t \<Longrightarrow> scanned I t {} t []"
  by (auto simp: scanned_def names_in_def cleaned_def fun_eq_iff split: option.splits)

lemma node_at_dir_listed: "node_at t d f = Some y \<Longrightarrow> d \<in> fst ` set t"
  by (rule ccontr) (simp add: node_at_def dir_at_def flip: map_of_eq_None_iff)

lemma names_in_all:
  assumes "recoverable I t" shows "names_in (fst ` set t) I = I"
proof
  fix n
  have "home n k \<in> fst ` set t" if "I n = Some k" for k
    using recoverableD(3) [OF assms that] node_at_dir_listed by blast
  then show "names_in (fst ` set t) I n = I n" by (auto simp: names_in_def split: option.splits)
qed

lemma cleaned_agree:
  assumes rec: "recoverable I t" and D: "D = fst ` set t"
  shows "agree I (cleaned D (node_at t))" "store_of I (cleaned D (node_at t)) = store_of I (node_at t)"
proof -
  have own: "cleaned D (node_at t) (home n k) n = node_at t (home n k) n" if "I n = Some k" for n k
    using recoverableD(3) [OF rec that]
    by (cases k) (auto simp: cleaned_def residue_def)
  have D': "d \<in> D" if "node_at t d f = Some y" for d f y
    using node_at_dir_listed [OF that] D by simp
  show "agree I (cleaned D (node_at t))"
    unfolding agree_def
  proof (intro conjI allI impI)
    fix n k assume "I n = Some k"
    then show "name_ok n" "name_ok (home n k)"
      "\<exists>x. cleaned D (node_at t) (home n k) n = Some (NFile x) \<and> length (content x) < 2 ^ 64"
      using recoverableD [OF rec, of n k] own [of n k] by auto
  next
    fix d n y assume "cleaned D (node_at t) d n = Some y"
    then show "\<exists>k. I n = Some k \<and> home n k = d"
      using recoverable_owner [OF rec, of d n y] D' by (auto simp: cleaned_def split: option.splits if_splits)
  qed
  show "store_of I (cleaned D (node_at t)) = store_of I (node_at t)"
    by (rule ext) (auto simp: store_of_def own split: option.splits)
qed

lemma initialize_scan_ok:
  assumes E: "no_faults E" and wf: "wf_fs t" and rec: "recoverable I t"
    and dirs: "\<forall>d. map_of t d \<noteq> Some EOther"
  shows "\<exists>s. initialize_scan E v t = Inr s \<and> engine_ok s \<and> idx_get s = I \<and>
    view s = store_of I (node_at t) \<and>
    metrics_get (metrics s) METRIC_VOLUME_COUNT = of_nat (card {n. I n = Some Volume}) \<and>
    metrics_get (metrics s) METRIC_SNAPSHOT_COUNT = of_nat (card {n. \<exists>ov. I n = Some (Snapshot ov)})"
proof -
  let ?D = "fst ` set t"
  obtain idx t' where r: "scan_volumes E t [] t = (Inr idx, t')" and sc: "scanned I t ?D t' idx"
    using scan_volumes_ok [OF E rec scanned_start [OF wf], of t] wf
    by (auto simp: wf_fs_def)
  have I: "map_of idx = I" and d: "distinct (map fst idx)"
    using sc names_in_all [OF rec] by (simp_all add: scanned_def)
  let ?s = "\<lparr>volumes_dir = v, name_index = idx,
    metrics = metrics_set (metrics_set metrics_new METRIC_VOLUME_COUNT (count_kind (\<lambda>k. k = Volume) idx))
      METRIC_SNAPSHOT_COUNT (count_kind (\<lambda>k. k \<noteq> Volume) idx), disk = t'\<rparr>"
  have init: "initialize_scan E v t = Inr ?s"
    using r E by (simp add: initialize_scan_def scan_and_rebuild_index_def fs_read_root_def Let_def)
  have idx: "idx_get ?s = I" using I by (simp add: idx_get_def fun_eq_iff)
  have "engine_ok ?s"
    using sc d dirs idx cleaned_agree(1) [OF rec refl] by (simp add: engine_ok_def scanned_def)
  moreover have "view ?s = store_of I (node_at t)"
    using sc idx cleaned_agree(2) [OF rec refl] by (simp add: view_def scanned_def)
  moreover have "(\<exists>k. I n = Some k \<and> k \<noteq> Volume) \<longleftrightarrow> (\<exists>ov. I n = Some (Snapshot ov))" for n
    by (metis NameKind.exhaust NameKind.distinct(1))
  ultimately show ?thesis
    using init idx by (simp add: count_kind_card [OF d] I)
qed

section \<open>Restart\<close>

text \<open>What the disk format can tell: a snapshot with some bytes, not called like the volume
  directory that holds it.\<close>

definition durable :: "ReflinkEngine \<Rightarrow> bool" where
  "durable s \<longleftrightarrow> (\<forall>n ov bs. view s n = Some (Snapshot ov, bs) \<longrightarrow> bs \<noteq> [] \<and> n \<noteq> ov)"

text \<open>A tree a crash may leave behind: the files of \<open>s\<close>, any empty directories, and zero-byte
  files under volume directories where \<open>s\<close> has none.\<close>

definition crash_tree :: "ReflinkEngine \<Rightarrow> fs \<Rightarrow> bool" where
  "crash_tree s t \<longleftrightarrow> wf_fs t \<and> (\<forall>d. map_of t d \<noteq> Some EOther) \<and>
     (\<forall>d f. node_at t d f = node_at (disk s) d f \<or>
        node_at (disk s) d f = None \<and> \<not> dotted d \<and> (\<exists>y. node_at t d f = Some y \<and> residue d f y))"

lemma crash_tree_recoverable:
  assumes ok: "engine_ok s" and d: "durable s" and c: "crash_tree s t"
  shows "recoverable (idx_get s) t" "store_of (idx_get s) (node_at t) = view s"
proof -
  have same: "node_at t (home n k) n = node_at (disk s) (home n k) n" if "idx_get s n = Some k" for n k
    using c view_Some [OF ok that] unfolding crash_tree_def by (metis option.distinct(1))
  show "recoverable (idx_get s) t"
    unfolding recoverable_def
  proof (intro conjI allI impI)
    fix n k assume k: "idx_get s n = Some k"
    show "name_ok n" "name_ok (home n k)" using agreeD [OF engine_okD(4) [OF ok] k] by auto
    from view_Some [OF ok k] obtain x where x: "node_at (disk s) (home n k) n = Some (NFile x)"
      "length (content x) < 2 ^ 64" "view s n = Some (k, content x)" by blast
    then show "\<exists>x. node_at t (home n k) n = Some (NFile x) \<and> length (content x) < 2 ^ 64 \<and>
        (k \<noteq> Volume \<longrightarrow> n \<noteq> home n k \<and> content x \<noteq> [])"
      using d same [OF k] by (cases k) (auto simp: durable_def)
  next
    fix d f y assume y: "node_at t d f = Some y"
    show "(\<exists>k. idx_get s f = Some k \<and> home f k = d) \<or> \<not> dotted d \<and> residue d f y"
      using c y agree_owner [OF engine_okD(4) [OF ok], of d f y]
      unfolding crash_tree_def by (metis option.inject)
  qed
  show "store_of (idx_get s) (node_at t) = view s"
    unfolding view_def by (rule ext) (auto simp: store_of_def same split: option.splits)
qed

text \<open>
  C5. Recovery: restarted without faults on any tree a crash may leave behind an agreeing
  state whose snapshots are not empty and not named like their volume directory
  (\<open>durable\<close>; the limits below show what happens to the others), the engine comes up
  agreeing with the disk again, with the same names, the same kinds and the same bytes, the
  residue gone, and the volume and snapshot metrics primed with the true counts. Snapshots
  whose volume was deleted are among them: the scan registers a snapshot also where the main
  file is missing (\<open>orphan_snapshot_registered\<close>).
\<close>

theorem restart_recovers_store:
  assumes "no_faults E" and "engine_ok s" and "durable s" and "crash_tree s t"
  shows "\<exists>s'. initialize_scan E (volumes_dir s) t = Inr s' \<and> engine_ok s' \<and>
    idx_get s' = idx_get s \<and> view s' = view s \<and>
    metrics_get (metrics s') METRIC_VOLUME_COUNT = of_nat (card {n. idx_get s n = Some Volume}) \<and>
    metrics_get (metrics s') METRIC_SNAPSHOT_COUNT =
      of_nat (card {n. \<exists>ov. idx_get s n = Some (Snapshot ov)})"
  using initialize_scan_ok [OF assms(1) _ crash_tree_recoverable(1) [OF assms(2-4)],
      of "volumes_dir s"] crash_tree_recoverable(2) [OF assms(2-4)] assms(4)
  by (auto simp: crash_tree_def)

text \<open>C5, applied: a crash between creating and cloning the snapshot file ''r'' and between
  making the directory ''c'' and its main file.\<close>

definition crashed_disk :: fs where
  "crashed_disk = put_node (AList.update ''c'' (EDir []) (disk snap_engine)) ''a'' ''r''
     (NFile \<lparr>content = [], mtime = 7\<rparr>)"

theorem restart_recovers_store_witness:
  "node_at crashed_disk ''a'' ''r'' \<noteq> None \<and>
   (\<exists>s'. initialize_scan quiet_os (volumes_dir snap_engine) crashed_disk = Inr s' \<and> engine_ok s' \<and>
      view s' = view snap_engine)"
proof -
  have ok: "engine_ok snap_engine"
    using reflink.run_inv [of "[(quiet_os, CreateVolume ''a'' 2), (quiet_os, CreateSnapshot ''a'' ''s'')]"
        fresh_engine] unfolding snap_engine_def engine_run_def by simp
  have disk: "disk snap_engine = [(''a'', EDir [(''a'', NFile \<lparr>content = [0, 0], mtime = 0\<rparr>),
      (''s'', NFile \<lparr>content = [0, 0], mtime = 0\<rparr>)])]" by code_simp
  have idx: "name_index snap_engine = [(''a'', Volume), (''s'', Snapshot ''a'')]" by code_simp
  have "durable snap_engine"
    by (auto simp: durable_def view_def store_of_def idx_get_def idx disk node_at_def dir_at_def
        split: if_splits)
  moreover have "crash_tree snap_engine crashed_disk"
    by (auto simp: crash_tree_def crashed_disk_def disk wf_fs_def node_at_def dir_at_def put_node_def
        residue_def dotted_def split: if_splits)
  moreover have "node_at crashed_disk ''a'' ''r'' \<noteq> None" by code_simp
  ultimately show ?thesis
    using restart_recovers_store [OF quiet_os_no_faults ok, of crashed_disk] by blast
qed

section \<open>Limits\<close>

text \<open>A snapshot of a zero-size volume does not survive a restart: the scan takes its file for
  the residue of a crash, whatever the size of the volume's main file.\<close>

definition zero_engine :: ReflinkEngine where
  "zero_engine = snd (engine_run fresh_engine
     [(quiet_os, CreateVolume ''a'' 0), (quiet_os, CreateSnapshot ''a'' ''s'')])"

lemma empty_snapshot_lost_at_restart:
  "view zero_engine ''s'' = Some (Snapshot ''a'', []) \<and>
   (case initialize_scan quiet_os ''/r/volumes'' (disk zero_engine) of
      Inr s' \<Rightarrow> view s' ''s'' = None \<and> view s' ''a'' = Some (Volume, []) | Inl _ \<Rightarrow> False)"
  by code_simp

text \<open>A snapshot in a directory without a main file is registered by the scan, and the directory
  is not left alone: an empty file in it is unlinked.\<close>

lemma orphan_snapshot_registered:
  "case initialize_scan quiet_os ''/r/volumes''
       [(''a'', EDir [(''s'', NFile \<lparr>content = [1], mtime = 0\<rparr>), (''e'', NFile \<lparr>content = [], mtime = 0\<rparr>)])] of
     Inr s \<Rightarrow> view s ''a'' = None \<and> view s ''s'' = Some (Snapshot ''a'', [1]) \<and>
       disk s = [(''a'', EDir [(''s'', NFile \<lparr>content = [1], mtime = 0\<rparr>)])]
   | Inl _ \<Rightarrow> False"
  by code_simp

text \<open>A snapshot that takes the name of its deleted origin is a volume after a restart.\<close>

definition reused_engine :: ReflinkEngine where
  "reused_engine = snd (engine_run fresh_engine
     [(quiet_os, CreateVolume ''a'' 1), (quiet_os, CreateSnapshot ''a'' ''s''),
      (quiet_os, DeleteVolume ''a''), (quiet_os, CreateSnapshot ''s'' ''a'')])"

lemma snapshot_named_like_origin_becomes_volume:
  "view reused_engine ''a'' = Some (Snapshot ''a'', [0]) \<and>
   (case initialize_scan quiet_os ''/r/volumes'' (disk reused_engine) of
      Inr s' \<Rightarrow> view s' ''a'' = Some (Volume, [0]) | Inl _ \<Rightarrow> False)"
  by code_simp

text \<open>When the stat that ends \<open>create_snapshot\<close> fails, the name is released but the file and
  the count stay, and the name cannot be used for a snapshot of that volume again.\<close>

definition stat_fault_os :: os where
  "stat_fault_os = quiet_os\<lparr>fault := (\<lambda>c p. if c = Stat then Some (IoOther 5) else None)\<rparr>"

definition leaky_engine :: ReflinkEngine where
  "leaky_engine = snd (create_snapshot stat_fault_os snap_engine ''a'' ''r'')"

lemma failed_snapshot_leaves_file:
  "is_err (fst (create_snapshot stat_fault_os snap_engine ''a'' ''r'')) \<and>
   idx_get leaky_engine ''r'' = None \<and> node_at (disk leaky_engine) ''a'' ''r'' \<noteq> None \<and>
   metrics_get (metrics leaky_engine) METRIC_SNAPSHOT_COUNT = 2 \<and>
   is_err (fst (create_snapshot quiet_os leaky_engine ''a'' ''r''))"
  by code_simp

end
