(* ===== verification/Reflink_Listing.thy ===== *)
theory Reflink_Listing
  imports Reflink_Store
begin

text \<open>
  Paging through the volumes of the reflink engine: what one page holds, and that a client
  that follows the tokens sees every volume exactly once, in order.
\<close>

section \<open>One page\<close>

text \<open>The tokens a client can hold: none, for the first page, or the name at a position.\<close>

definition token_at :: "string list \<Rightarrow> nat \<Rightarrow> string option \<Rightarrow> bool" where
  "token_at names i tok \<longleftrightarrow> i = 0 \<and> tok = None \<or> i < length names \<and> tok = Some (names ! i)"

lemma takeWhile_nth:
  assumes "distinct names" "i < length names"
  shows "takeWhile (\<lambda>n. n \<noteq> names ! i) names = take i names"
proof (rule takeWhile_eq_take_P_nth)
  show "\<And>j. j < i \<Longrightarrow> j < length names \<Longrightarrow> names ! j \<noteq> names ! i"
    using assms by (simp add: nth_eq_iff_index_eq)
qed simp

lemma page_of_token:
  assumes "distinct names" "token_at names i tok" "ps \<noteq> 0" "length names + unat ps < 2 ^ 64"
  shows "page_of names ps tok = Some (take (unat ps) (drop i names),
    if i + unat ps < length names then Some (names ! (i + unat ps)) else None)"
proof -
  have i: "i \<le> length names" "i + unat ps < 2 ^ 64" using assms(2,4) by (auto simp: token_at_def)
  have start: "(case tok of Some tk \<Rightarrow> length (takeWhile (\<lambda>n. n \<noteq> tk) names) | None \<Rightarrow> 0) = i"
    using assms(1,2) by (auto simp: token_at_def takeWhile_nth)
  have "unat (of_nat i + ps :: u64) = i + unat ps"
    using i by (simp add: unat_word_ariths unat_of_nat)
  then have "page_bounds names ps tok = (i, min (i + unat ps) (length names))"
    using assms(3) start by (simp add: page_bounds_def)
  then show ?thesis
    using i(1) by (auto simp: page_of_def min_def)
qed

section \<open>All pages\<close>

text \<open>A client that asks for the next page until there is none.\<close>

fun all_pages :: "nat \<Rightarrow> os \<Rightarrow> ReflinkEngine \<Rightarrow> u64 \<Rightarrow> string option \<Rightarrow> volume_view list option" where
  "all_pages 0 E s ps tok = None"
| "all_pages (Suc fuel) E s ps tok = (case list_volumes E s ps tok of
       None \<Rightarrow> None
     | Some (vs, None, _) \<Rightarrow> Some vs
     | Some (vs, Some tok', _) \<Rightarrow> map_option (append vs) (all_pages fuel E s ps (Some tok')))"

lemma volume_names_props:
  assumes "distinct (map fst (name_index s))"
  shows "distinct (volume_names s)" "sorted (volume_names s)"
    "set (volume_names s) = {n. idx_get s n = Some Volume}"
  using assms by (force simp: volume_names_def idx_get_def distinct_map_filter image_iff)+

lemma collect_ok_total:
  "(\<And>x. x \<in> set xs \<Longrightarrow> f x = Inr (g x)) \<Longrightarrow> collect_ok f xs = map g xs"
  by (induction xs) (simp_all add: collect_ok_def List.map_filter_simps)

text \<open>What a listing says of one volume.\<close>

definition volume_entry :: "os \<Rightarrow> ReflinkEngine \<Rightarrow> string \<Rightarrow> volume_view" where
  "volume_entry E s n = (case project_volume E s n of Inr v \<Rightarrow> v)"

lemma volume_entry_ok:
  assumes E: "no_faults E" and ok: "engine_ok s" and n: "n \<in> set (volume_names s)"
  shows "project_volume E s n = Inr (volume_entry E s n)" "v_name (volume_entry E s n) = n"
    "view s n = Some (Volume, bs) \<Longrightarrow> v_size_bytes (volume_entry E s n) = of_nat (length bs)"
proof -
  have "idx_get s n = Some Volume"
    using n volume_names_props(3) [OF engine_okD(1) [OF ok]] by auto
  from view_Some [OF ok this] obtain x where
    x: "node_at (disk s) n n = Some (NFile x)" "view s n = Some (Volume, content x)" by auto
  from project_volume_ok [OF E x(1)] obtain v where v: "project_volume E s n = Inr v" by blast
  then show "project_volume E s n = Inr (volume_entry E s n)" by (simp add: volume_entry_def)
  from v show "v_name (volume_entry E s n) = n"
    "view s n = Some (Volume, bs) \<Longrightarrow> v_size_bytes (volume_entry E s n) = of_nat (length bs)"
    using x E by (auto simp: volume_entry_def project_volume_def fs_metadata_def result_bind_eq_Inr)
qed

lemma all_pages_from:
  assumes E: "no_faults E" and ok: "engine_ok s" and ps: "ps \<noteq> 0"
    and len: "length (volume_names s) + unat ps < 2 ^ 64"
  shows "token_at (volume_names s) i tok \<Longrightarrow> length (volume_names s) < fuel + i \<Longrightarrow>
    all_pages fuel E s ps tok = Some (map (volume_entry E s) (drop i (volume_names s)))"
proof (induction fuel arbitrary: i tok)
  case 0
  then show ?case by (auto simp: token_at_def)
next
  case (Suc fuel)
  let ?ns = "volume_names s"
  have d: "distinct ?ns" using volume_names_props(1) engine_okD(1) [OF ok] by blast
  have "collect_ok (project_volume E s) (take (unat ps) (drop i ?ns)) =
      map (volume_entry E s) (take (unat ps) (drop i ?ns))"
    by (rule collect_ok_total) (auto dest!: in_set_takeD in_set_dropD simp: volume_entry_ok(1) [OF E ok])
  then have page: "list_volumes E s ps tok = Some (map (volume_entry E s) (take (unat ps) (drop i ?ns)),
      if i + unat ps < length ?ns then Some (?ns ! (i + unat ps)) else None, length ?ns)"
    using page_of_token [OF d Suc.prems(1) ps len] by (simp add: list_volumes_def Let_def)
  show ?case
  proof (cases "i + unat ps < length ?ns")
    case True
    have "0 < unat ps" using ps by (simp add: unat_gt_0)
    then have "all_pages fuel E s ps (Some (?ns ! (i + unat ps))) =
        Some (map (volume_entry E s) (drop (i + unat ps) ?ns))"
      using Suc.IH [of "i + unat ps"] Suc.prems(2) True by (simp add: token_at_def)
    then have "all_pages (Suc fuel) E s ps tok = Some (map (volume_entry E s)
        (take (unat ps) (drop i ?ns) @ drop (unat ps) (drop i ?ns)))"
      using page True by (simp add: add.commute)
    then show ?thesis unfolding append_take_drop_id .
  next
    case False
    then show ?thesis using page by simp
  qed
qed

text \<open>
  C6. Paging is complete and duplicate-free: with any positive page size that does not
  overflow, a client that follows the page tokens gets a listing, it holds exactly the
  volumes of the store, each once and in ascending order of names, and each with the size of
  its bytes; one call more than there are volumes is enough.
\<close>

theorem paging_lists_every_volume_once:
  assumes "no_faults E" and "engine_ok s" and "ps \<noteq> 0"
    and "length (volume_names s) + unat ps < 2 ^ 64" and "length (volume_names s) < fuel"
  shows "\<exists>vs. all_pages fuel E s ps None = Some vs \<and> sorted (map v_name vs) \<and>
    distinct (map v_name vs) \<and> set (map v_name vs) = {n. \<exists>bs. view s n = Some (Volume, bs)} \<and>
    (\<forall>v \<in> set vs. \<forall>bs. view s (v_name v) = Some (Volume, bs) \<longrightarrow> v_size_bytes v = of_nat (length bs))"
proof -
  let ?vs = "map (volume_entry E s) (volume_names s)"
  note props = volume_names_props [OF engine_okD(1) [OF assms(2)]]
  have names: "map v_name ?vs = volume_names s"
    using volume_entry_ok(2) [OF assms(1,2)] by (simp add: map_idI)
  have "set (volume_names s) = {n. \<exists>bs. view s n = Some (Volume, bs)}"
    unfolding props(3) using view_Some [OF assms(2)] by (force simp: view_def store_of_def split: option.splits)
  moreover have "all_pages fuel E s ps None = Some ?vs"
    using all_pages_from [OF assms(1-4), of 0 None fuel] assms(5) by (simp add: token_at_def)
  moreover have "\<forall>v \<in> set ?vs. \<forall>bs. view s (v_name v) = Some (Volume, bs) \<longrightarrow>
      v_size_bytes v = of_nat (length bs)"
    using volume_entry_ok(2,3) [OF assms(1,2)] by auto
  ultimately show ?thesis
    using props(1,2) by (intro exI [of _ ?vs] conjI) (simp_all only: names)
qed

text \<open>C6, applied to three volumes, two to a page.\<close>

definition three_engine :: ReflinkEngine where
  "three_engine = snd (engine_run fresh_engine [(quiet_os, CreateVolume ''c'' 3),
     (quiet_os, CreateVolume ''a'' 1), (quiet_os, CreateVolume ''b'' 2)])"

theorem paging_lists_every_volume_once_witness:
  "volume_names three_engine = [''a'', ''b'', ''c''] \<and>
   (\<exists>vs. all_pages 4 quiet_os three_engine 2 None = Some vs \<and>
      set (map v_name vs) = {n. \<exists>bs. view three_engine n = Some (Volume, bs)})"
proof -
  have ok: "engine_ok three_engine"
    using reflink.run_inv [of "[(quiet_os, CreateVolume ''c'' 3), (quiet_os, CreateVolume ''a'' 1),
      (quiet_os, CreateVolume ''b'' 2)]" fresh_engine] unfolding three_engine_def engine_run_def by simp
  have n: "volume_names three_engine = [''a'', ''b'', ''c'']" by code_simp
  show ?thesis
    using paging_lists_every_volume_once [OF quiet_os_no_faults ok, of 2 4] n by auto
qed

section \<open>Limits\<close>

text \<open>A page size close to \<open>u64::MAX\<close> makes the end of a later page wrap below its start, and
  the slice of the names panics.\<close>

lemma huge_page_size_panics:
  "list_volumes quiet_os three_engine (- 1) (Some ''b'') = None"
  by code_simp

end
