(* ===== verification/Bytes.thy ===== *)
theory Bytes
  imports Prelude
begin

text \<open>
  Integers as bytes. The supported targets (x86-64 and aarch64) are little-endian, so the
  byte images of \<open>repr(C)\<close> structures and \<^verbatim>\<open>from_ne_bytes\<close> are little-endian here. A
  reader is the list of bytes that will arrive; \<^verbatim>\<open>read_exact\<close> takes a prefix of it or
  fails.
\<close>

fun from_le_bytes :: "u8 list \<Rightarrow> 'a::len word" where
  "from_le_bytes [] = 0"
| "from_le_bytes (b # bs) = ucast b OR push_bit 8 (from_le_bytes bs)"

definition to_le_bytes :: "nat \<Rightarrow> 'a::len word \<Rightarrow> u8 list" where
  "to_le_bytes n w = map (\<lambda>i. ucast (drop_bit (8 * i) w)) [0..<n]"

definition u16_bytes :: "u16 \<Rightarrow> u8 list" where "u16_bytes = to_le_bytes 2"
definition u64_bytes :: "u64 \<Rightarrow> u8 list" where "u64_bytes = to_le_bytes 8"

definition read_exact :: "nat \<Rightarrow> u8 list \<Rightarrow> (u8 list \<times> u8 list) option" where
  "read_exact n bs = (if n \<le> length bs then Some (take n bs, drop n bs) else None)"

lemma bit_from_le_bytes:
  "bit (from_le_bytes bs :: 'a::len word) k \<longleftrightarrow>
     k < LENGTH('a) \<and> k div 8 < length bs \<and> bit (bs ! (k div 8)) (k mod 8)"
proof (induction bs arbitrary: k)
  case (Cons b bs)
  show ?case
  proof (cases "k < 8")
    case True
    then show ?thesis by (simp add: bit_or_iff bit_push_bit_iff bit_ucast_iff)
  next
    case False
    then obtain j where k: "k = j + 8" by (metis add.commute le_Suc_ex not_less)
    have "\<not> bit b (j + 8)" using bit_imp_le_length [of b "j + 8"] by auto
    moreover have "(j + 8) div 8 = Suc (j div 8)" by simp
    ultimately show ?thesis using Cons.IH [of j]
      by (auto simp: k bit_or_iff bit_push_bit_iff bit_ucast_iff)
  qed
qed simp

lemma length_to_le_bytes [simp]: "length (to_le_bytes n w) = n"
  by (simp add: to_le_bytes_def)

lemma from_to_le_bytes:
  fixes w :: "'a::len word"
  assumes "LENGTH('a) = 8 * n"
  shows "from_le_bytes (to_le_bytes n w) = w"
proof (rule bit_word_eqI)
  fix k assume "k < LENGTH('a)"
  then have "k div 8 < n" using assms by linarith
  then have "to_le_bytes n w ! (k div 8) = ucast (drop_bit (8 * (k div 8)) w)"
    by (simp add: to_le_bytes_def)
  moreover have "8 * (k div 8) + k mod 8 = k" by simp
  ultimately show "bit (from_le_bytes (to_le_bytes n w) :: 'a word) k = bit w k"
    using \<open>k < LENGTH('a)\<close> \<open>k div 8 < n\<close>
    by (simp add: bit_from_le_bytes bit_ucast_iff bit_drop_bit_eq)
qed

lemma to_from_le_bytes:
  assumes "length bs = n" and "LENGTH('a) = 8 * n"
  shows "to_le_bytes n (from_le_bytes bs :: 'a::len word) = bs"
proof (rule nth_equalityI)
  fix i assume "i < length (to_le_bytes n (from_le_bytes bs :: 'a word))"
  then have i: "i < n" by simp
  show "to_le_bytes n (from_le_bytes bs :: 'a word) ! i = bs ! i"
  proof (rule bit_word_eqI)
    fix k :: nat assume k: "k < LENGTH(8)"
    then have "8 * i + k < LENGTH('a)" using i assms(2) by simp
    moreover have "(8 * i + k) div 8 = i" "(8 * i + k) mod 8 = k" using k by simp_all
    ultimately show "bit (to_le_bytes n (from_le_bytes bs :: 'a word) ! i) k = bit (bs ! i) k"
      using i k assms(1)
      by (simp add: to_le_bytes_def bit_ucast_iff bit_drop_bit_eq bit_from_le_bytes)
  qed
qed (use assms in simp)

lemma u64_bytes_roundtrip [simp]: "from_le_bytes (u64_bytes w) = w"
  by (simp add: u64_bytes_def from_to_le_bytes)

lemma u16_bytes_roundtrip [simp]: "from_le_bytes (u16_bytes w) = w"
  by (simp add: u16_bytes_def from_to_le_bytes)

lemma length_int_bytes [simp]: "length (u64_bytes w) = 8" "length (u16_bytes x) = 2"
  by (simp_all add: u64_bytes_def u16_bytes_def)

lemma read_exact_append [simp]:
  "length bs = n \<Longrightarrow> read_exact n (bs @ rest) = Some (bs, rest)"
  by (simp add: read_exact_def)

end
