(* ===== verification/Migration_Protocol.thy ===== *)
theory Migration_Protocol
  imports Bytes
begin

text \<open>
  The migration wire format (\<^verbatim>\<open>hypervisor/vm-migration/src/protocol.rs\<close>): requests and
  responses, each a 16-byte \<open>repr(C)\<close> image, and the table of memory ranges that precedes
  memory contents. Reading an image whose first field is not a discriminant of the
  enumeration is undefined behaviour in the source; a reader returns \<open>UB\<close> for it here.
\<close>

section \<open>Messages\<close>

datatype Command = Cmd_Invalid | Cmd_Start | Cmd_Config | Cmd_State | Cmd_Memory | Cmd_Complete
  | Cmd_Abandon | Cmd_MemoryFd

datatype Status = St_Invalid | St_Ok | St_Error

record Request =
  rq_command :: Command
  rq_padding :: "u8 list"
  rq_length :: u64

record Response =
  rs_status :: Status
  rs_padding :: "u8 list"
  rs_length :: u64

text \<open>What a read from the socket gives: a value and the rest of the stream, a socket error
  (end of stream inside \<^verbatim>\<open>read_exact\<close>), a failed assertion, or undefined behaviour.\<close>

datatype 'a received = Got 'a "u8 list" | MigrateSocket | Panic | UB

fun command_code :: "Command \<Rightarrow> u16" where
  "command_code Cmd_Invalid = 0"
| "command_code Cmd_Start = 1"
| "command_code Cmd_Config = 2"
| "command_code Cmd_State = 3"
| "command_code Cmd_Memory = 4"
| "command_code Cmd_Complete = 5"
| "command_code Cmd_Abandon = 6"
| "command_code Cmd_MemoryFd = 7"

definition commands :: "Command list" where
  "commands = [Cmd_Invalid, Cmd_Start, Cmd_Config, Cmd_State, Cmd_Memory, Cmd_Complete,
     Cmd_Abandon, Cmd_MemoryFd]"

fun status_code :: "Status \<Rightarrow> u16" where
  "status_code St_Invalid = 0"
| "status_code St_Ok = 1"
| "status_code St_Error = 2"

definition statuses :: "Status list" where
  "statuses = [St_Invalid, St_Ok, St_Error]"

definition request_new :: "Command \<Rightarrow> u64 \<Rightarrow> Request" where
  "request_new c n = \<lparr>rq_command = c, rq_padding = replicate 6 0, rq_length = n\<rparr>"

definition response_new :: "Status \<Rightarrow> u64 \<Rightarrow> Response" where
  "response_new st n = \<lparr>rs_status = st, rs_padding = replicate 6 0, rs_length = n\<rparr>"

definition request_bytes :: "Request \<Rightarrow> u8 list" where
  "request_bytes r = u16_bytes (command_code (rq_command r)) @ rq_padding r @ u64_bytes (rq_length r)"

definition response_bytes :: "Response \<Rightarrow> u8 list" where
  "response_bytes r = u16_bytes (status_code (rs_status r)) @ rs_padding r @ u64_bytes (rs_length r)"

definition request_read_from :: "u8 list \<Rightarrow> Request received" where
  "request_read_from fd = (case read_exact 16 fd of
       None \<Rightarrow> MigrateSocket
     | Some (img, rest) \<Rightarrow>
         (case find (\<lambda>c. command_code c = from_le_bytes (take 2 img)) commands of
            None \<Rightarrow> UB
          | Some c \<Rightarrow> Got \<lparr>rq_command = c, rq_padding = take 6 (drop 2 img),
                           rq_length = from_le_bytes (drop 8 img)\<rparr> rest))"

definition response_read_from :: "u8 list \<Rightarrow> Response received" where
  "response_read_from fd = (case read_exact 16 fd of
       None \<Rightarrow> MigrateSocket
     | Some (img, rest) \<Rightarrow>
         (case find (\<lambda>st. status_code st = from_le_bytes (take 2 img)) statuses of
            None \<Rightarrow> UB
          | Some st \<Rightarrow> Got \<lparr>rs_status = st, rs_padding = take 6 (drop 2 img),
                            rs_length = from_le_bytes (drop 8 img)\<rparr> rest))"

section \<open>Memory ranges\<close>

record MemoryRange =
  gpa :: u64
  mr_length :: u64

type_synonym MemoryRangeTable = "MemoryRange list"

definition SIZEOF_MEMORY_RANGE :: nat where "SIZEOF_MEMORY_RANGE = 16"

definition range_bytes :: "MemoryRange \<Rightarrow> u8 list" where
  "range_bytes r = u64_bytes (gpa r) @ u64_bytes (mr_length r)"

definition table_bytes :: "MemoryRangeTable \<Rightarrow> u8 list" where
  "table_bytes t = concat (map range_bytes t)"

definition table_length :: "MemoryRangeTable \<Rightarrow> u64" where
  "table_length t = of_nat (SIZEOF_MEMORY_RANGE * length t)"

definition new_from_tables :: "MemoryRangeTable list \<Rightarrow> MemoryRangeTable" where
  "new_from_tables tables = fold (\<lambda>t data. data @ t) tables []"

text \<open>The vector filled from its byte image, sixteen bytes a range.\<close>

fun ranges_of_bytes :: "nat \<Rightarrow> u8 list \<Rightarrow> MemoryRangeTable" where
  "ranges_of_bytes 0 bs = []"
| "ranges_of_bytes (Suc n) bs =
    \<lparr>gpa = from_le_bytes (take 8 bs), mr_length = from_le_bytes (take 8 (drop 8 bs))\<rparr>
      # ranges_of_bytes n (drop 16 bs)"

definition table_read_from :: "u8 list \<Rightarrow> u64 \<Rightarrow> MemoryRangeTable received" where
  "table_read_from fd len =
    (if unat len mod SIZEOF_MEMORY_RANGE \<noteq> 0 then Panic
     else case read_exact (unat len) fd of
       None \<Rightarrow> MigrateSocket
     | Some (img, rest) \<Rightarrow> Got (ranges_of_bytes (unat len div SIZEOF_MEMORY_RANGE) img) rest)"

section \<open>Round trips\<close>

lemma command_code_inj [simp]: "command_code c = command_code c' \<longleftrightarrow> c = c'"
  by (cases c; cases c') simp_all

lemma status_code_inj [simp]: "status_code c = status_code c' \<longleftrightarrow> c = c'"
  by (cases c; cases c') simp_all

lemma find_command [simp]: "find (\<lambda>c'. c' = c) commands = Some c"
  by (cases c) (simp_all add: commands_def)

lemma find_status [simp]: "find (\<lambda>c'. c' = c) statuses = Some c"
  by (cases c) (simp_all add: statuses_def)

lemma request_roundtrip:
  assumes "length (rq_padding r) = 6"
  shows "request_read_from (request_bytes r @ rest) = Got r rest"
proof -
  have "length (request_bytes r) = 16" using assms by (simp add: request_bytes_def)
  then have "read_exact 16 (request_bytes r @ rest) = Some (request_bytes r, rest)" by simp
  then show ?thesis
    using assms unfolding request_read_from_def by (simp add: request_bytes_def)
qed

lemma response_roundtrip:
  assumes "length (rs_padding r) = 6"
  shows "response_read_from (response_bytes r @ rest) = Got r rest"
proof -
  have "length (response_bytes r) = 16" using assms by (simp add: response_bytes_def)
  then have "read_exact 16 (response_bytes r @ rest) = Some (response_bytes r, rest)" by simp
  then show ?thesis
    using assms unfolding response_read_from_def by (simp add: response_bytes_def)
qed

lemma length_range_bytes [simp]: "length (range_bytes r) = 16"
  by (simp add: range_bytes_def)

lemma length_table_bytes [simp]: "length (table_bytes t) = SIZEOF_MEMORY_RANGE * length t"
  by (induction t) (simp_all add: table_bytes_def SIZEOF_MEMORY_RANGE_def)

lemma ranges_of_table_bytes: "ranges_of_bytes (length t) (table_bytes t @ rest) = t"
  by (induction t) (simp_all add: table_bytes_def range_bytes_def)

lemma table_roundtrip:
  assumes "SIZEOF_MEMORY_RANGE * length t < 2 ^ 64"
  shows "table_read_from (table_bytes t @ rest) (table_length t) = Got t rest"
proof -
  have "unat (table_length t) = SIZEOF_MEMORY_RANGE * length t"
    using assms by (simp add: table_length_def unat_of_nat del: of_nat_mult)
  then show ?thesis
    using ranges_of_table_bytes [of t "[]"]
    by (simp add: table_read_from_def SIZEOF_MEMORY_RANGE_def)
qed

text \<open>
  C7. The memory message of a migration is read back as it was written: the request that
  announces the table, the table itself and whatever follows on the stream (the memory
  contents), for every table that fits the length field.
\<close>

theorem memory_message_roundtrip:
  assumes "SIZEOF_MEMORY_RANGE * length t < 2 ^ 64"
  shows "case request_read_from
      (request_bytes (request_new Cmd_Memory (table_length t)) @ table_bytes t @ contents) of
    Got r rest \<Rightarrow> r = request_new Cmd_Memory (table_length t) \<and>
      table_read_from rest (rq_length r) = Got t contents
  | _ \<Rightarrow> False"
  using table_roundtrip [OF assms, of contents]
    request_roundtrip [of "request_new Cmd_Memory (table_length t)" "table_bytes t @ contents"]
  by (simp add: request_new_def)

text \<open>C7, applied to a table of two ranges followed by one byte.\<close>

theorem memory_message_roundtrip_witness:
  "SIZEOF_MEMORY_RANGE * length [\<lparr>gpa = 0x1000, mr_length = 2\<rparr>, \<lparr>gpa = 0x8000, mr_length = 1\<rparr>] < 2 ^ 64 \<and>
   (case request_read_from (request_bytes (request_new Cmd_Memory
        (table_length [\<lparr>gpa = 0x1000, mr_length = 2\<rparr>, \<lparr>gpa = 0x8000, mr_length = 1\<rparr>])) @
      table_bytes [\<lparr>gpa = 0x1000, mr_length = 2\<rparr>, \<lparr>gpa = 0x8000, mr_length = 1\<rparr>] @ [7]) of
    Got r rest \<Rightarrow> table_read_from rest (rq_length r) =
      Got [\<lparr>gpa = 0x1000, mr_length = 2\<rparr>, \<lparr>gpa = 0x8000, mr_length = 1\<rparr>] [7]
  | _ \<Rightarrow> False)"
  using memory_message_roundtrip [of "[\<lparr>gpa = 0x1000, mr_length = 2\<rparr>, \<lparr>gpa = 0x8000, mr_length = 1\<rparr>]" "[7]"]
  by (simp add: SIZEOF_MEMORY_RANGE_def split: received.splits)

end
