(* ===== verification/Page_Ranges.thy ===== *)
theory Page_Ranges
  imports Migration_Protocol
begin

text \<open>
  From page bitmaps to memory ranges: \<^verbatim>\<open>coalesce_pages_to_ranges\<close>
  (\<^verbatim>\<open>hypervisor/vmm/src/pagemap_anon.rs\<close>) and \<^verbatim>\<open>MemoryRangeTable::from_bitmap\<close>
  (\<^verbatim>\<open>hypervisor/vm-migration/src/protocol.rs\<close>), two loops that merge neighbouring set pages.
  Both are shown to compute the maximal runs of set pages, and so to agree.
\<close>

section \<open>The two loops\<close>

text \<open>The state of the first loop: ranges so far, pages counted, start and length of the run
  in progress.\<close>

fun coalesce_loop :: "u64 \<Rightarrow> u64 \<Rightarrow> nat \<Rightarrow> bool list \<Rightarrow> MemoryRange list \<Rightarrow> u64 \<Rightarrow> u64 option \<Rightarrow> u64
    \<Rightarrow> MemoryRange list \<times> u64" where
  "coalesce_loop g page_size page_idx [] ranges set_pages start len =
    (case start of Some st \<Rightarrow> (ranges @ [\<lparr>gpa = st, mr_length = len\<rparr>], set_pages)
     | None \<Rightarrow> (ranges, set_pages))"
| "coalesce_loop g page_size page_idx (b # bs) ranges set_pages start len =
    (let page_gpa = g + of_nat page_idx * page_size in
     if b then
       (case start of
          None \<Rightarrow> coalesce_loop g page_size (Suc page_idx) bs ranges (set_pages + 1)
                    (Some page_gpa) page_size
        | Some st \<Rightarrow> coalesce_loop g page_size (Suc page_idx) bs ranges (set_pages + 1)
                    (Some st) (len + page_size))
     else
       (case start of
          Some st \<Rightarrow> coalesce_loop g page_size (Suc page_idx) bs
                    (ranges @ [\<lparr>gpa = st, mr_length = len\<rparr>]) set_pages None 0
        | None \<Rightarrow> coalesce_loop g page_size (Suc page_idx) bs ranges set_pages None len))"

definition coalesce_pages_to_ranges :: "u64 \<Rightarrow> bool list \<Rightarrow> u64 \<Rightarrow> MemoryRange list \<times> u64" where
  "coalesce_pages_to_ranges g bitmap page_size = coalesce_loop g page_size 0 bitmap [] 0 None 0"

text \<open>One bit of \<open>from_bitmap\<close>: the table so far and the entry in progress.\<close>

definition from_bitmap_bit :: "u64 \<Rightarrow> u64 \<Rightarrow> nat \<Rightarrow> u64 \<Rightarrow> nat
    \<Rightarrow> MemoryRangeTable \<times> MemoryRange option \<Rightarrow> MemoryRangeTable \<times> MemoryRange option" where
  "from_bitmap_bit start_addr page_size i block j = (\<lambda>(table, entry).
     let is_page_dirty = (drop_bit j block AND 1 \<noteq> 0);
         page_offset = of_nat (i * 64 + j) * page_size
     in if is_page_dirty then
          (case entry of
             Some e \<Rightarrow> (table, Some (e\<lparr>mr_length := mr_length e + page_size\<rparr>))
           | None \<Rightarrow> (table, Some \<lparr>gpa = start_addr + page_offset, mr_length = page_size\<rparr>))
        else (case entry of Some e \<Rightarrow> (table @ [e], None) | None \<Rightarrow> (table, None)))"

definition from_bitmap :: "u64 list \<Rightarrow> u64 \<Rightarrow> u64 \<Rightarrow> MemoryRangeTable" where
  "from_bitmap bitmap start_addr page_size =
    (case fold (\<lambda>(i, block). fold (from_bitmap_bit start_addr page_size i block) [0..<64])
            (enumerate 0 bitmap) ([], None) of
       (table, Some e) \<Rightarrow> table @ [e]
     | (table, None) \<Rightarrow> table)"

section \<open>Maximal runs\<close>

text \<open>The runs of set pages of a bitmap whose first page has index \<open>i\<close>, as pairs of an index
  and a number of pages.\<close>

fun join_run :: "nat \<Rightarrow> nat \<Rightarrow> (nat \<times> nat) list \<Rightarrow> (nat \<times> nat) list" where
  "join_run j m ((k, n) # rs) = (if k = j + m then (j, m + n) # rs else (j, m) # (k, n) # rs)"
| "join_run j m [] = [(j, m)]"

fun page_runs :: "nat \<Rightarrow> bool list \<Rightarrow> (nat \<times> nat) list" where
  "page_runs i [] = []"
| "page_runs i (True # bs) = join_run i 1 (page_runs (Suc i) bs)"
| "page_runs i (False # bs) = page_runs (Suc i) bs"

definition range_of_run :: "u64 \<Rightarrow> u64 \<Rightarrow> nat \<times> nat \<Rightarrow> MemoryRange" where
  "range_of_run g page_size = (\<lambda>(i, n). \<lparr>gpa = g + of_nat i * page_size, mr_length = of_nat n * page_size\<rparr>)"

definition pages_of :: "(nat \<times> nat) list \<Rightarrow> nat set" where
  "pages_of rs = (\<Union>(i, n) \<in> set rs. {i..<i + n})"

lemma join_run_join: "join_run j m (join_run (j + m) n rs) = join_run j (m + n) rs"
  by (cases rs) (auto simp: add.assoc)

lemma page_runs_ge: "(k, n) \<in> set (page_runs i bs) \<Longrightarrow> i \<le> k \<and> 0 < n \<and> k + n \<le> i + length bs"
proof (induction i bs arbitrary: k n rule: page_runs.induct)
  case (2 i bs)
  then show ?case by (cases "page_runs (Suc i) bs") (fastforce split: if_splits)+
qed fastforce+

lemma join_run_gap: "join_run j m (page_runs (Suc (j + m)) bs) = (j, m) # page_runs (Suc (j + m)) bs"
proof (cases "page_runs (Suc (j + m)) bs")
  case (Cons r rs)
  obtain k n where r: "r = (k, n)" by (cases r)
  have "Suc (j + m) \<le> k" using page_runs_ge [of k n "Suc (j + m)" bs] Cons r by simp
  then show ?thesis using Cons r by simp
qed simp

lemma coalesce_loop_runs:
  "coalesce_loop g ps i bs rs c None l =
     (rs @ map (range_of_run g ps) (page_runs i bs), c + of_nat (length (filter id bs)))"
  "i = j + m \<Longrightarrow> coalesce_loop g ps i bs rs c (Some (g + of_nat j * ps)) (of_nat m * ps) =
     (rs @ map (range_of_run g ps) (join_run j m (page_runs i bs)), c + of_nat (length (filter id bs)))"
proof (induction bs arbitrary: i rs c l j m)
  case Nil
  {
    case 1
    then show ?case by simp
  next
    case 2
    then show ?case by (simp add: range_of_run_def)
  }
next
  case (Cons b bs)
  {
    case 1
    show ?case
      using Cons.IH(1) [of "Suc i"] Cons.IH(2) [of "Suc i" i 1 rs "c + 1"]
      by (cases b) (simp_all add: algebra_simps)
  next
    case 2
    have j: "join_run j m (join_run i 1 (page_runs (Suc i) bs)) = join_run j (Suc m) (page_runs (Suc i) bs)"
      using join_run_join [of j m 1] 2 by simp
    show ?case
      using Cons.IH(1) [of "Suc i"] Cons.IH(2) [of "Suc i" j "Suc m" rs "c + 1"] 2 j
        join_run_gap [of j m bs]
      by (cases b) (simp_all add: algebra_simps range_of_run_def)
  }
qed

lemma coalesce_runs:
  "coalesce_pages_to_ranges g bitmap ps =
     (map (range_of_run g ps) (page_runs 0 bitmap), of_nat (length (filter id bitmap)))"
  by (simp add: coalesce_pages_to_ranges_def coalesce_loop_runs(1))

lemma pages_of_Cons [simp]: "pages_of ((i, n) # rs) = {i..<i + n} \<union> pages_of rs"
  by (simp add: pages_of_def)

lemma pages_of_Nil [simp]: "pages_of [] = {}"
  by (simp add: pages_of_def)

lemma pages_of_join: "pages_of (join_run j m rs) = {j..<j + m} \<union> pages_of rs"
  by (cases "(j, m, rs)" rule: join_run.cases) auto

lemma nth_shift: "i < k \<Longrightarrow> (b # bs) ! (k - i) = bs ! (k - Suc i)"
  by (metis Suc_diff_Suc nth_Cons_Suc)

lemma in_pages_of_runs:
  "k \<in> pages_of (page_runs i bs) \<longleftrightarrow> i \<le> k \<and> k < i + length bs \<and> bs ! (k - i)"
proof (induction i bs rule: page_runs.induct)
  case (2 i bs)
  then show ?case
    by (cases "i < k") (simp_all add: pages_of_join nth_shift Suc_le_eq, auto)
next
  case (3 i bs)
  then show ?case by (cases "i < k") (auto simp: nth_shift Suc_le_eq)
qed simp

text \<open>Between two runs there is at least one clear page.\<close>

lemma page_runs_apart: "sorted_wrt (\<lambda>(i, n) (k, _). i + n < k) (page_runs i bs)"
proof (induction i bs rule: page_runs.induct)
  case (2 i bs)
  show ?case
  proof (cases "page_runs (Suc i) bs")
    case (Cons r rs)
    have "(k, n) \<in> set (r # rs) \<Longrightarrow> Suc i \<le> k" for k n
      using page_runs_ge [of k n "Suc i" bs] Cons by simp
    then show ?thesis using 2 Cons by (cases r) fastforce
  qed simp
qed simp_all

lemma no_wrap_run:
  fixes g ps :: u64
  assumes "(i, n) \<in> set (page_runs 0 bitmap)" and "unat g + length bitmap * unat ps < 2 ^ 64"
  shows "unat (gpa (range_of_run g ps (i, n))) = unat g + i * unat ps"
    "unat (mr_length (range_of_run g ps (i, n))) = n * unat ps"
proof -
  have "(i + n) * unat ps \<le> length bitmap * unat ps"
    using page_runs_ge [OF assms(1)] by (intro mult_right_mono) auto
  then have b: "unat g + (i * unat ps + n * unat ps) < 2 ^ 64"
    using assms(2) by (simp add: add_mult_distrib)
  have m: "unat (of_nat k * ps) = k * unat ps" if "k * unat ps < 2 ^ 64" for k
    using that by (simp add: unat_word_ariths unat_of_nat mod_mult_left_eq)
  show "unat (mr_length (range_of_run g ps (i, n))) = n * unat ps"
    using b m [of n] by (simp add: range_of_run_def)
  show "unat (gpa (range_of_run g ps (i, n))) = unat g + i * unat ps"
    using b m [of i] by (simp add: range_of_run_def unat_add_no_wrap)
qed

definition covers :: "MemoryRange list \<Rightarrow> nat \<Rightarrow> bool" where
  "covers rs a \<longleftrightarrow> list_ex (\<lambda>r. unat (gpa r) \<le> a \<and> a < unat (gpa r) + unat (mr_length r)) rs"

text \<open>The bytes of a run of pages are the bytes of its pages.\<close>

lemma run_bytes:
  fixes p :: nat assumes "0 < p"
  shows "i * p \<le> a \<and> a < (i + n) * p \<longleftrightarrow> (\<exists>k \<in> {i..<i + n}. k * p \<le> a \<and> a < Suc k * p)"
proof
  assume a: "i * p \<le> a \<and> a < (i + n) * p"
  then have "i \<le> a div p" "a div p < i + n"
    using assms by (simp_all add: less_eq_div_iff_mult_less_eq div_less_iff_less_mult)
  moreover have "a div p * p \<le> a \<and> a < Suc (a div p) * p"
    using assms by (metis div_times_less_eq_dividend dividend_less_times_div mult.commute mult_Suc)
  ultimately show "\<exists>k \<in> {i..<i + n}. k * p \<le> a \<and> a < Suc k * p"
    by (intro bexI [of _ "a div p"]) simp_all
next
  assume "\<exists>k \<in> {i..<i + n}. k * p \<le> a \<and> a < Suc k * p"
  then obtain k where k: "i \<le> k" "Suc k \<le> i + n" "k * p \<le> a" "a < Suc k * p" by auto
  from k(1,2) have "i * p \<le> k * p" "Suc k * p \<le> (i + n) * p" by (simp_all only: mult_le_mono1)
  with k(3,4) show "i * p \<le> a \<and> a < (i + n) * p" by linarith
qed

lemma covers_coalesce:
  fixes g ps :: u64
  assumes fit: "unat g + length bitmap * unat ps < 2 ^ 64" and ps: "0 < ps"
  shows "covers (fst (coalesce_pages_to_ranges g bitmap ps)) a \<longleftrightarrow>
    (\<exists>i < length bitmap. bitmap ! i \<and> unat g + i * unat ps \<le> a \<and> a < unat g + Suc i * unat ps)"
proof -
  let ?p = "unat ps"
  have p: "0 < ?p" using ps by (simp add: word_less_nat_alt)
  have e: "unat g \<le> a \<and> k * ?p \<le> a - unat g \<and> a - unat g < Suc k * ?p \<longleftrightarrow>
      unat g + k * ?p \<le> a \<and> a < unat g + Suc k * ?p" for k by auto
  have "covers (fst (coalesce_pages_to_ranges g bitmap ps)) a \<longleftrightarrow>
      (\<exists>x \<in> set (page_runs 0 bitmap). unat g \<le> a \<and> (\<exists>k \<in> {fst x..<fst x + snd x}.
         k * ?p \<le> a - unat g \<and> a - unat g < Suc k * ?p))"
    unfolding coalesce_runs covers_def list_ex_iff fst_conv set_map bex_simps(7)
  proof (rule bex_cong [OF refl])
    fix x assume x: "x \<in> set (page_runs 0 bitmap)"
    obtain i n where xi: "x = (i, n)" by (cases x)
    have "unat (gpa (range_of_run g ps x)) = unat g + i * ?p"
      "unat (mr_length (range_of_run g ps x)) = n * ?p"
      using no_wrap_run [OF _ fit, of i n] x xi by simp_all
    then show "unat (gpa (range_of_run g ps x)) \<le> a \<and>
        a < unat (gpa (range_of_run g ps x)) + unat (mr_length (range_of_run g ps x)) \<longleftrightarrow>
      unat g \<le> a \<and> (\<exists>k \<in> {fst x..<fst x + snd x}. k * ?p \<le> a - unat g \<and> a - unat g < Suc k * ?p)"
      using run_bytes [OF p, of i "a - unat g" n] xi by (auto simp: add_mult_distrib)
  qed
  also have "\<dots> \<longleftrightarrow> unat g \<le> a \<and> (\<exists>k \<in> pages_of (page_runs 0 bitmap).
      k * ?p \<le> a - unat g \<and> a - unat g < Suc k * ?p)"
    by (auto simp: pages_of_def split_beta)
  also have "\<dots> \<longleftrightarrow> (\<exists>i < length bitmap. bitmap ! i \<and> unat g + i * ?p \<le> a \<and> a < unat g + Suc i * ?p)"
    using e by (simp add: Bex_def in_pages_of_runs) blast
  finally show ?thesis .
qed

lemma coalesce_range:
  fixes g ps :: u64
  assumes "unat g + length bitmap * unat ps < 2 ^ 64"
    and "r \<in> set (fst (coalesce_pages_to_ranges g bitmap ps))"
  shows "\<exists>i n. unat (gpa r) = unat g + i * unat ps \<and> unat (mr_length r) = n * unat ps \<and>
    0 < n \<and> i + n \<le> length bitmap"
proof -
  obtain i n where "(i, n) \<in> set (page_runs 0 bitmap)" "r = range_of_run g ps (i, n)"
    using assms(2) by (auto simp: coalesce_runs)
  then show ?thesis using no_wrap_run [OF _ assms(1)] page_runs_ge [of i n 0 bitmap] by auto
qed

lemma coalesce_sorted:
  fixes g ps :: u64
  assumes fit: "unat g + length bitmap * unat ps < 2 ^ 64" and p: "0 < ps"
  shows "sorted_wrt (\<lambda>r r'. unat (gpa r) + unat (mr_length r) < unat (gpa r'))
    (fst (coalesce_pages_to_ranges g bitmap ps))"
  unfolding coalesce_runs fst_conv sorted_wrt_map
proof (rule sorted_wrt_mono_rel [OF _ page_runs_apart [of 0 bitmap]])
  fix x y :: "nat \<times> nat"
  assume x: "x \<in> set (page_runs 0 bitmap)" and y: "y \<in> set (page_runs 0 bitmap)"
    and lt: "(case x of (i, n) \<Rightarrow> \<lambda>(k, _). i + n < k) y"
  obtain i n k m where xy: "x = (i, n)" "y = (k, m)" by (cases x, cases y)
  have "(i + n) * unat ps < k * unat ps" using lt xy p by (simp add: word_less_nat_alt)
  then show "unat (gpa (range_of_run g ps x)) + unat (mr_length (range_of_run g ps x))
      < unat (gpa (range_of_run g ps y))"
    using no_wrap_run [OF _ fit] x y xy by (simp add: add_mult_distrib)
qed

text \<open>
  C8. \<open>coalesce_pages_to_ranges\<close> is exact and minimal: when the region does not reach the end
  of the address space, the ranges cover precisely the bytes of the set pages, they are in
  ascending order, none is empty and no two touch (so no coarser list of ranges would do),
  and the page count is the number of set pages.
\<close>

theorem coalesce_exact:
  assumes "unat g + length bitmap * unat ps < 2 ^ 64" and "0 < ps"
    and "coalesce_pages_to_ranges g bitmap ps = (ranges, n)"
  shows "(\<forall>a. covers ranges a \<longleftrightarrow> (\<exists>i < length bitmap. bitmap ! i \<and>
        unat g + i * unat ps \<le> a \<and> a < unat g + Suc i * unat ps)) \<and>
    sorted_wrt (\<lambda>r r'. unat (gpa r) + unat (mr_length r) < unat (gpa r')) ranges \<and>
    (\<forall>r \<in> set ranges. 0 < mr_length r) \<and> n = of_nat (length (filter id bitmap))"
proof (intro conjI)
  have r: "ranges = fst (coalesce_pages_to_ranges g bitmap ps)" using assms(3) by simp
  show "\<forall>a. covers ranges a \<longleftrightarrow> (\<exists>i < length bitmap. bitmap ! i \<and>
        unat g + i * unat ps \<le> a \<and> a < unat g + Suc i * unat ps)"
    unfolding r using covers_coalesce [OF assms(1,2)] by simp
  show "sorted_wrt (\<lambda>r r'. unat (gpa r) + unat (mr_length r) < unat (gpa r')) ranges"
    unfolding r by (rule coalesce_sorted [OF assms(1,2)])
  show "\<forall>r \<in> set ranges. 0 < mr_length r"
    unfolding r using coalesce_range [OF assms(1)] assms(2) by (fastforce simp: word_less_nat_alt)
  show "n = of_nat (length (filter id bitmap))" using assms(3) by (simp add: coalesce_runs)
qed

text \<open>C8, applied to a bitmap of 64 KiB pages with two runs.\<close>

theorem coalesce_exact_witness:
  "coalesce_pages_to_ranges 0x10000 [True, True, False, True] 0x10000 =
     ([\<lparr>gpa = 0x10000, mr_length = 0x20000\<rparr>, \<lparr>gpa = 0x40000, mr_length = 0x10000\<rparr>], 3) \<and>
   covers [\<lparr>gpa = 0x10000, mr_length = 0x20000\<rparr>, \<lparr>gpa = 0x40000, mr_length = 0x10000\<rparr>] 0x2FFFF"
proof -
  have c: "coalesce_pages_to_ranges 0x10000 [True, True, False, True] 0x10000 =
     ([\<lparr>gpa = 0x10000, mr_length = 0x20000\<rparr>, \<lparr>gpa = 0x40000, mr_length = 0x10000\<rparr>], 3)"
    by code_simp
  have "covers [\<lparr>gpa = 0x10000, mr_length = 0x20000\<rparr>, \<lparr>gpa = 0x40000, mr_length = 0x10000\<rparr>] 0x2FFFF"
    using coalesce_exact [OF _ _ c] by (auto intro!: exI [of _ "1 :: nat"])
  with c show ?thesis by blast
qed

section \<open>Agreement of the two loops\<close>

text \<open>Both loops over a flat list of bits.\<close>

definition bit_step :: "u64 \<Rightarrow> u64 \<Rightarrow> nat \<times> bool \<Rightarrow> MemoryRangeTable \<times> MemoryRange option
    \<Rightarrow> MemoryRangeTable \<times> MemoryRange option" where
  "bit_step g ps = (\<lambda>(k, b) (table, entry). if b then
       (case entry of
          Some e \<Rightarrow> (table, Some (e\<lparr>mr_length := mr_length e + ps\<rparr>))
        | None \<Rightarrow> (table, Some \<lparr>gpa = g + of_nat k * ps, mr_length = ps\<rparr>))
     else (case entry of Some e \<Rightarrow> (table @ [e], None) | None \<Rightarrow> (table, None)))"

lemma bit_step_simps [simp]:
  "bit_step g ps (k, True) (table, Some e) = (table, Some (e\<lparr>mr_length := mr_length e + ps\<rparr>))"
  "bit_step g ps (k, True) (table, None) = (table, Some \<lparr>gpa = g + of_nat k * ps, mr_length = ps\<rparr>)"
  "bit_step g ps (k, False) (table, Some e) = (table @ [e], None)"
  "bit_step g ps (k, False) (table, None) = (table, None)"
  by (simp_all add: bit_step_def)

definition block_bits :: "u64 \<Rightarrow> bool list" where
  "block_bits block = map (bit block) [0..<64]"

lemma from_bitmap_bit_step: "from_bitmap_bit g ps i block j = bit_step g ps (i * 64 + j, bit block j)"
proof -
  have "(drop_bit j block AND 1 \<noteq> 0) = bit block j"
    by (simp add: and_one_eq bit_iff_odd_drop_bit odd_iff_mod_2_eq_one)
  then show ?thesis
    by (auto simp: from_bitmap_bit_def bit_step_def fun_eq_iff split: option.splits)
qed

lemma fold_block: "fold (from_bitmap_bit g ps i block) [0..<64] =
    fold (bit_step g ps) (enumerate (i * 64) (block_bits block))"
proof -
  have "enumerate (i * 64) (block_bits block) = map (\<lambda>j. (i * 64 + j, bit block j)) [0..<64]"
    by (rule nth_equalityI) (simp_all add: block_bits_def nth_enumerate_eq)
  moreover have "from_bitmap_bit g ps i block = (\<lambda>j. bit_step g ps (i * 64 + j, bit block j))"
    by (rule ext) (rule from_bitmap_bit_step)
  ultimately show ?thesis by (simp add: fold_map comp_def)
qed

lemma fold_blocks: "fold (\<lambda>(i, block). fold (from_bitmap_bit g ps i block) [0..<64]) (enumerate i blocks) =
    fold (bit_step g ps) (enumerate (i * 64) (concat (map block_bits blocks)))"
proof (induction blocks arbitrary: i)
  case (Cons block blocks)
  have "length (block_bits block) = 64" by (simp add: block_bits_def)
  then show ?case
    using Cons [of "Suc i"] by (simp add: fold_block enumerate_append_eq add.commute)
qed simp

lemma range_eta [simp]: "\<lparr>gpa = gpa r, mr_length = mr_length r\<rparr> = (r :: MemoryRange)"
  by simp

lemma bit_step_coalesce:
  "(case fold (bit_step g ps) (enumerate k bs) (rs, entry) of
      (table, Some e) \<Rightarrow> table @ [e] | (table, None) \<Rightarrow> table) =
   fst (coalesce_loop g ps k bs rs c (map_option gpa entry)
     (case entry of Some e \<Rightarrow> mr_length e | None \<Rightarrow> l))"
proof (induction bs arbitrary: k rs entry c l)
  case (Cons b bs)
  show ?case
    using Cons [of "Suc k" rs "Some \<lparr>gpa = g + of_nat k * ps, mr_length = ps\<rparr>" "c + 1"]
      Cons [of "Suc k" rs None c l] Cons [of "Suc k" "rs @ [the entry]" None c 0]
      Cons [of "Suc k" rs "Some ((the entry)\<lparr>mr_length := mr_length (the entry) + ps\<rparr>)" "c + 1"]
    by (cases entry; cases b) simp_all
qed (auto split: option.splits)

lemma from_bitmap_coalesce:
  "from_bitmap bitmap start_addr ps =
     fst (coalesce_pages_to_ranges start_addr (concat (map block_bits bitmap)) ps)"
  using bit_step_coalesce [of start_addr ps 0 "concat (map block_bits bitmap)" "[]" None 0 0]
  by (simp add: from_bitmap_def coalesce_pages_to_ranges_def fold_blocks)

lemma length_block_bits: "length (concat (map block_bits bitmap)) = 64 * length bitmap"
  by (induction bitmap) (simp_all add: block_bits_def)

lemma nth_block_bits:
  "k div 64 < length bitmap \<Longrightarrow> concat (map block_bits bitmap) ! k = bit (bitmap ! (k div 64)) (k mod 64)"
proof (induction bitmap arbitrary: k)
  case (Cons b bitmap)
  have l: "length (block_bits b) = 64" by (simp add: block_bits_def)
  show ?case
  proof (cases "k < 64")
    case True
    then show ?thesis using l by (simp add: nth_append block_bits_def)
  next
    case False
    then obtain j where k: "k = j + 64" by (metis add.commute le_Suc_ex not_less)
    have "(j + 64) div 64 = Suc (j div 64)" "(j + 64) mod 64 = j mod 64" by simp_all
    then show ?thesis using Cons.IH [of j] Cons.prems l by (simp add: k nth_append)
  qed
qed simp

text \<open>
  C9. The two implementations agree: a dirty-log bitmap of 64-bit blocks gives the same
  table through \<open>from_bitmap\<close> as its bits through \<open>coalesce_pages_to_ranges\<close>, for every bitmap,
  base address and page size, wrap-around included.
\<close>

theorem from_bitmap_is_coalesce:
  "from_bitmap bitmap start_addr ps =
     fst (coalesce_pages_to_ranges start_addr (concat (map block_bits bitmap)) ps)"
  by (rule from_bitmap_coalesce)

end
