(* ===== verification/Page_Tracking.thy ===== *)
theory Page_Tracking
  imports Page_Ranges Host_Fs
begin

text \<open>
  Which guest pages an incremental snapshot must write: the readers of
  \<^verbatim>\<open>/proc/self/pagemap\<close> and \<^verbatim>\<open>/proc/kpageflags\<close> and the filters built on them
  (\<^verbatim>\<open>hypervisor/vmm/src/pagemap_anon.rs\<close>, \<^verbatim>\<open>hypervisor/vmm/src/soft_dirty.rs\<close>). The kernel is
  a parameter: what opening, seeking and reading the two files does. The host page size and
  the translation of guest to host addresses (\<^verbatim>\<open>vm-memory\<close>) are parameters too.
\<close>

section \<open>The kernel's files\<close>

record proc =
  open_fault :: "string \<Rightarrow> io_error option"
  seek_fault :: "string \<Rightarrow> u64 \<Rightarrow> io_error option"
  write_fault :: "string \<Rightarrow> io_error option"
  read_at :: "string \<Rightarrow> u64 \<Rightarrow> nat \<Rightarrow> io_error + u8 list"

definition PAGEMAP :: string where "PAGEMAP = ''/proc/self/pagemap''"
definition KPAGEFLAGS :: string where "KPAGEFLAGS = ''/proc/kpageflags''"
definition CLEAR_REFS :: string where "CLEAR_REFS = ''/proc/self/clear_refs''"

definition PAGEMAP_ENTRY_SIZE :: u64 where "PAGEMAP_ENTRY_SIZE = 8"
definition KPAGEFLAGS_ENTRY_SIZE :: u64 where "KPAGEFLAGS_ENTRY_SIZE = 8"
definition PAGEMAP_PRESENT_BIT :: u64 where "PAGEMAP_PRESENT_BIT = push_bit 63 1"
definition PAGEMAP_SWAPPED_BIT :: u64 where "PAGEMAP_SWAPPED_BIT = push_bit 62 1"
definition PAGEMAP_SOFT_DIRTY_BIT :: u64 where "PAGEMAP_SOFT_DIRTY_BIT = push_bit 55 1"
definition PAGEMAP_PFN_MASK :: u64 where "PAGEMAP_PFN_MASK = push_bit 55 1 - 1"
definition KPF_ANON :: u64 where "KPF_ANON = push_bit 12 1"

datatype PagemapAnonError = OpenFailed string io_error | ReadFailed string io_error
  | SeekFailed string io_error | GetHostAddressFailed | NotPageAligned | NoCapSysAdmin

datatype SoftDirtyError = SdOpenFailed string io_error | SdReadFailed string io_error
  | SdSeekFailed string io_error | SdWriteFailed string io_error | SdGetHostAddressFailed
  | SdNotPageAligned | AnonProbe PagemapAnonError

text \<open>Entry \<open>i\<close> of the buffer read from the pagemap.\<close>

definition pagemap_entry :: "u8 list \<Rightarrow> nat \<Rightarrow> u64" where
  "pagemap_entry buf i = from_le_bytes (take 8 (drop (8 * i) buf))"

section \<open>Anonymous pages\<close>

text \<open>The body of the loop in \<open>get_anon_pages\<close>, for one pagemap entry.\<close>

definition anon_entry :: "proc \<Rightarrow> u64 \<Rightarrow> PagemapAnonError + bool" where
  "anon_entry PR entry =
    (let present = (entry AND PAGEMAP_PRESENT_BIT \<noteq> 0);
         swapped = (entry AND PAGEMAP_SWAPPED_BIT \<noteq> 0)
     in if swapped then Inr True
        else if \<not> present then Inr False
        else let pfn = entry AND PAGEMAP_PFN_MASK in
          if pfn = 0 then Inl NoCapSysAdmin
          else let kpageflags_offset = pfn * KPAGEFLAGS_ENTRY_SIZE in
            (case seek_fault PR KPAGEFLAGS kpageflags_offset of
               Some e \<Rightarrow> Inl (SeekFailed KPAGEFLAGS e)
             | None \<Rightarrow> (case read_at PR KPAGEFLAGS kpageflags_offset (unat KPAGEFLAGS_ENTRY_SIZE) of
                 Inl e \<Rightarrow> Inl (ReadFailed KPAGEFLAGS e)
               | Inr buf \<Rightarrow> Inr ((from_le_bytes buf :: u64) AND KPF_ANON \<noteq> 0))))"

definition get_anon_pages :: "proc \<Rightarrow> u64 \<Rightarrow> u64 \<Rightarrow> u64 \<Rightarrow> PagemapAnonError + bool list" where
  "get_anon_pages PR page_size host_addr len =
    (if host_addr mod page_size \<noteq> 0 then Inl NotPageAligned
     else let num_pages = unat (div_ceil len page_size);
              start_page = host_addr div page_size;
              pagemap_offset = start_page * PAGEMAP_ENTRY_SIZE
       in case open_fault PR PAGEMAP of Some e \<Rightarrow> Inl (OpenFailed PAGEMAP e) | None \<Rightarrow>
         (case open_fault PR KPAGEFLAGS of Some e \<Rightarrow> Inl (OpenFailed KPAGEFLAGS e) | None \<Rightarrow>
         (case seek_fault PR PAGEMAP pagemap_offset of Some e \<Rightarrow> Inl (SeekFailed PAGEMAP e) | None \<Rightarrow>
         (case read_at PR PAGEMAP pagemap_offset (num_pages * unat PAGEMAP_ENTRY_SIZE) of
            Inl e \<Rightarrow> Inl (ReadFailed PAGEMAP e)
          | Inr buf \<Rightarrow> map_result (\<lambda>i. anon_entry PR (pagemap_entry buf i)) [0..<num_pages]))))"

section \<open>Soft-dirty pages\<close>

definition soft_dirty_entry :: "u64 \<Rightarrow> bool" where
  "soft_dirty_entry entry =
    (let present = (entry AND PAGEMAP_PRESENT_BIT \<noteq> 0);
         swapped = (entry AND PAGEMAP_SWAPPED_BIT \<noteq> 0);
         soft_dirty = (entry AND PAGEMAP_SOFT_DIRTY_BIT \<noteq> 0)
     in if swapped then True else present \<and> soft_dirty)"

definition get_soft_dirty_pages :: "proc \<Rightarrow> u64 \<Rightarrow> u64 \<Rightarrow> u64 \<Rightarrow> SoftDirtyError + bool list" where
  "get_soft_dirty_pages PR page_size host_addr len =
    (if host_addr mod page_size \<noteq> 0 then Inl SdNotPageAligned
     else let num_pages = unat (div_ceil len page_size);
              start_page = host_addr div page_size;
              pagemap_offset = start_page * PAGEMAP_ENTRY_SIZE
       in case open_fault PR PAGEMAP of Some e \<Rightarrow> Inl (SdOpenFailed PAGEMAP e) | None \<Rightarrow>
         (case seek_fault PR PAGEMAP pagemap_offset of Some e \<Rightarrow> Inl (SdSeekFailed PAGEMAP e) | None \<Rightarrow>
         (case read_at PR PAGEMAP pagemap_offset (num_pages * unat PAGEMAP_ENTRY_SIZE) of
            Inl e \<Rightarrow> Inl (SdReadFailed PAGEMAP e)
          | Inr buf \<Rightarrow> Inr (map (\<lambda>i. soft_dirty_entry (pagemap_entry buf i)) [0..<num_pages]))))"

definition clear_soft_dirty :: "proc \<Rightarrow> SoftDirtyError + unit" where
  "clear_soft_dirty PR = (case open_fault PR CLEAR_REFS of
       Some e \<Rightarrow> Inl (SdOpenFailed CLEAR_REFS e)
     | None \<Rightarrow> (case write_fault PR CLEAR_REFS of
         Some e \<Rightarrow> Inl (SdWriteFailed CLEAR_REFS e) | None \<Rightarrow> Inr ()))"

section \<open>The filters\<close>

text \<open>\<^verbatim>\<open>PagemapAnonStats\<close> and \<^verbatim>\<open>SoftDirtyStats\<close>.\<close>

record PagemapAnonStats =
  pa_total_pages :: u64
  pa_anon_pages :: u64
  pa_swapped_pages :: u64
  pa_total_bytes :: u64
  pa_saved_bytes :: u64

record SoftDirtyStats =
  sd_total_pages :: u64
  sd_dirty_pages :: u64
  sd_total_bytes :: u64
  sd_saved_bytes :: u64

text \<open>The loop the three filters share: the pages of a range come from \<open>pages\<close>; the running
  totals are those of \<^verbatim>\<open>SoftDirtyStats\<close>.\<close>

fun filter_loop :: "(MemoryRange \<Rightarrow> 'e + bool list) \<Rightarrow> u64 \<Rightarrow> MemoryRange list
    \<Rightarrow> MemoryRangeTable \<Rightarrow> SoftDirtyStats \<Rightarrow> 'e + (MemoryRangeTable \<times> SoftDirtyStats)" where
  "filter_loop pages page_size [] table stats = Inr (table, stats)"
| "filter_loop pages page_size (mr # ranges) table stats =
    (let stats1 = stats\<lparr>sd_total_bytes := sd_total_bytes stats + mr_length mr,
                        sd_total_pages := sd_total_pages stats + div_ceil (mr_length mr) page_size\<rparr>
     in case pages mr of
          Inl e \<Rightarrow> Inl e
        | Inr bitmap \<Rightarrow>
            (case coalesce_pages_to_ranges (gpa mr) bitmap page_size of (region_ranges, count) \<Rightarrow>
               filter_loop pages page_size ranges (table @ region_ranges)
                 (stats1\<lparr>sd_dirty_pages := sd_dirty_pages stats1 + count,
                         sd_saved_bytes := sd_saved_bytes stats1 + count * page_size\<rparr>)))"

definition no_stats :: SoftDirtyStats where
  "no_stats = \<lparr>sd_total_pages = 0, sd_dirty_pages = 0, sd_total_bytes = 0, sd_saved_bytes = 0\<rparr>"

definition anon_pages_of :: "proc \<Rightarrow> u64 \<Rightarrow> (u64 \<Rightarrow> u64 option) \<Rightarrow> MemoryRange
    \<Rightarrow> PagemapAnonError + bool list" where
  "anon_pages_of PR page_size get_host_address mr = (case get_host_address (gpa mr) of
       None \<Rightarrow> Inl GetHostAddressFailed
     | Some host_addr \<Rightarrow> get_anon_pages PR page_size host_addr (mr_length mr))"

text \<open>The source never touches \<open>swapped_pages\<close>.\<close>

definition filter_memory_ranges_by_pagemap_anon :: "proc \<Rightarrow> u64 \<Rightarrow> (u64 \<Rightarrow> u64 option)
    \<Rightarrow> MemoryRangeTable \<Rightarrow> PagemapAnonError + (MemoryRangeTable \<times> PagemapAnonStats)" where
  "filter_memory_ranges_by_pagemap_anon PR page_size get_host_address ranges =
    (case filter_loop (anon_pages_of PR page_size get_host_address) page_size ranges [] no_stats of
       Inl e \<Rightarrow> Inl e
     | Inr (table, st) \<Rightarrow> Inr (table, \<lparr>pa_total_pages = sd_total_pages st,
         pa_anon_pages = sd_dirty_pages st, pa_swapped_pages = 0,
         pa_total_bytes = sd_total_bytes st, pa_saved_bytes = sd_saved_bytes st\<rparr>))"

definition soft_dirty_pages_of :: "proc \<Rightarrow> u64 \<Rightarrow> (u64 \<Rightarrow> u64 option) \<Rightarrow> MemoryRange
    \<Rightarrow> SoftDirtyError + bool list" where
  "soft_dirty_pages_of PR page_size get_host_address mr = (case get_host_address (gpa mr) of
       None \<Rightarrow> Inl SdGetHostAddressFailed
     | Some host_addr \<Rightarrow> get_soft_dirty_pages PR page_size host_addr (mr_length mr))"

definition filter_memory_ranges_by_soft_dirty :: "proc \<Rightarrow> u64 \<Rightarrow> (u64 \<Rightarrow> u64 option)
    \<Rightarrow> MemoryRangeTable \<Rightarrow> SoftDirtyError + (MemoryRangeTable \<times> SoftDirtyStats)" where
  "filter_memory_ranges_by_soft_dirty PR page_size get_host_address ranges =
     filter_loop (soft_dirty_pages_of PR page_size get_host_address) page_size ranges [] no_stats"

definition must_save_pages_of :: "proc \<Rightarrow> u64 \<Rightarrow> (u64 \<Rightarrow> u64 option) \<Rightarrow> MemoryRange
    \<Rightarrow> SoftDirtyError + bool list" where
  "must_save_pages_of PR page_size get_host_address mr = (case get_host_address (gpa mr) of
       None \<Rightarrow> Inl SdGetHostAddressFailed
     | Some host_addr \<Rightarrow> (case get_anon_pages PR page_size host_addr (mr_length mr) of
         Inl e \<Rightarrow> Inl (AnonProbe e)
       | Inr anon_pages \<Rightarrow> (case get_soft_dirty_pages PR page_size host_addr (mr_length mr) of
           Inl e \<Rightarrow> Inl e
         | Inr dirty_pages \<Rightarrow>
             Inr (map (\<lambda>(is_anon, is_dirty). is_anon \<and> is_dirty) (zip anon_pages dirty_pages)))))"

definition filter_memory_ranges_by_anon_and_soft_dirty :: "proc \<Rightarrow> u64 \<Rightarrow> (u64 \<Rightarrow> u64 option)
    \<Rightarrow> MemoryRangeTable \<Rightarrow> SoftDirtyError + (MemoryRangeTable \<times> SoftDirtyStats)" where
  "filter_memory_ranges_by_anon_and_soft_dirty PR page_size get_host_address ranges =
     filter_loop (must_save_pages_of PR page_size get_host_address) page_size ranges [] no_stats"

section \<open>The probe\<close>

text \<open>
  \<open>probe_soft_dirty_support\<close>: the scratch mapping (\<^verbatim>\<open>vm-memory\<close>) is a parameter, its host
  address or the failure to make or to write it.
\<close>

definition probe_soft_dirty_support :: "proc \<Rightarrow> u64 \<Rightarrow> u64 option \<Rightarrow> bool" where
  "probe_soft_dirty_support PR page_size scratch = (case scratch of
       None \<Rightarrow> False
     | Some host_addr \<Rightarrow>
         (let bit55_set = (case get_soft_dirty_pages PR page_size host_addr page_size of
              Inr bits \<Rightarrow> length bits = 1 \<and> bits ! 0 | Inl _ \<Rightarrow> False)
          in if \<not> bit55_set then False else is_ok (clear_soft_dirty PR)))"

section \<open>What the kernel documents\<close>

text \<open>
  The interface of the two files: entry \<open>k\<close> of the pagemap describes virtual page \<open>k\<close>, eight
  bytes an entry; \<^verbatim>\<open>/proc/kpageflags\<close> has eight bytes for each page frame; nothing fails.
\<close>

definition kernel_reports :: "proc \<Rightarrow> (u64 \<Rightarrow> u64) \<Rightarrow> (u64 \<Rightarrow> u64) \<Rightarrow> bool" where
  "kernel_reports PR entries flags \<longleftrightarrow>
     (\<forall>p. open_fault PR p = None) \<and> (\<forall>p k. seek_fault PR p k = None) \<and>
     (\<forall>k n. unat k * 8 + n * 8 < 2 ^ 64 \<longrightarrow> read_at PR PAGEMAP (k * 8) (n * 8) =
        Inr (concat (map (\<lambda>i. u64_bytes (entries (k + of_nat i))) [0..<n]))) \<and>
     (\<forall>f. unat f < 2 ^ 55 \<longrightarrow> read_at PR KPAGEFLAGS (f * 8) 8 = Inr (u64_bytes (flags f)))"

definition swapped_page :: "u64 \<Rightarrow> bool" where "swapped_page e \<longleftrightarrow> e AND PAGEMAP_SWAPPED_BIT \<noteq> 0"
definition present_page :: "u64 \<Rightarrow> bool" where "present_page e \<longleftrightarrow> e AND PAGEMAP_PRESENT_BIT \<noteq> 0"

text \<open>An anonymous page: swapped out, or present with the \<open>KPF_ANON\<close> flag on its frame.\<close>

definition anon_page :: "(u64 \<Rightarrow> u64) \<Rightarrow> u64 \<Rightarrow> bool" where
  "anon_page flags e \<longleftrightarrow> swapped_page e \<or>
     present_page e \<and> flags (e AND PAGEMAP_PFN_MASK) AND KPF_ANON \<noteq> 0"

text \<open>The process may read frame numbers: a present page never shows frame zero.\<close>

definition frames_visible :: "(u64 \<Rightarrow> u64) \<Rightarrow> bool" where
  "frames_visible entries \<longleftrightarrow>
     (\<forall>k. present_page (entries k) \<and> \<not> swapped_page (entries k) \<longrightarrow> entries k AND PAGEMAP_PFN_MASK \<noteq> 0)"

section \<open>Reading the bitmaps\<close>

lemma take_drop_concat:
  "(\<And>x. length (g x) = 8) \<Longrightarrow> j < length xs \<Longrightarrow> take 8 (drop (8 * j) (concat (map g xs))) = g (xs ! j)"
proof (induction xs arbitrary: j)
  case (Cons x xs)
  then show ?case by (cases j) simp_all
qed simp

lemma pagemap_entry_concat:
  "i < n \<Longrightarrow> pagemap_entry (concat (map (\<lambda>i. u64_bytes (f i)) [0..<n])) i = f i"
  using take_drop_concat [of "\<lambda>i. u64_bytes (f i)" i "[0..<n]"] by (simp add: pagemap_entry_def)

lemma div_ceil_le: "unat (div_ceil a b) \<le> unat a div unat b + 1"
proof -
  have "unat (a div b + 1) \<le> unat (a div b) + 1"
    by (simp add: unat_word_ariths)
  then show ?thesis by (auto simp: div_ceil_def unat_div)
qed

text \<open>With pages of at least 4 KiB the pagemap offsets stay far below 2^64.\<close>

lemma pagemap_offsets_fit:
  assumes "4096 \<le> ps"
  shows "unat (h div ps) * 8 + unat (div_ceil len ps) * 8 < 2 ^ 64"
proof -
  have ps: "4096 \<le> unat ps" using assms by (simp add: word_le_nat_alt)
  have b: "unat x div unat ps \<le> 2 ^ 52" for x :: u64
  proof -
    have "unat x div unat ps \<le> unat x div 4096" using ps by (rule div_le_mono2 [rotated]) simp
    also have "\<dots> \<le> 18446744073709551615 div 4096"
      using unat_u64_less [of x] by (intro div_le_mono) linarith
    also have "\<dots> \<le> 2 ^ 52" by simp
    finally show ?thesis .
  qed
  have "unat (h div ps) \<le> 2 ^ 52" using b [of h] by (simp add: unat_div)
  moreover have "unat (div_ceil len ps) \<le> 2 ^ 52 + 1"
    using div_ceil_le [of len ps] b [of len] by linarith
  ultimately show ?thesis by simp
qed

lemma pagemap_read:
  assumes k: "kernel_reports PR entries flags" and ps: "4096 \<le> ps"
  shows "read_at PR PAGEMAP (h div ps * PAGEMAP_ENTRY_SIZE)
      (unat (div_ceil len ps) * unat PAGEMAP_ENTRY_SIZE) =
    Inr (concat (map (\<lambda>i. u64_bytes (entries (h div ps + of_nat i))) [0..<unat (div_ceil len ps)]))"
  using k pagemap_offsets_fit [OF ps, of h len]
  by (simp add: kernel_reports_def PAGEMAP_ENTRY_SIZE_def)

lemma get_soft_dirty_pages_ok:
  assumes k: "kernel_reports PR entries flags" and ps: "4096 \<le> ps" and al: "h mod ps = 0"
  shows "get_soft_dirty_pages PR ps h len =
    Inr (map (\<lambda>i. soft_dirty_entry (entries (h div ps + of_nat i))) [0..<unat (div_ceil len ps)])"
  using k al pagemap_read [OF k ps, of h len]
  by (simp add: get_soft_dirty_pages_def kernel_reports_def pagemap_entry_concat Let_def)

lemma pfn_small: "unat (e AND PAGEMAP_PFN_MASK) < 2 ^ 55"
proof -
  have "PAGEMAP_PFN_MASK = mask 55" by (simp add: PAGEMAP_PFN_MASK_def mask_eq_exp_minus_1 push_bit_eq_mult)
  then have "e AND PAGEMAP_PFN_MASK = take_bit 55 e" by (simp add: take_bit_eq_mask)
  then show ?thesis using take_bit_nat_less_exp [of 55 "unat e"] by (simp add: unsigned_take_bit_eq)
qed

lemma anon_entry_ok:
  assumes "kernel_reports PR entries flags" and "frames_visible entries"
  shows "anon_entry PR (entries k) = Inr (anon_page flags (entries k))"
  using assms pfn_small [of "entries k"]
  by (auto simp: anon_entry_def anon_page_def kernel_reports_def frames_visible_def swapped_page_def
      present_page_def KPAGEFLAGS_ENTRY_SIZE_def Let_def)

lemma get_anon_pages_ok:
  assumes k: "kernel_reports PR entries flags" and v: "frames_visible entries"
    and ps: "4096 \<le> ps" and al: "h mod ps = 0"
  shows "get_anon_pages PR ps h len =
    Inr (map (\<lambda>i. anon_page flags (entries (h div ps + of_nat i))) [0..<unat (div_ceil len ps)])"
proof -
  let ?n = "unat (div_ceil len ps)"
  let ?buf = "concat (map (\<lambda>i. u64_bytes (entries (h div ps + of_nat i))) [0..<?n])"
  have "map_result (\<lambda>i. anon_entry PR (pagemap_entry ?buf i)) [0..<?n] =
      Inr (map (\<lambda>i. anon_page flags (entries (h div ps + of_nat i))) [0..<?n])"
    by (rule map_result_ok) (simp add: pagemap_entry_concat anon_entry_ok [OF k v])
  then show ?thesis
    using k al pagemap_read [OF k ps, of h len]
    by (simp add: get_anon_pages_def kernel_reports_def)
qed

section \<open>Filtering\<close>

text \<open>The number of pages of a region, and the pages that hold the bytes of page \<open>i\<close> of a region.\<close>

definition region_pages :: "u64 \<Rightarrow> MemoryRange \<Rightarrow> nat" where
  "region_pages ps r = unat (div_ceil (mr_length r) ps)"

definition in_page :: "u64 \<Rightarrow> MemoryRange \<Rightarrow> nat \<Rightarrow> nat \<Rightarrow> bool" where
  "in_page ps r i a \<longleftrightarrow> unat (gpa r) + i * unat ps \<le> a \<and> a < unat (gpa r) + Suc i * unat ps"

text \<open>A region the filters accept: its guest address has a page-aligned host address, and its
  pages lie below the end of the address space.\<close>

definition region_ok :: "u64 \<Rightarrow> (u64 \<Rightarrow> u64 option) \<Rightarrow> MemoryRange \<Rightarrow> bool" where
  "region_ok ps host r \<longleftrightarrow> (\<exists>h. host (gpa r) = Some h \<and> h mod ps = 0) \<and>
     unat (gpa r) + region_pages ps r * unat ps < 2 ^ 64"

definition page_number :: "u64 \<Rightarrow> (u64 \<Rightarrow> u64 option) \<Rightarrow> MemoryRange \<Rightarrow> nat \<Rightarrow> u64" where
  "page_number ps host r i = the (host (gpa r)) div ps + of_nat i"

lemma filter_loop_ok:
  assumes "\<And>r. r \<in> set ranges \<Longrightarrow> pages r = Inr (bm r)"
  shows "\<exists>st'. filter_loop pages ps ranges table st =
      Inr (table @ concat (map (\<lambda>r. fst (coalesce_pages_to_ranges (gpa r) (bm r) ps)) ranges), st') \<and>
    sd_total_bytes st' = sd_total_bytes st + sum_list (map mr_length ranges) \<and>
    sd_dirty_pages st' = sd_dirty_pages st + of_nat (sum_list (map (\<lambda>r. length (filter id (bm r))) ranges)) \<and>
    sd_saved_bytes st' = sd_saved_bytes st + (sd_dirty_pages st' - sd_dirty_pages st) * ps"
  using assms
proof (induction ranges arbitrary: table st)
  case (Cons r ranges)
  define st1 where "st1 = st\<lparr>sd_total_bytes := sd_total_bytes st + mr_length r,
      sd_total_pages := sd_total_pages st + div_ceil (mr_length r) ps,
      sd_dirty_pages := sd_dirty_pages st + of_nat (length (filter id (bm r))),
      sd_saved_bytes := sd_saved_bytes st + of_nat (length (filter id (bm r))) * ps\<rparr>"
  have "pages r = Inr (bm r)" using Cons.prems by simp
  then have step: "filter_loop pages ps (r # ranges) table st =
      filter_loop pages ps ranges (table @ fst (coalesce_pages_to_ranges (gpa r) (bm r) ps)) st1"
    by (simp add: coalesce_runs Let_def st1_def)
  have "\<And>x. x \<in> set ranges \<Longrightarrow> pages x = Inr (bm x)" using Cons.prems by simp
  from Cons.IH [OF this, of "table @ fst (coalesce_pages_to_ranges (gpa r) (bm r) ps)" st1] step
  show ?case by (auto simp: st1_def algebra_simps id_def simp del: filter_loop.simps)
qed simp

lemma covers_append [simp]: "covers (xs @ ys) a \<longleftrightarrow> covers xs a \<or> covers ys a"
  by (simp add: covers_def)

lemma covers_concat: "covers (concat xss) a \<longleftrightarrow> (\<exists>xs \<in> set xss. covers xs a)"
  by (induction xss) (simp_all add: covers_def)

lemma map_both:
  "map (\<lambda>(a, b). a \<and> b) (zip (map f xs) (map g xs)) = map (\<lambda>x. f x \<and> g x) xs"
  by (induction xs) simp_all

text \<open>A filter that keeps the pages \<open>Q\<close> covers exactly their bytes.\<close>

lemma filter_covers:
  assumes ps: "0 < ps" and ok: "\<And>r. r \<in> set ranges \<Longrightarrow> region_ok ps host r"
    and pages: "\<And>r. r \<in> set ranges \<Longrightarrow> pages r = Inr (map (Q r) [0..<region_pages ps r])"
  shows "\<exists>table st. filter_loop pages ps ranges [] no_stats = Inr (table, st) \<and>
    (\<forall>a. covers table a \<longleftrightarrow> (\<exists>r \<in> set ranges. \<exists>i < region_pages ps r. Q r i \<and> in_page ps r i a)) \<and>
    sd_total_bytes st = sum_list (map mr_length ranges) \<and> sd_saved_bytes st = sd_dirty_pages st * ps"
proof -
  let ?bm = "\<lambda>r. map (Q r) [0..<region_pages ps r]"
  obtain st where st: "filter_loop pages ps ranges [] no_stats =
      Inr (concat (map (\<lambda>r. fst (coalesce_pages_to_ranges (gpa r) (?bm r) ps)) ranges), st)"
    "sd_total_bytes st = sum_list (map mr_length ranges)" "sd_saved_bytes st = sd_dirty_pages st * ps"
    using filter_loop_ok [of ranges pages ?bm ps "[]" no_stats] pages by (auto simp: no_stats_def)
  have "covers (fst (coalesce_pages_to_ranges (gpa r) (?bm r) ps)) a \<longleftrightarrow>
      (\<exists>i < region_pages ps r. Q r i \<and> in_page ps r i a)" if "r \<in> set ranges" for r a
    using covers_coalesce [OF _ ps, of "gpa r" "?bm r" a] ok [OF that]
    by (auto simp: region_ok_def in_page_def)
  then show ?thesis using st by (auto simp: covers_concat)
qed

lemma region_okE:
  assumes "region_ok ps host r"
  obtains h where "host (gpa r) = Some h" "h mod ps = 0"
  using conjunct1 [OF assms [unfolded region_ok_def]] by (elim exE conjE)

lemma anon_pages_of_ok:
  assumes k: "kernel_reports PR entries flags" and v: "frames_visible entries"
    and ps: "4096 \<le> ps" and h: "host (gpa r) = Some h" "h mod ps = 0"
  shows "anon_pages_of PR ps host r =
    Inr (map (\<lambda>i. anon_page flags (entries (page_number ps host r i))) [0..<region_pages ps r])"
  unfolding anon_pages_of_def h(1) option.case get_anon_pages_ok [OF k v ps h(2)]
    page_number_def region_pages_def option.sel
  by (rule refl)

lemma must_save_pages_of_ok:
  assumes k: "kernel_reports PR entries flags" and v: "frames_visible entries"
    and ps: "4096 \<le> ps" and h: "host (gpa r) = Some h" "h mod ps = 0"
  shows "must_save_pages_of PR ps host r =
    Inr (map (\<lambda>i. anon_page flags (entries (page_number ps host r i)) \<and>
      soft_dirty_entry (entries (page_number ps host r i))) [0..<region_pages ps r])"
  unfolding must_save_pages_of_def h(1) option.case get_anon_pages_ok [OF k v ps h(2)]
    get_soft_dirty_pages_ok [OF k ps h(2)] sum.case map_both page_number_def region_pages_def option.sel
  by (rule refl)

text \<open>
  C10. The delta of a soft-dirty snapshot is exact: when the kernel answers as documented and
  the process may read frame numbers, the filter succeeds on page-aligned regions, and its
  ranges cover precisely the bytes of the pages that are both anonymous and soft-dirty (a
  swapped page counts as both); the byte totals in the statistics are those of the regions
  and of the kept pages.
\<close>

theorem anon_and_soft_dirty_exact:
  assumes k: "kernel_reports PR entries flags" and v: "frames_visible entries"
    and ps: "4096 \<le> ps" and ok: "\<forall>r \<in> set ranges. region_ok ps host r"
  shows "\<exists>table st. filter_memory_ranges_by_anon_and_soft_dirty PR ps host ranges = Inr (table, st) \<and>
    (\<forall>a. covers table a \<longleftrightarrow> (\<exists>r \<in> set ranges. \<exists>i < region_pages ps r.
       anon_page flags (entries (page_number ps host r i)) \<and>
       soft_dirty_entry (entries (page_number ps host r i)) \<and> in_page ps r i a)) \<and>
    sd_total_bytes st = sum_list (map mr_length ranges) \<and> sd_saved_bytes st = sd_dirty_pages st * ps"
proof -
  let ?Q = "\<lambda>r i. anon_page flags (entries (page_number ps host r i)) \<and>
      soft_dirty_entry (entries (page_number ps host r i))"
  have p: "0 < ps" by (rule less_le_trans [OF _ ps]) simp
  have pages: "must_save_pages_of PR ps host r = Inr (map (?Q r) [0..<region_pages ps r])"
    if "r \<in> set ranges" for r
    using bspec [OF ok that] by (elim region_okE) (rule must_save_pages_of_ok [OF k v ps])
  have "\<And>r. r \<in> set ranges \<Longrightarrow> region_ok ps host r" using ok by blast
  from filter_covers [where Q = ?Q, OF p this pages] show ?thesis
    unfolding filter_memory_ranges_by_anon_and_soft_dirty_def conj_assoc .
qed

text \<open>A kernel with given entries and flags.\<close>

definition sim_proc :: "(u64 \<Rightarrow> u64) \<Rightarrow> (u64 \<Rightarrow> u64) \<Rightarrow> proc" where
  "sim_proc entries flags = \<lparr>open_fault = (\<lambda>_. None), seek_fault = (\<lambda>_ _. None),
     write_fault = (\<lambda>_. None),
     read_at = (\<lambda>p off n. if p = PAGEMAP
       then Inr (concat (map (\<lambda>i. u64_bytes (entries (off div 8 + of_nat i))) [0..<n div 8]))
       else Inr (u64_bytes (flags (off div 8))))\<rparr>"

lemma mult8_div8: "unat k * 8 < 2 ^ 64 \<Longrightarrow> (k * 8) div 8 = k" for k :: u64
  by (rule unsigned_word_eqI [where 'a = nat]) (simp add: unat_div unat_word_ariths)

lemma sim_proc_reports: "kernel_reports (sim_proc entries flags) entries flags"
  by (simp add: kernel_reports_def sim_proc_def PAGEMAP_def KPAGEFLAGS_def mult8_div8)

text \<open>C10, applied to one region of three pages: the first is anonymous and dirty, the second
  anonymous only, the third swapped out.\<close>

definition demo_entries :: "u64 \<Rightarrow> u64" where
  "demo_entries k = (if k = 2 then PAGEMAP_PRESENT_BIT OR PAGEMAP_SOFT_DIRTY_BIT OR 5
     else if k = 3 then PAGEMAP_PRESENT_BIT OR 5 else if k = 4 then PAGEMAP_SWAPPED_BIT else 0)"

theorem anon_and_soft_dirty_exact_witness:
  "\<exists>table st. filter_memory_ranges_by_anon_and_soft_dirty (sim_proc demo_entries (\<lambda>_. KPF_ANON)) 4096
      (\<lambda>g. Some (g + 4096)) [\<lparr>gpa = 4096, mr_length = 12288\<rparr>] = Inr (table, st) \<and>
    covers table 4096 \<and> \<not> covers table 8192 \<and> covers table 12288 \<and> sd_total_bytes st = 12288"
proof -
  have v: "frames_visible demo_entries"
    by (simp add: frames_visible_def demo_entries_def present_page_def swapped_page_def
        PAGEMAP_PRESENT_BIT_def PAGEMAP_SWAPPED_BIT_def PAGEMAP_SOFT_DIRTY_BIT_def PAGEMAP_PFN_MASK_def)
  have ok: "\<forall>r \<in> set [\<lparr>gpa = 4096, mr_length = 12288\<rparr>]. region_ok 4096 (\<lambda>g. Some (g + 4096)) r"
    by (simp add: region_ok_def region_pages_def div_ceil_def)
  have pg: "page_number 4096 (\<lambda>g. Some (g + 4096)) \<lparr>gpa = 4096, mr_length = 12288\<rparr> i = 2 + of_nat i" for i
    by (simp add: page_number_def)
  have n: "region_pages 4096 \<lparr>gpa = 4096, mr_length = 12288\<rparr> = 3"
    by (simp add: region_pages_def div_ceil_def)
  have three: "(\<exists>i < 3. P i) \<longleftrightarrow> P 0 \<or> P 1 \<or> P 2" for P :: "nat \<Rightarrow> bool"
    by (auto simp: numeral_3_eq_3 numeral_2_eq_2 less_Suc_eq)
  have bits: "soft_dirty_entry (demo_entries 2)" "\<not> soft_dirty_entry (demo_entries 3)"
    "soft_dirty_entry (demo_entries 4)" "anon_page (\<lambda>_. KPF_ANON) (demo_entries 2)"
    "anon_page (\<lambda>_. KPF_ANON) (demo_entries 4)"
    by code_simp+
  from anon_and_soft_dirty_exact [OF sim_proc_reports [of demo_entries "\<lambda>_. KPF_ANON"] v _ ok]
  obtain table st where r: "filter_memory_ranges_by_anon_and_soft_dirty
      (sim_proc demo_entries (\<lambda>_. KPF_ANON)) 4096 (\<lambda>g. Some (g + 4096))
      [\<lparr>gpa = 4096, mr_length = 12288\<rparr>] = Inr (table, st)" "sd_total_bytes st = 12288"
    and c: "\<And>a. covers table a \<longleftrightarrow> (\<exists>i < 3. anon_page (\<lambda>_. KPF_ANON) (demo_entries (2 + of_nat i)) \<and>
      soft_dirty_entry (demo_entries (2 + of_nat i)) \<and> in_page 4096 \<lparr>gpa = 4096, mr_length = 12288\<rparr> i a)"
    by (auto simp: n pg)
  have "covers table 4096" "\<not> covers table 8192" "covers table 12288"
    unfolding c three by (simp_all add: bits in_page_def)
  with r show ?thesis by blast
qed

end
