(* ===== verification/Mem_Snapshot.thy ===== *)
theory Mem_Snapshot
  imports Page_Tracking
begin

text \<open>
  Writing guest memory to a snapshot file (\<^verbatim>\<open>MemoryManager\<close> in
  \<^verbatim>\<open>hypervisor/vmm/src/memory_manager.rs\<close>): full snapshots, incremental snapshots of the
  anonymous pages, and soft-dirty snapshots with their armed/disarmed state. Guest memory is
  a function from guest-physical addresses to bytes; \<^verbatim>\<open>vm-memory\<close>'s \<open>write_volatile_to\<close> is a
  parameter that says how many bytes each call manages to write.
\<close>

section \<open>State and environment\<close>

datatype MigratableError = UrlError | FilterAnon PagemapAnonError | FilterSoftDirty SoftDirtyError
  | BaseMissing | OpenError io_error | OffsetNotFound u64 u64 | SeekError io_error | WriteError io_error
  | SetLenError io_error | RegionNotFound u64 | MappingNotFound u64 | DirtyLogError io_error
  | AssertionFailed

text \<open>An open file: contents and position.\<close>

record mem_file =
  file_bytes :: "u8 list"
  cursor :: nat

text \<open>What the code calls: the kernel's files, the host page size, the address translation, the
  scratch page of the probe, the outcome of resolving and opening the target, seeking,
  \<open>write_volatile_to\<close> (address and count to the number of bytes written), the memory regions of
  \<^verbatim>\<open>vm-memory\<close> (start, length and bitmap of the region at an address; the sum of all
  lengths) and the hypervisor's dirty log.\<close>

record snap_env =
  env_proc :: proc
  env_page_size :: u64
  env_host :: "u64 \<Rightarrow> u64 option"
  env_scratch :: "u64 option"
  env_url :: bool
  env_external :: bool
  env_open :: "io_error option"
  env_seek :: "u64 \<Rightarrow> io_error option"
  env_write_volatile_to :: "u64 \<Rightarrow> u64 \<Rightarrow> io_error + u64"
  env_set_len :: "io_error option"
  env_total_size :: u64
  env_find_region :: "u64 \<Rightarrow> (u64 \<times> u64 \<times> u64 list) option"
  env_get_dirty_log :: "u32 \<Rightarrow> u64 \<Rightarrow> u64 \<Rightarrow> io_error + u64 list"

record GuestRamMapping =
  grm_slot :: u32
  grm_gpa :: u64
  grm_size :: u64

text \<open>The fields of \<^verbatim>\<open>MemoryManager\<close> that snapshots use.\<close>

record MemoryManager =
  guest_memory :: "u64 \<Rightarrow> u8"
  snapshot_memory_ranges :: MemoryRangeTable
  soft_dirty_armed :: bool
  dirty_log :: bool
  guest_ram_mappings :: "GuestRamMapping list"

datatype SnapshotType = Full | Incremental | SoftDirty

section \<open>Writing a range\<close>

definition file_write :: "mem_file \<Rightarrow> u8 list \<Rightarrow> mem_file" where
  "file_write f data = f\<lparr>file_bytes := take (cursor f) (file_bytes f)
       @ replicate (cursor f - length (file_bytes f)) 0 @ data
       @ drop (cursor f + length data) (file_bytes f),
     cursor := cursor f + length data\<rparr>"

definition guest_bytes :: "(u64 \<Rightarrow> u8) \<Rightarrow> u64 \<Rightarrow> nat \<Rightarrow> u8 list" where
  "guest_bytes mem a n = map (\<lambda>i. mem (a + of_nat i)) [0..<n]"

partial_function (option) save_loop :: "(u64 \<Rightarrow> u64 \<Rightarrow> io_error + u64) \<Rightarrow> (u64 \<Rightarrow> u8) \<Rightarrow> MemoryRange
    \<Rightarrow> u64 \<Rightarrow> mem_file \<Rightarrow> ((MigratableError + unit) \<times> mem_file) option" where
  "save_loop wv mem mr off f = (case wv (gpa mr + off) (mr_length mr - off) of
       Inl e \<Rightarrow> Some (Inl (WriteError e), f)
     | Inr n \<Rightarrow>
         (let f1 = file_write f (guest_bytes mem (gpa mr + off) (unat n));
              off1 = off + n
          in if off1 = mr_length mr then Some (Inr (), f1) else save_loop wv mem mr off1 f1))"

definition save_range_to_file :: "snap_env \<Rightarrow> (u64 \<Rightarrow> u8) \<Rightarrow> mem_file \<Rightarrow> MemoryRange \<Rightarrow> u64
    \<Rightarrow> ((MigratableError + unit) \<times> mem_file) option" where
  "save_range_to_file E mem f mr file_offset =
    (if file_offset \<noteq> 0 then
       (case env_seek E file_offset of
          Some e \<Rightarrow> Some (Inl (SeekError e), f)
        | None \<Rightarrow> save_loop (env_write_volatile_to E) mem mr 0 (f\<lparr>cursor := unat file_offset\<rparr>))
     else save_loop (env_write_volatile_to E) mem mr 0 f)"

section \<open>Offsets in the snapshot file\<close>

fun gpa_to_file_offset :: "u64 \<Rightarrow> MemoryRange list \<Rightarrow> (u64 \<times> u64 \<times> u64) list" where
  "gpa_to_file_offset off [] = []"
| "gpa_to_file_offset off (mr # ranges) =
     (gpa mr, mr_length mr, off) # gpa_to_file_offset (off + mr_length mr) ranges"

fun calculate_file_offset_for_gpa :: "u64 \<Rightarrow> u64 \<Rightarrow> (u64 \<times> u64 \<times> u64) list \<Rightarrow> MigratableError + u64" where
  "calculate_file_offset_for_gpa a len [] = Inl (OffsetNotFound a len)"
| "calculate_file_offset_for_gpa a len ((region_gpa, region_length, file_offset) # rest) =
     (if region_gpa \<le> a \<and> a + len \<le> region_gpa + region_length
      then Inr (file_offset + (a - region_gpa))
      else calculate_file_offset_for_gpa a len rest)"

text \<open>The loop that overlays the filtered ranges on the file.\<close>

fun write_ranges :: "snap_env \<Rightarrow> (u64 \<Rightarrow> u8) \<Rightarrow> (u64 \<times> u64 \<times> u64) list \<Rightarrow> MemoryRange list \<Rightarrow> mem_file
    \<Rightarrow> ((MigratableError + unit) \<times> mem_file) option" where
  "write_ranges E mem offsets [] f = Some (Inr (), f)"
| "write_ranges E mem offsets (mr # ranges) f =
    (case calculate_file_offset_for_gpa (gpa mr) (mr_length mr) offsets of
       Inl e \<Rightarrow> Some (Inl e, f)
     | Inr file_off \<Rightarrow> (case save_range_to_file E mem f mr file_off of
         None \<Rightarrow> None
       | Some (Inl e, f1) \<Rightarrow> Some (Inl e, f1)
       | Some (Inr _, f1) \<Rightarrow> write_ranges E mem offsets ranges f1))"

section \<open>Sending\<close>

text \<open>The result and the contents of the target file afterwards (\<open>None\<close>: no such file). The
  outer \<open>None\<close> is a call that does not return.\<close>

type_synonym send_result = "((MigratableError + unit) \<times> u8 list option) option"

definition overlay :: "snap_env \<Rightarrow> MemoryManager \<Rightarrow> MemoryRangeTable \<Rightarrow> u8 list option \<Rightarrow> send_result" where
  "overlay E mm filtered target = (case target of
       None \<Rightarrow> Some (Inl BaseMissing, target)
     | Some base \<Rightarrow> (case env_open E of
         Some e \<Rightarrow> Some (Inl (OpenError e), target)
       | None \<Rightarrow>
           (case write_ranges E (guest_memory mm) (gpa_to_file_offset 0 (snapshot_memory_ranges mm))
                   filtered \<lparr>file_bytes = base, cursor = 0\<rparr> of
              None \<Rightarrow> None
            | Some (r, f) \<Rightarrow> Some (r, Some (file_bytes f)))))"

definition send_pagemap_anon_memory :: "snap_env \<Rightarrow> MemoryManager \<Rightarrow> u8 list option \<Rightarrow> send_result" where
  "send_pagemap_anon_memory E mm target =
    (if snapshot_memory_ranges mm = [] then Some (Inr (), target)
     else case filter_memory_ranges_by_pagemap_anon (env_proc E) (env_page_size E) (env_host E)
                 (snapshot_memory_ranges mm) of
       Inl e \<Rightarrow> Some (Inl (FilterAnon e), target)
     | Inr (filtered, _) \<Rightarrow>
         if env_url E then overlay E mm filtered target else Some (Inl UrlError, target))"

text \<open>
  A soft-dirty snapshot also tells whether it cleared the kernel's soft-dirty bits.
\<close>

definition send_soft_dirty_memory :: "snap_env \<Rightarrow> MemoryManager \<Rightarrow> u8 list option
    \<Rightarrow> ((MigratableError + unit) \<times> u8 list option \<times> MemoryManager \<times> bool) option" where
  "send_soft_dirty_memory E mm target =
    (if snapshot_memory_ranges mm = [] then Some (Inr (), target, mm, False)
     else if \<not> soft_dirty_armed mm then
       (case send_pagemap_anon_memory E mm target of
          None \<Rightarrow> None
        | Some (Inl e, target1) \<Rightarrow> Some (Inl e, target1, mm, False)
        | Some (Inr _, target1) \<Rightarrow>
            if probe_soft_dirty_support (env_proc E) (env_page_size E) (env_scratch E)
            then Some (Inr (), target1, mm\<lparr>soft_dirty_armed := True\<rparr>, True)
            else Some (Inr (), target1, mm, False))
     else if \<not> env_url E then Some (Inl UrlError, target, mm, False)
     else case filter_memory_ranges_by_anon_and_soft_dirty (env_proc E) (env_page_size E) (env_host E)
                 (snapshot_memory_ranges mm) of
       Inl e \<Rightarrow> Some (Inl (FilterSoftDirty e), target, mm, False)
     | Inr (filtered, _) \<Rightarrow> (case overlay E mm filtered target of
         None \<Rightarrow> None
       | Some (Inl e, target1) \<Rightarrow> Some (Inl e, target1, mm, False)
       | Some (Inr _, target1) \<Rightarrow> (case clear_soft_dirty (env_proc E) of
           Inl _ \<Rightarrow> Some (Inr (), target1, mm\<lparr>soft_dirty_armed := False\<rparr>, False)
         | Inr _ \<Rightarrow> Some (Inr (), target1, mm, True))))"

text \<open>The full snapshot: every range in turn, into a new file (or over an external one).\<close>

fun full_loop :: "snap_env \<Rightarrow> (u64 \<Rightarrow> u8) \<Rightarrow> MemoryRange list \<Rightarrow> u64 \<Rightarrow> mem_file
    \<Rightarrow> ((MigratableError + unit) \<times> mem_file) option" where
  "full_loop E mem [] off f = Some (Inr (), f)"
| "full_loop E mem (mr # ranges) off f = (case save_range_to_file E mem f mr off of
       None \<Rightarrow> None
     | Some (Inl e, f1) \<Rightarrow> Some (Inl e, f1)
     | Some (Inr _, f1) \<Rightarrow> full_loop E mem ranges (off + mr_length mr) f1)"

definition open_for_fresh_write :: "snap_env \<Rightarrow> u8 list option \<Rightarrow> MigratableError + mem_file" where
  "open_for_fresh_write E target =
    (case env_open E of
       Some e \<Rightarrow> Inl (OpenError e)
     | None \<Rightarrow> (case target of
         Some base \<Rightarrow> if env_external E then Inr \<lparr>file_bytes = base, cursor = 0\<rparr>
                      else Inl (OpenError IoAlreadyExists)
       | None \<Rightarrow> if env_external E then Inl (OpenError IoNotFound)
                 else Inr \<lparr>file_bytes = [], cursor = 0\<rparr>))"

definition send_full_memory :: "snap_env \<Rightarrow> MemoryManager \<Rightarrow> u8 list option \<Rightarrow> send_result" where
  "send_full_memory E mm target = (case open_for_fresh_write E target of
       Inl e \<Rightarrow> Some (Inl e, target)
     | Inr f \<Rightarrow> (case full_loop E (guest_memory mm) (snapshot_memory_ranges mm) 0 f of
         None \<Rightarrow> None
       | Some (r, f1) \<Rightarrow> Some (r, Some (file_bytes f1))))"

text \<open>The pages dirty in the hypervisor's log or in the VMM's own bitmap.\<close>

definition merge_bitmaps :: "u64 list \<Rightarrow> u64 list \<Rightarrow> u64 list" where
  "merge_bitmaps vm_dirty vmm_dirty = map (\<lambda>(x, y). x OR y) (zip vm_dirty vmm_dirty)"

definition vmm_bitmap :: "snap_env \<Rightarrow> u64 \<Rightarrow> u64 \<Rightarrow> MigratableError + u64 list" where
  "vmm_bitmap E a len = (case env_find_region E a of
       None \<Rightarrow> Inl (RegionNotFound a)
     | Some (start, region_len, bitmap) \<Rightarrow>
         if start = a \<and> region_len = len then Inr bitmap else Inl AssertionFailed)"

text \<open>The sub-table of one range of a dirty-log snapshot.\<close>

definition dirty_sub_table :: "snap_env \<Rightarrow> GuestRamMapping list \<Rightarrow> MemoryRange
    \<Rightarrow> MigratableError + MemoryRangeTable" where
  "dirty_sub_table E mappings mr = result_bind (vmm_bitmap E (gpa mr) (mr_length mr)) (\<lambda>vmm_dirty.
     case find (\<lambda>m. grm_gpa m = gpa mr \<and> grm_size m = mr_length mr) mappings of
       None \<Rightarrow> Inl (MappingNotFound (gpa mr))
     | Some m \<Rightarrow> (case env_get_dirty_log E (grm_slot m) (gpa mr) (mr_length mr) of
         Inl e \<Rightarrow> Inl (DirtyLogError e)
       | Inr vm_dirty \<Rightarrow>
           Inr (from_bitmap (merge_bitmaps vm_dirty vmm_dirty) (gpa mr) (env_page_size E))))"

fun write_sub_table :: "snap_env \<Rightarrow> (u64 \<Rightarrow> u8) \<Rightarrow> u64 \<Rightarrow> u64 \<Rightarrow> MemoryRange list \<Rightarrow> mem_file
    \<Rightarrow> ((MigratableError + unit) \<times> mem_file) option" where
  "write_sub_table E mem base off [] f = Some (Inr (), f)"
| "write_sub_table E mem base off (mr # rs) f =
    (case save_range_to_file E mem f mr (gpa mr - base + off) of
       None \<Rightarrow> None
     | Some (Inl e, f1) \<Rightarrow> Some (Inl e, f1)
     | Some (Inr _, f1) \<Rightarrow> write_sub_table E mem base off rs f1)"

fun dirty_log_loop :: "snap_env \<Rightarrow> MemoryManager \<Rightarrow> MemoryRange list \<Rightarrow> u64 \<Rightarrow> mem_file
    \<Rightarrow> ((MigratableError + unit) \<times> mem_file) option" where
  "dirty_log_loop E mm [] off f = Some (Inr (), f)"
| "dirty_log_loop E mm (mr # ranges) off f = (case dirty_sub_table E (guest_ram_mappings mm) mr of
       Inl e \<Rightarrow> Some (Inl e, f)
     | Inr sub_table \<Rightarrow> (case write_sub_table E (guest_memory mm) (gpa mr) off sub_table f of
         None \<Rightarrow> None
       | Some (Inl e, f1) \<Rightarrow> Some (Inl e, f1)
       | Some (Inr _, f1) \<Rightarrow> dirty_log_loop E mm ranges (off + mr_length mr) f1))"

text \<open>\<^verbatim>\<open>File::set_len\<close> on the open file.\<close>

definition file_set_len :: "mem_file \<Rightarrow> u64 \<Rightarrow> mem_file" where
  "file_set_len f n = f\<lparr>file_bytes := resize_bytes n (file_bytes f)\<rparr>"

definition send_dirty_log_memory :: "snap_env \<Rightarrow> MemoryManager \<Rightarrow> u8 list option \<Rightarrow> send_result" where
  "send_dirty_log_memory E mm target = (case open_for_fresh_write E target of
       Inl e \<Rightarrow> Some (Inl e, target)
     | Inr f \<Rightarrow>
         (let go = (\<lambda>f1. case dirty_log_loop E mm (snapshot_memory_ranges mm) 0 f1 of
              None \<Rightarrow> None | Some (r, f2) \<Rightarrow> Some (r, Some (file_bytes f2)))
          in if env_external E then go f
             else (case env_set_len E of
                 Some e \<Rightarrow> Some (Inl (SetLenError e), Some (file_bytes f))
               | None \<Rightarrow> go (file_set_len f (env_total_size E)))))"

text \<open>\<^verbatim>\<open>Transportable::send\<close>.\<close>

definition send_memory :: "snap_env \<Rightarrow> SnapshotType \<Rightarrow> MemoryManager \<Rightarrow> u8 list option
    \<Rightarrow> ((MigratableError + unit) \<times> u8 list option \<times> MemoryManager \<times> bool) option" where
  "send_memory E snapshot_type mm target =
    (if snapshot_memory_ranges mm = [] then Some (Inr (), target, mm, False)
     else if \<not> env_url E then Some (Inl UrlError, target, mm, False)
     else if dirty_log mm
       then map_option (\<lambda>(r, t). (r, t, mm, False)) (send_dirty_log_memory E mm target)
     else case snapshot_type of
       Incremental \<Rightarrow> map_option (\<lambda>(r, t). (r, t, mm, False)) (send_pagemap_anon_memory E mm target)
     | SoftDirty \<Rightarrow> send_soft_dirty_memory E mm target
     | Full \<Rightarrow> map_option (\<lambda>(r, t). (r, t, mm, False)) (send_full_memory E mm target))"

text \<open>\<^verbatim>\<open>Migratable::dirty_log\<close>: the table of dirty pages of a migration pass.\<close>

fun dirty_log_table :: "snap_env \<Rightarrow> GuestRamMapping list \<Rightarrow> MemoryRangeTable
    \<Rightarrow> MigratableError + MemoryRangeTable" where
  "dirty_log_table E [] table = Inr table"
| "dirty_log_table E (m # ms) table =
    (case env_get_dirty_log E (grm_slot m) (grm_gpa m) (grm_size m) of
       Inl e \<Rightarrow> Inl (DirtyLogError e)
     | Inr vm_dirty \<Rightarrow> (case vmm_bitmap E (grm_gpa m) (grm_size m) of
         Inl e \<Rightarrow> Inl e
       | Inr vmm_dirty \<Rightarrow> dirty_log_table E ms
           (table @ from_bitmap (merge_bitmaps vm_dirty vmm_dirty) (grm_gpa m) (env_page_size E))))"

end
