(* ===== verification/Snapshot_Exact.thy ===== *)
theory Snapshot_Exact
  imports Mem_Snapshot
begin

text \<open>
  What a memory snapshot holds: after a full snapshot to a new file, and after an incremental or soft-dirty
  snapshot over a file that differs from memory only on pages the kernel marks, the file is
  the guest's memory, region after region. The marks and the file are then followed over any
  number of snapshot cycles.
\<close>

section \<open>Writing files\<close>

text \<open>A seek succeeds, and \<open>write_volatile_to\<close> writes at least one and at most as many bytes as
  asked, when it is asked for some.\<close>

definition writer_ok :: "snap_env \<Rightarrow> bool" where
  "writer_ok E \<longleftrightarrow> (\<forall>p. env_seek E p = None) \<and>
     (\<forall>a c. \<exists>n. env_write_volatile_to E a c = Inr n \<and> n \<le> c \<and> (c \<noteq> 0 \<longrightarrow> n \<noteq> 0))"

lemma length_guest_bytes [simp]: "length (guest_bytes mem a n) = n"
  by (simp add: guest_bytes_def)

lemma guest_bytes_add:
  "guest_bytes mem a (m + n) = guest_bytes mem a m @ guest_bytes mem (a + of_nat m) n"
  by (rule nth_equalityI) (auto simp: guest_bytes_def nth_append add.assoc simp flip: of_nat_add)

lemma file_write_append: "file_write (file_write f a) b = file_write f (a @ b)"
  by (simp add: file_write_def min_def add_ac)

lemma save_loop_ok:
  assumes w: "\<And>a c. \<exists>n. wv a c = Inr n \<and> n \<le> c \<and> (c \<noteq> 0 \<longrightarrow> n \<noteq> 0)"
  shows "off \<le> mr_length r \<Longrightarrow> save_loop wv mem r off f =
    Some (Inr (), file_write f (guest_bytes mem (gpa r + off) (unat (mr_length r - off))))"
proof (induction "unat (mr_length r - off)" arbitrary: off f rule: less_induct)
  case less
  let ?c = "mr_length r - off"
  obtain n where n: "wv (gpa r + off) ?c = Inr n" "n \<le> ?c" "?c \<noteq> 0 \<longrightarrow> n \<noteq> 0" using w by blast
  let ?f1 = "file_write f (guest_bytes mem (gpa r + off) (unat n))"
  have split: "unat ?c = unat n + unat (?c - n)" using n(2) by (simp add: unat_sub word_le_nat_alt)
  show ?case
  proof (cases "off + n = mr_length r")
    case True
    then have "n = ?c" by (simp add: algebra_simps)
    with True n(1) show ?thesis by (simp add: save_loop.simps)
  next
    case False
    have sub: "mr_length r - (off + n) = ?c - n" by simp
    have "n \<noteq> 0" using n(2,3) False by auto
    then have "unat (?c - n) < unat ?c" using split by (simp add: unat_gt_0)
    moreover have "off + n \<le> mr_length r"
    proof -
      have "unat off + unat n \<le> unat (mr_length r)"
        using less.prems n(2) by (simp add: word_le_nat_alt unat_sub)
      moreover from this have "unat (off + n) = unat off + unat n"
        by (intro unat_add_no_wrap) (erule le_less_trans, simp)
      ultimately show ?thesis by (simp add: word_le_nat_alt)
    qed
    ultimately have "save_loop wv mem r (off + n) ?f1 =
        Some (Inr (), file_write ?f1 (guest_bytes mem (gpa r + (off + n)) (unat (?c - n))))"
      using less.hyps [of "off + n" ?f1] sub by simp
    moreover have "save_loop wv mem r off f = save_loop wv mem r (off + n) ?f1"
      using False n(1) by (subst save_loop.simps) simp
    ultimately show ?thesis
      by (simp add: file_write_append split guest_bytes_add add.assoc)
  qed
qed

definition overwrite :: "nat \<Rightarrow> 'a list \<Rightarrow> 'a list \<Rightarrow> 'a list" where
  "overwrite off data bs = take off bs @ data @ drop (off + length data) bs"

lemma length_overwrite [simp]: "off + length data \<le> length bs \<Longrightarrow> length (overwrite off data bs) = length bs"
  by (simp add: overwrite_def)

lemma save_range_ok:
  assumes w: "writer_ok E" and c: "off = 0 \<longrightarrow> cursor f = 0"
    and fit: "unat off + unat (mr_length r) \<le> length (file_bytes f)"
  shows "save_range_to_file E mem f r off = Some (Inr (),
    f\<lparr>file_bytes := overwrite (unat off) (guest_bytes mem (gpa r) (unat (mr_length r))) (file_bytes f),
      cursor := unat off + unat (mr_length r)\<rparr>)"
proof -
  have "save_loop (env_write_volatile_to E) mem r 0 g =
      Some (Inr (), file_write g (guest_bytes mem (gpa r) (unat (mr_length r))))" for g
    using save_loop_ok [of "env_write_volatile_to E" 0 r mem g] w by (simp add: writer_ok_def)
  then show ?thesis
    using w c fit by (auto simp: save_range_to_file_def writer_ok_def file_write_def overwrite_def)
qed

text \<open>Overlaying ranges whose file offsets ascend.\<close>

lemma write_ranges_ok:
  assumes w: "writer_ok E"
  shows "\<lbrakk>\<forall>x \<in> set xs. calculate_file_offset_for_gpa (gpa x) (mr_length x) offs = Inr (fo x) \<and>
      cursor f \<le> unat (fo x) \<and> unat (fo x) + unat (mr_length x) \<le> length (file_bytes f);
    sorted_wrt (\<lambda>x y. unat (fo x) + unat (mr_length x) \<le> unat (fo y)) xs\<rbrakk> \<Longrightarrow>
    \<exists>f'. write_ranges E mem offs xs f = Some (Inr (), f') \<and> file_bytes f' =
      fold (\<lambda>x. overwrite (unat (fo x)) (guest_bytes mem (gpa x) (unat (mr_length x)))) xs (file_bytes f)"
proof (induction xs arbitrary: f)
  case (Cons x xs)
  have "fo x = 0 \<longrightarrow> cursor f = 0" using Cons.prems(1) by auto
  then have s: "save_range_to_file E mem f x (fo x) = Some (Inr (),
    f\<lparr>file_bytes := overwrite (unat (fo x)) (guest_bytes mem (gpa x) (unat (mr_length x))) (file_bytes f),
      cursor := unat (fo x) + unat (mr_length x)\<rparr>)" (is "_ = Some (_, ?f1)")
    using save_range_ok [OF w] Cons.prems(1) by simp
  have "\<exists>f'. write_ranges E mem offs xs ?f1 = Some (Inr (), f') \<and> file_bytes f' =
      fold (\<lambda>x. overwrite (unat (fo x)) (guest_bytes mem (gpa x) (unat (mr_length x)))) xs (file_bytes ?f1)"
    by (rule Cons.IH) (use Cons.prems in auto)
  then show ?case using Cons.prems(1) s by simp
qed simp

text \<open>Overlaying slices of one image: what is covered is the image, the rest is as before.\<close>

lemma nth_overwrite_slice:
  assumes "length new = length bs" "off + n \<le> length new" "p < length bs"
  shows "overwrite off (take n (drop off new)) bs ! p = (if off \<le> p \<and> p < off + n then new ! p else bs ! p)"
  using assms by (auto simp: overwrite_def nth_append min_def)

lemma fold_overwrite_slices:
  assumes "\<forall>x \<in> set xs. off x + len x \<le> length new \<and> data x = take (len x) (drop (off x) new)"
  shows "length bs = length new \<Longrightarrow>
    length (fold (\<lambda>x. overwrite (off x) (data x)) xs bs) = length new \<and>
    (\<forall>p < length new. fold (\<lambda>x. overwrite (off x) (data x)) xs bs ! p =
      (if \<exists>x \<in> set xs. off x \<le> p \<and> p < off x + len x then new ! p else bs ! p))"
  using assms
proof (induction xs arbitrary: bs)
  case (Cons x xs)
  have x: "off x + len x \<le> length new" "data x = take (len x) (drop (off x) new)"
    using Cons.prems(2) by auto
  let ?bs = "overwrite (off x) (data x) bs"
  have "length ?bs = length new" using x Cons.prems(1) by (simp add: overwrite_def)
  then have "length (fold (\<lambda>x. overwrite (off x) (data x)) xs ?bs) = length new \<and>
    (\<forall>p < length new. fold (\<lambda>x. overwrite (off x) (data x)) xs ?bs ! p =
      (if \<exists>x \<in> set xs. off x \<le> p \<and> p < off x + len x then new ! p else ?bs ! p))"
    using Cons.IH [of ?bs] Cons.prems(2) by simp
  then show ?case
    using nth_overwrite_slice [of new bs "off x" "len x"] x Cons.prems(1) by auto
qed simp

section \<open>The layout of the file\<close>

definition mem_image :: "(u64 \<Rightarrow> u8) \<Rightarrow> MemoryRange list \<Rightarrow> u8 list" where
  "mem_image mem rs = concat (map (\<lambda>r. guest_bytes mem (gpa r) (unat (mr_length r))) rs)"

definition size_of :: "MemoryRange list \<Rightarrow> nat" where
  "size_of rs = sum_list (map (\<lambda>r. unat (mr_length r)) rs)"

text \<open>Regions as the memory manager keeps them: whole pages, below the end of the address
  space, apart from each other, and together smaller than 2^64 bytes.\<close>

definition apart :: "MemoryRange \<Rightarrow> MemoryRange \<Rightarrow> bool" where
  "apart r r' \<longleftrightarrow> unat (gpa r) + unat (mr_length r) \<le> unat (gpa r') \<or>
     unat (gpa r') + unat (mr_length r') \<le> unat (gpa r)"

definition regions_ok :: "u64 \<Rightarrow> MemoryRange list \<Rightarrow> bool" where
  "regions_ok ps rs \<longleftrightarrow> sorted_wrt apart rs \<and> size_of rs < 2 ^ 64 \<and>
     (\<forall>r \<in> set rs. unat (gpa r) + unat (mr_length r) < 2 ^ 64 \<and> unat (mr_length r) mod unat ps = 0)"

definition inside :: "MemoryRange \<Rightarrow> MemoryRange \<Rightarrow> bool" where
  "inside x r \<longleftrightarrow> unat (gpa r) \<le> unat (gpa x) \<and> 0 < unat (mr_length x) \<and>
     unat (gpa x) + unat (mr_length x) \<le> unat (gpa r) + unat (mr_length r)"

lemma size_of_simps [simp]:
  "size_of [] = 0" "size_of (r # rs) = unat (mr_length r) + size_of rs"
  "size_of (rs @ rs') = size_of rs + size_of rs'"
  by (simp_all add: size_of_def)

lemma length_image [simp]: "length (mem_image mem rs) = size_of rs"
  by (induction rs) (simp_all add: mem_image_def)

lemma slice_image:
  assumes x: "inside x r" and r: "unat (gpa r) + unat (mr_length r) < 2 ^ 64"
  shows "take (unat (mr_length x)) (drop (size_of pre + (unat (gpa x) - unat (gpa r))) (mem_image mem (pre @ r # post)))
    = guest_bytes mem (gpa x) (unat (mr_length x))"
proof -
  let ?d = "unat (gpa x) - unat (gpa r)" and ?n = "unat (mr_length x)"
  have img: "mem_image mem (pre @ r # post) = mem_image mem pre @ guest_bytes mem (gpa r) (unat (mr_length r)) @ mem_image mem post"
    by (simp add: mem_image_def)
  have "gpa r + of_nat ?d = gpa x" using x by (simp add: inside_def of_nat_diff)
  moreover obtain k where k: "unat (mr_length r) = ?d + (?n + k)"
    using x by (auto simp: inside_def dest!: le_Suc_ex)
  ultimately show ?thesis
    by (simp add: img guest_bytes_add [of mem "gpa r" ?d] guest_bytes_add [of mem "gpa x" ?n])
qed

lemma nth_mem_image:
  "j < unat (mr_length r) \<Longrightarrow> mem_image mem (pre @ r # post) ! (size_of pre + j) = mem (gpa r + of_nat j)"
proof -
  have "mem_image mem (pre @ r # post) = mem_image mem pre @ guest_bytes mem (gpa r) (unat (mr_length r)) @ mem_image mem post"
    by (simp add: mem_image_def)
  then show "j < unat (mr_length r) \<Longrightarrow> ?thesis" by (simp add: nth_append guest_bytes_def)
qed

text \<open>The offset computed for a piece of a region is that of the region plus the distance.\<close>

lemma contains_iff:
  fixes a len g n :: u64
  assumes "unat a + unat len < 2 ^ 64" "unat g + unat n < 2 ^ 64"
  shows "g \<le> a \<and> a + len \<le> g + n \<longleftrightarrow> unat g \<le> unat a \<and> unat a + unat len \<le> unat g + unat n"
  using assms by (simp add: word_le_nat_alt unat_add_no_wrap)

lemma calculate_offset:
  assumes "sorted_wrt apart (pre @ r # post)" "inside x r"
    and "\<forall>q \<in> set (pre @ r # post). unat (gpa q) + unat (mr_length q) < 2 ^ 64"
  shows "calculate_file_offset_for_gpa (gpa x) (mr_length x) (gpa_to_file_offset off (pre @ r # post))
    = Inr (off + of_nat (size_of pre) + (gpa x - gpa r))"
  using assms
proof (induction pre arbitrary: off)
  case Nil
  have "unat (gpa x) + unat (mr_length x) < 2 ^ 64" using Nil.prems(2,3) by (auto simp: inside_def)
  then have "gpa r \<le> gpa x \<and> gpa x + mr_length x \<le> gpa r + mr_length r"
    using Nil.prems(2,3) contains_iff by (auto simp: inside_def)
  then show ?case by simp
next
  case (Cons q pre)
  have b: "unat (gpa x) + unat (mr_length x) < 2 ^ 64" using Cons.prems(2,3) by (auto simp: inside_def)
  have "\<not> (gpa q \<le> gpa x \<and> gpa x + mr_length x \<le> gpa q + mr_length q)"
    using contains_iff [OF b, of "gpa q" "mr_length q"] Cons.prems by (auto simp: apart_def inside_def)
  moreover have "calculate_file_offset_for_gpa (gpa x) (mr_length x)
      (gpa_to_file_offset (off + mr_length q) (pre @ r # post))
    = Inr (off + mr_length q + of_nat (size_of pre) + (gpa x - gpa r))"
    using Cons by simp
  ultimately show ?case by (auto simp: algebra_simps)
qed

section \<open>Overlaying marked pages\<close>

text \<open>The ranges written for the pages \<open>Q\<close> of a region, and for all regions.\<close>

definition marked :: "(MemoryRange \<Rightarrow> nat \<Rightarrow> bool) \<Rightarrow> u64 \<Rightarrow> MemoryRange \<Rightarrow> MemoryRange list" where
  "marked Q ps r = fst (coalesce_pages_to_ranges (gpa r) (map (Q r) [0..<region_pages ps r]) ps)"

text \<open>The file agrees with memory except on marked pages.\<close>

definition stale_only :: "(MemoryRange \<Rightarrow> nat \<Rightarrow> bool) \<Rightarrow> u64 \<Rightarrow> (u64 \<Rightarrow> u8) \<Rightarrow> MemoryRange list \<Rightarrow> u8 list \<Rightarrow> bool" where
  "stale_only Q ps mem rs base \<longleftrightarrow> length base = size_of rs \<and>
     (\<forall>pre r post j. rs = pre @ r # post \<and> j < unat (mr_length r) \<and> \<not> Q r (j div unat ps) \<longrightarrow>
        base ! (size_of pre + j) = mem (gpa r + of_nat j))"

lemma region_pages_exact:
  assumes "unat (mr_length r) mod unat ps = 0"
  shows "region_pages ps r * unat ps = unat (mr_length r)"
proof -
  have "mr_length r mod ps = 0"
    using assms by (intro unsigned_word_eqI [where 'a = nat]) (simp add: unat_mod)
  then show ?thesis using assms by (simp add: region_pages_def div_ceil_def unat_div mod_0_imp_dvd)
qed

lemma marked_inside:
  assumes ok: "regions_ok ps rs" and ps: "0 < ps" and r: "r \<in> set rs" and x: "x \<in> set (marked Q ps r)"
  shows "inside x r"
proof -
  have e: "region_pages ps r * unat ps = unat (mr_length r)"
    using ok r by (intro region_pages_exact) (simp add: regions_ok_def)
  have fit: "unat (gpa r) + length (map (Q r) [0..<region_pages ps r]) * unat ps < 2 ^ 64"
    using ok r e by (simp add: regions_ok_def)
  obtain i n where i: "unat (gpa x) = unat (gpa r) + i * unat ps" "unat (mr_length x) = n * unat ps"
    "0 < n" "i + n \<le> region_pages ps r"
    using coalesce_range [OF fit, of x] x unfolding marked_def by auto
  have "(i + n) * unat ps \<le> region_pages ps r * unat ps" using i(4) by (rule mult_le_mono1)
  then show ?thesis using i ps e by (simp add: inside_def word_less_nat_alt add_mult_distrib)
qed

lemma marked_covers:
  assumes ok: "regions_ok ps rs" and ps: "0 < ps" and r: "r \<in> set rs"
    and j: "j < unat (mr_length r)" and Q: "Q r (j div unat ps)"
  shows "\<exists>x \<in> set (marked Q ps r). unat (gpa x) \<le> unat (gpa r) + j \<and>
    unat (gpa r) + j < unat (gpa x) + unat (mr_length x)"
proof -
  have p: "0 < unat ps" using ps by (simp add: word_less_nat_alt)
  have e: "region_pages ps r * unat ps = unat (mr_length r)"
    using ok r by (intro region_pages_exact) (simp add: regions_ok_def)
  let ?bm = "map (Q r) [0..<region_pages ps r]"
  have fit: "unat (gpa r) + length ?bm * unat ps < 2 ^ 64" using ok r e by (simp add: regions_ok_def)
  have k: "j div unat ps < region_pages ps r" using j e p by (simp add: div_less_iff_less_mult)
  have "j div unat ps * unat ps \<le> j \<and> j < Suc (j div unat ps) * unat ps"
    using p by (metis div_times_less_eq_dividend dividend_less_times_div mult.commute mult_Suc)
  then have "covers (marked Q ps r) (unat (gpa r) + j)"
    unfolding marked_def covers_coalesce [OF fit ps] using k Q
    by (intro exI [of _ "j div unat ps"]) simp
  then show ?thesis by (auto simp: covers_def list_ex_iff)
qed

lemma marked_offset:
  assumes ok: "regions_ok ps (pre @ r # post)" and x: "inside x r"
  shows "calculate_file_offset_for_gpa (gpa x) (mr_length x) (gpa_to_file_offset 0 (pre @ r # post))
      = Inr (of_nat (size_of pre) + (gpa x - gpa r))"
    "unat (of_nat (size_of pre) + (gpa x - gpa r)) = size_of pre + (unat (gpa x) - unat (gpa r))"
proof -
  show "calculate_file_offset_for_gpa (gpa x) (mr_length x) (gpa_to_file_offset 0 (pre @ r # post))
      = Inr (of_nat (size_of pre) + (gpa x - gpa r))"
    using calculate_offset [of pre r post x 0] ok x by (simp add: regions_ok_def)
  have sz: "size_of pre + unat (mr_length r) < 2 ^ 64" using ok by (simp add: regions_ok_def)
  have d: "unat (gpa x - gpa r) = unat (gpa x) - unat (gpa r)"
    using x by (simp add: inside_def unat_sub word_le_nat_alt)
  have "unat (gpa x) - unat (gpa r) \<le> unat (mr_length r)" using x unfolding inside_def by linarith
  then show "unat (of_nat (size_of pre) + (gpa x - gpa r)) = size_of pre + (unat (gpa x) - unat (gpa r))"
    using sz d by (subst unat_add_no_wrap) (simp_all add: unat_of_nat)
qed

lemma locate:
  "p < size_of rs \<Longrightarrow> \<exists>pre r post j. rs = pre @ r # post \<and> j < unat (mr_length r) \<and> p = size_of pre + j"
proof (induction rs arbitrary: p)
  case (Cons q rs)
  show ?case
  proof (cases "p < unat (mr_length q)")
    case True
    then show ?thesis by (intro exI [of _ "[]"]) auto
  next
    case False
    with Cons.prems have "p - unat (mr_length q) < size_of rs" by simp
    from Cons.IH [OF this] obtain pre r post j where "rs = pre @ r # post" "j < unat (mr_length r)"
      "p - unat (mr_length q) = size_of pre + j" by (elim exE conjE)
    then show ?thesis using False by (intro exI [of _ "q # pre"]) auto
  qed
qed simp

definition file_offset_of :: "MemoryRange list \<Rightarrow> MemoryRange \<Rightarrow> u64" where
  "file_offset_of rs x = (case calculate_file_offset_for_gpa (gpa x) (mr_length x) (gpa_to_file_offset 0 rs) of
     Inr off \<Rightarrow> off | Inl _ \<Rightarrow> 0)"

lemma marked_file_offset:
  assumes ok: "regions_ok ps rs" and rs: "rs = pre @ r # post" and x: "inside x r"
  shows "calculate_file_offset_for_gpa (gpa x) (mr_length x) (gpa_to_file_offset 0 rs) = Inr (file_offset_of rs x)"
    "unat (file_offset_of rs x) = size_of pre + (unat (gpa x) - unat (gpa r))"
    "unat (file_offset_of rs x) + unat (mr_length x) \<le> size_of (pre @ [r])"
    "guest_bytes mem (gpa x) (unat (mr_length x)) =
       take (unat (mr_length x)) (drop (unat (file_offset_of rs x)) (mem_image mem rs))"
proof -
  note o = marked_offset [OF ok [unfolded rs] x, folded rs]
  show c: "calculate_file_offset_for_gpa (gpa x) (mr_length x) (gpa_to_file_offset 0 rs) = Inr (file_offset_of rs x)"
    and u: "unat (file_offset_of rs x) = size_of pre + (unat (gpa x) - unat (gpa r))"
    unfolding file_offset_of_def o(1) by (simp_all add: o(2))
  show "unat (file_offset_of rs x) + unat (mr_length x) \<le> size_of (pre @ [r])"
    using u x unfolding inside_def size_of_simps by linarith
  show "guest_bytes mem (gpa x) (unat (mr_length x)) =
       take (unat (mr_length x)) (drop (unat (file_offset_of rs x)) (mem_image mem rs))"
    using slice_image [OF x, of pre mem post] ok unfolding u by (simp add: rs regions_ok_def)
qed

text \<open>The written ranges come in ascending order of their place in the file.\<close>

lemma marked_sorted:
  assumes ok: "regions_ok ps rs" and ps: "0 < ps"
  shows "rs = pre @ post \<Longrightarrow> sorted_wrt (\<lambda>x y. unat (file_offset_of rs x) + unat (mr_length x) \<le> unat (file_offset_of rs y))
    (concat (map (marked Q ps) post)) \<and>
    (\<forall>x \<in> set (concat (map (marked Q ps) post)). size_of pre \<le> unat (file_offset_of rs x))"
proof (induction post arbitrary: pre)
  case (Cons r post)
  have r: "r \<in> set rs" using Cons.prems by simp
  have in_r: "inside x r" if "x \<in> set (marked Q ps r)" for x
    using marked_inside [OF ok ps r that] .
  note fo = marked_file_offset [OF ok Cons.prems in_r]
  have IH: "sorted_wrt (\<lambda>x y. unat (file_offset_of rs x) + unat (mr_length x) \<le> unat (file_offset_of rs y))
      (concat (map (marked Q ps) post))"
    "\<forall>x \<in> set (concat (map (marked Q ps) post)). size_of (pre @ [r]) \<le> unat (file_offset_of rs x)"
    using Cons.IH [of "pre @ [r]"] Cons.prems by simp_all
  have fit: "unat (gpa r) + length (map (Q r) [0..<region_pages ps r]) * unat ps < 2 ^ 64"
    using ok r region_pages_exact [of r ps] by (simp add: regions_ok_def)
  have "sorted_wrt (\<lambda>x y. unat (file_offset_of rs x) + unat (mr_length x) \<le> unat (file_offset_of rs y)) (marked Q ps r)"
  proof (rule sorted_wrt_mono_rel [OF _ coalesce_sorted [OF fit ps, folded marked_def]])
    fix x y assume xy: "x \<in> set (marked Q ps r)" "y \<in> set (marked Q ps r)"
      "unat (gpa x) + unat (mr_length x) < unat (gpa y)"
    then show "unat (file_offset_of rs x) + unat (mr_length x) \<le> unat (file_offset_of rs y)"
      using fo(2) in_r [OF xy(1)] unfolding inside_def by simp
  qed
  then show ?case
    using IH fo(2,3) by (fastforce simp: sorted_wrt_append intro: order_trans)
qed simp

text \<open>Overlaying the marked pages makes the file the image of memory.\<close>

lemma overlay_exact:
  assumes w: "writer_ok E" and op: "env_open E = None" and ok: "regions_ok ps (snapshot_memory_ranges mm)"
    and ps: "0 < ps" and stale: "stale_only Q ps (guest_memory mm) (snapshot_memory_ranges mm) base"
  shows "overlay E mm (concat (map (marked Q ps) (snapshot_memory_ranges mm))) (Some base) =
    Some (Inr (), Some (mem_image (guest_memory mm) (snapshot_memory_ranges mm)))"
proof -
  let ?rs = "snapshot_memory_ranges mm" and ?mem = "guest_memory mm"
  let ?xs = "concat (map (marked Q ps) ?rs)" and ?new = "mem_image ?mem ?rs"
  let ?fo = "file_offset_of ?rs"
  have len: "length base = length ?new" using stale by (simp add: stale_only_def)
  have x: "calculate_file_offset_for_gpa (gpa x) (mr_length x) (gpa_to_file_offset 0 ?rs) = Inr (?fo x) \<and>
      unat (?fo x) + unat (mr_length x) \<le> length ?new \<and>
      guest_bytes ?mem (gpa x) (unat (mr_length x)) = take (unat (mr_length x)) (drop (unat (?fo x)) ?new)"
    if m: "x \<in> set ?xs" for x
  proof -
    from m obtain r where r: "r \<in> set ?rs" "x \<in> set (marked Q ps r)" by auto
    from split_list [OF r(1)] obtain pre post where rs: "?rs = pre @ r # post" by (elim exE)
    have "size_of (pre @ [r]) \<le> size_of ?rs" unfolding rs by simp
    then show ?thesis
      using marked_file_offset [OF ok rs marked_inside [OF ok ps r]] by simp
  qed
  obtain f where f: "write_ranges E ?mem (gpa_to_file_offset 0 ?rs) ?xs \<lparr>file_bytes = base, cursor = 0\<rparr> = Some (Inr (), f)"
    "file_bytes f = fold (\<lambda>x. overwrite (unat (?fo x)) (guest_bytes ?mem (gpa x) (unat (mr_length x)))) ?xs base"
    using write_ranges_ok [OF w, of ?xs "gpa_to_file_offset 0 ?rs" ?fo "\<lparr>file_bytes = base, cursor = 0\<rparr>" ?mem]
      x marked_sorted [OF ok ps, of "[]" ?rs Q] len by auto
  have sl: "\<forall>x \<in> set ?xs. unat (?fo x) + unat (mr_length x) \<le> length ?new \<and>
      guest_bytes ?mem (gpa x) (unat (mr_length x)) = take (unat (mr_length x)) (drop (unat (?fo x)) ?new)"
    by (intro ballI) (erule x [THEN conjunct2])
  note res = fold_overwrite_slices [OF sl len, folded f(2)]
  have "file_bytes f = ?new"
  proof (rule nth_equalityI)
    show "length (file_bytes f) = length ?new" using res by (rule conjunct1)
    fix p assume "p < length (file_bytes f)"
    then have p: "p < length ?new" using res by simp
    then have "p < size_of ?rs" by simp
    from locate [OF this] obtain pre r post j where
      l: "?rs = pre @ r # post" "j < unat (mr_length r)" "p = size_of pre + j" by (elim exE conjE)
    have r: "r \<in> set ?rs" unfolding l(1) by simp
    show "file_bytes f ! p = ?new ! p"
    proof (cases "Q r (j div unat ps)")
      case True
      from marked_covers [where Q = Q, OF ok ps r l(2) True] obtain y where
        y: "y \<in> set (marked Q ps r)" "unat (gpa y) \<le> unat (gpa r) + j"
        "unat (gpa r) + j < unat (gpa y) + unat (mr_length y)" by (elim bexE conjE)
      have "inside y r" by (rule marked_inside [OF ok ps r y(1)])
      then have "unat (?fo y) \<le> p \<and> p < unat (?fo y) + unat (mr_length y)"
        using marked_file_offset(2) [OF ok l(1), of y] y(2,3) l(3) unfolding inside_def by linarith
      moreover have "y \<in> set ?xs" using y(1) r by auto
      ultimately show ?thesis using res p by auto
    next
      case False
      then have "base ! p = ?new ! p"
        using stale l nth_mem_image [OF l(2)] unfolding stale_only_def by metis
      then show ?thesis using res p by simp
    qed
  qed
  then show ?thesis using f(1) op by (simp add: overlay_def)
qed

section \<open>One snapshot\<close>

text \<open>The pages the kernel marks for a region.\<close>

definition anon_mark :: "snap_env \<Rightarrow> (u64 \<Rightarrow> u64) \<Rightarrow> (u64 \<Rightarrow> u64) \<Rightarrow> MemoryRange \<Rightarrow> nat \<Rightarrow> bool" where
  "anon_mark E entries flags r i \<longleftrightarrow>
     anon_page flags (entries (page_number (env_page_size E) (env_host E) r i))"

definition dirty_mark :: "snap_env \<Rightarrow> (u64 \<Rightarrow> u64) \<Rightarrow> MemoryRange \<Rightarrow> nat \<Rightarrow> bool" where
  "dirty_mark E entries r i \<longleftrightarrow> soft_dirty_entry (entries (page_number (env_page_size E) (env_host E) r i))"

text \<open>An environment in which nothing fails, and a memory manager with regions as they are kept.\<close>

definition snapshot_env_ok :: "snap_env \<Rightarrow> (u64 \<Rightarrow> u64) \<Rightarrow> (u64 \<Rightarrow> u64) \<Rightarrow> MemoryRange list \<Rightarrow> bool" where
  "snapshot_env_ok E entries flags rs \<longleftrightarrow> kernel_reports (env_proc E) entries flags \<and>
     frames_visible entries \<and> 4096 \<le> env_page_size E \<and> env_url E \<and> env_open E = None \<and> writer_ok E \<and>
     regions_ok (env_page_size E) rs \<and> (\<forall>r \<in> set rs. region_ok (env_page_size E) (env_host E) r)"

lemma filter_loop_marked:
  assumes "\<And>r. r \<in> set rs \<Longrightarrow> pages r = Inr (map (Q r) [0..<region_pages ps r])"
  shows "\<exists>st. filter_loop pages ps rs [] no_stats = Inr (concat (map (marked Q ps) rs), st)"
  using filter_loop_ok [of rs pages "\<lambda>r. map (Q r) [0..<region_pages ps r]" ps "[]" no_stats] assms
  unfolding marked_def by (auto simp del: filter_loop.simps)

lemma env_okD:
  assumes "snapshot_env_ok E entries flags rs"
  shows "0 < env_page_size E" "env_url E" "env_open E = None" "writer_ok E"
    "regions_ok (env_page_size E) rs"
  using assms less_le_trans [of 0 4096 "env_page_size E"] by (simp_all add: snapshot_env_ok_def)

lemma anon_filter_marked:
  assumes e: "snapshot_env_ok E entries flags rs"
  shows "\<exists>st. filter_memory_ranges_by_pagemap_anon (env_proc E) (env_page_size E) (env_host E) rs =
    Inr (concat (map (marked (anon_mark E entries flags) (env_page_size E)) rs), st)"
proof -
  have k: "kernel_reports (env_proc E) entries flags" "frames_visible entries" "4096 \<le> env_page_size E"
    "\<forall>r \<in> set rs. region_ok (env_page_size E) (env_host E) r"
    using e by (simp_all add: snapshot_env_ok_def)
  have "anon_pages_of (env_proc E) (env_page_size E) (env_host E) r =
      Inr (map (anon_mark E entries flags r) [0..<region_pages (env_page_size E) r])" if "r \<in> set rs" for r
    using bspec [OF k(4) that] unfolding anon_mark_def
    by (elim region_okE) (rule anon_pages_of_ok [OF k(1-3)])
  from filter_loop_marked [where Q = "anon_mark E entries flags" and rs = rs, OF this] show ?thesis
    by (auto simp: filter_memory_ranges_by_pagemap_anon_def)
qed

lemma both_filter_marked:
  assumes e: "snapshot_env_ok E entries flags rs"
  shows "\<exists>st. filter_memory_ranges_by_anon_and_soft_dirty (env_proc E) (env_page_size E) (env_host E) rs =
    Inr (concat (map (marked (\<lambda>r i. anon_mark E entries flags r i \<and> dirty_mark E entries r i)
      (env_page_size E)) rs), st)"
proof -
  let ?Q = "\<lambda>r i. anon_mark E entries flags r i \<and> dirty_mark E entries r i"
  have k: "kernel_reports (env_proc E) entries flags" "frames_visible entries" "4096 \<le> env_page_size E"
    "\<forall>r \<in> set rs. region_ok (env_page_size E) (env_host E) r"
    using e by (simp_all add: snapshot_env_ok_def)
  have "must_save_pages_of (env_proc E) (env_page_size E) (env_host E) r =
      Inr (map (?Q r) [0..<region_pages (env_page_size E) r])" if "r \<in> set rs" for r
    using bspec [OF k(4) that] unfolding anon_mark_def dirty_mark_def
    by (elim region_okE) (rule must_save_pages_of_ok [OF k(1-3)])
  from filter_loop_marked [where Q = ?Q and rs = rs, OF this] show ?thesis
    by (simp add: filter_memory_ranges_by_anon_and_soft_dirty_def)
qed

lemma send_pagemap_anon_exact:
  assumes e: "snapshot_env_ok E entries flags (snapshot_memory_ranges mm)"
    and s: "stale_only (anon_mark E entries flags) (env_page_size E) (guest_memory mm)
      (snapshot_memory_ranges mm) base"
  shows "send_pagemap_anon_memory E mm (Some base) =
    Some (Inr (), Some (mem_image (guest_memory mm) (snapshot_memory_ranges mm)))"
proof (cases "snapshot_memory_ranges mm = []")
  case True
  then show ?thesis using s by (simp add: send_pagemap_anon_memory_def stale_only_def mem_image_def)
next
  case False
  from anon_filter_marked [OF e] obtain st where
    "filter_memory_ranges_by_pagemap_anon (env_proc E) (env_page_size E) (env_host E) (snapshot_memory_ranges mm) =
     Inr (concat (map (marked (anon_mark E entries flags) (env_page_size E)) (snapshot_memory_ranges mm)), st)"
    by (elim exE)
  then show ?thesis
    using False env_okD [OF e] overlay_exact [OF _ _ _ _ s] by (simp add: send_pagemap_anon_memory_def)
qed

text \<open>The pages a soft-dirty snapshot relies on: the anonymous ones, and while the tracker is
  armed those that are soft-dirty as well.\<close>

definition tracker_mark :: "bool \<Rightarrow> snap_env \<Rightarrow> (u64 \<Rightarrow> u64) \<Rightarrow> (u64 \<Rightarrow> u64) \<Rightarrow> MemoryRange \<Rightarrow> nat \<Rightarrow> bool" where
  "tracker_mark armed E entries flags r i \<longleftrightarrow>
     anon_mark E entries flags r i \<and> (armed \<longrightarrow> dirty_mark E entries r i)"

lemma send_soft_dirty_exact:
  assumes e: "snapshot_env_ok E entries flags (snapshot_memory_ranges mm)"
    and s: "stale_only (tracker_mark (soft_dirty_armed mm) E entries flags) (env_page_size E)
      (guest_memory mm) (snapshot_memory_ranges mm) base"
  shows "\<exists>armed cleared. send_soft_dirty_memory E mm (Some base) = Some (Inr (),
      Some (mem_image (guest_memory mm) (snapshot_memory_ranges mm)), mm\<lparr>soft_dirty_armed := armed\<rparr>, cleared)"
proof (cases "snapshot_memory_ranges mm = []")
  case True
  then show ?thesis
    using s by (auto simp: send_soft_dirty_memory_def stale_only_def mem_image_def intro: exI [of _ "soft_dirty_armed mm"])
next
  case False
  show ?thesis
  proof (cases "soft_dirty_armed mm")
    case armed: False
    then have "stale_only (anon_mark E entries flags) (env_page_size E) (guest_memory mm) (snapshot_memory_ranges mm) base"
      using s by (simp add: tracker_mark_def stale_only_def)
    from send_pagemap_anon_exact [OF e this] show ?thesis
      using False armed
      by (auto simp: send_soft_dirty_memory_def intro: exI [of _ False] exI [of _ True])
  next
    case armed: True
    let ?Q = "\<lambda>r i. anon_mark E entries flags r i \<and> dirty_mark E entries r i"
    have st: "stale_only ?Q (env_page_size E) (guest_memory mm) (snapshot_memory_ranges mm) base"
      using s armed by (simp add: tracker_mark_def stale_only_def)
    from both_filter_marked [OF e] obtain stats where
      "filter_memory_ranges_by_anon_and_soft_dirty (env_proc E) (env_page_size E) (env_host E) (snapshot_memory_ranges mm) =
       Inr (concat (map (marked ?Q (env_page_size E)) (snapshot_memory_ranges mm)), stats)"
      by (elim exE)
    then show ?thesis
      using False armed env_okD [OF e] overlay_exact [OF _ _ _ _ st]
      by (cases "clear_soft_dirty (env_proc E)")
        (auto simp: send_soft_dirty_memory_def intro: exI [of _ True])
  qed
qed

text \<open>
  C11. An incremental snapshot (with the hypervisor's dirty log off) is exact: when nothing
  fails and the base file agrees with
  guest memory on every page the kernel does not report as anonymous, the snapshot returns,
  succeeds, and leaves the file equal to guest memory, region after region.
\<close>

theorem incremental_snapshot_exact:
  assumes "\<not> dirty_log mm" and "snapshot_env_ok E entries flags (snapshot_memory_ranges mm)"
    and "stale_only (anon_mark E entries flags) (env_page_size E) (guest_memory mm)
      (snapshot_memory_ranges mm) base"
  shows "send_memory E Incremental mm (Some base) =
    Some (Inr (), Some (mem_image (guest_memory mm) (snapshot_memory_ranges mm)), mm, False)"
  using send_pagemap_anon_exact [OF assms(2,3)] env_okD(2) [OF assms(2)] assms(1,3)
  by (cases "snapshot_memory_ranges mm") (simp_all add: send_memory_def stale_only_def mem_image_def)

text \<open>C11, applied: one region of one page; the guest wrote 9 at address 7 of a page that was
  zero in the base.\<close>

definition demo_env :: snap_env where
  "demo_env = \<lparr>env_proc = sim_proc (\<lambda>_. PAGEMAP_PRESENT_BIT OR PAGEMAP_SOFT_DIRTY_BIT OR 5) (\<lambda>_. KPF_ANON),
     env_page_size = 4096, env_host = (\<lambda>g. Some g), env_scratch = None, env_url = True,
     env_external = False, env_open = None, env_seek = (\<lambda>_. None),
     env_write_volatile_to = (\<lambda>_ c. Inr c), env_set_len = None, env_total_size = 4096,
     env_find_region = (\<lambda>_. None), env_get_dirty_log = (\<lambda>_ _ _. Inr [])\<rparr>"

definition demo_mm :: MemoryManager where
  "demo_mm = \<lparr>guest_memory = (\<lambda>_. 0)(7 := 9),
     snapshot_memory_ranges = [\<lparr>gpa = 0, mr_length = 4096\<rparr>], soft_dirty_armed = False,
     dirty_log = False, guest_ram_mappings = []\<rparr>"

lemma demo_env_ok:
  "snapshot_env_ok demo_env (\<lambda>_. PAGEMAP_PRESENT_BIT OR PAGEMAP_SOFT_DIRTY_BIT OR 5) (\<lambda>_. KPF_ANON)
     (snapshot_memory_ranges demo_mm)"
proof -
  have "frames_visible (\<lambda>_. PAGEMAP_PRESENT_BIT OR PAGEMAP_SOFT_DIRTY_BIT OR 5)"
    by (simp add: frames_visible_def PAGEMAP_PRESENT_BIT_def PAGEMAP_SOFT_DIRTY_BIT_def PAGEMAP_PFN_MASK_def)
  then show ?thesis
    by (simp add: snapshot_env_ok_def demo_env_def demo_mm_def sim_proc_reports writer_ok_def regions_ok_def
        region_ok_def region_pages_def div_ceil_def)
qed

lemma demo_marks:
  "anon_page (\<lambda>_. KPF_ANON) (PAGEMAP_PRESENT_BIT OR PAGEMAP_SOFT_DIRTY_BIT OR 5)"
  "soft_dirty_entry (PAGEMAP_PRESENT_BIT OR PAGEMAP_SOFT_DIRTY_BIT OR 5)"
  by code_simp+

theorem incremental_snapshot_exact_witness:
  "send_memory demo_env Incremental demo_mm (Some (replicate 4096 0)) =
     Some (Inr (), Some (mem_image ((\<lambda>_. 0)(7 := 9)) [\<lparr>gpa = 0, mr_length = 4096\<rparr>]), demo_mm, False)"
proof -
  have "stale_only (anon_mark demo_env (\<lambda>_. PAGEMAP_PRESENT_BIT OR PAGEMAP_SOFT_DIRTY_BIT OR 5) (\<lambda>_. KPF_ANON))
      (env_page_size demo_env) (guest_memory demo_mm) (snapshot_memory_ranges demo_mm) (replicate 4096 0)"
    by (simp add: stale_only_def anon_mark_def demo_marks demo_mm_def)
  from incremental_snapshot_exact [OF _ demo_env_ok this] show ?thesis by (simp add: demo_mm_def)
qed

section \<open>Snapshot cycles\<close>

text \<open>
  Memory manager and snapshot file, with the pages written by the guest since the restore
  (anonymous) and since the last clearing of the soft-dirty bits.
\<close>

record tracked =
  t_mm :: MemoryManager
  t_file :: "u8 list"
  t_anon :: "u64 set"
  t_dirty :: "u64 set"

definition pages_at :: "u64 \<Rightarrow> (u64 \<Rightarrow> u64 option) \<Rightarrow> MemoryRange list \<Rightarrow> u64 \<Rightarrow> u64 set" where
  "pages_at ps host rs a = {k. \<exists>r \<in> set rs. \<exists>j < unat (mr_length r). gpa r + of_nat j = a \<and>
     k = page_number ps host r (j div unat ps)}"

definition guest_writes :: "u64 \<Rightarrow> (u64 \<Rightarrow> u64 option) \<Rightarrow> u64 \<Rightarrow> u8 \<Rightarrow> tracked \<Rightarrow> tracked" where
  "guest_writes ps host a b s =
    (let pages = pages_at ps host (snapshot_memory_ranges (t_mm s)) a in
     s\<lparr>t_mm := (t_mm s)\<lparr>guest_memory := (guest_memory (t_mm s))(a := b)\<rparr>,
       t_anon := t_anon s \<union> pages, t_dirty := t_dirty s \<union> pages\<rparr>)"

text \<open>
  The kernel reports at least the pages written, in the bits of its documentation: a page
  written since the restore is in swap (bit 62 of its pagemap entry), or present (bit 63) on a
  frame (bits 0 to 54) whose flags have \<^verbatim>\<open>KPF_ANON\<close> (bit 12); a page written since the last
  clearing is soft-dirty (bit 55).
\<close>

definition reports_writes :: "(u64 \<Rightarrow> u64) \<Rightarrow> (u64 \<Rightarrow> u64) \<Rightarrow> tracked \<Rightarrow> bool" where
  "reports_writes entries flags s \<longleftrightarrow>
     (\<forall>k \<in> t_anon s. bit (entries k) 62 \<or> bit (entries k) 63 \<and> bit (flags (take_bit 55 (entries k))) 12) \<and>
     (\<forall>k \<in> t_dirty s. bit (entries k) 55)"

lemma and_bit_iff: "(e :: u64) AND push_bit n 1 \<noteq> 0 \<longleftrightarrow> bit e n"
  using and_exp_eq_0_iff_not_bit [of e n] by (simp add: push_bit_eq_mult)

lemmas pagemap_bits = and_bit_iff [of _ 63, folded PAGEMAP_PRESENT_BIT_def]
  and_bit_iff [of _ 62, folded PAGEMAP_SWAPPED_BIT_def] and_bit_iff [of _ 55, folded PAGEMAP_SOFT_DIRTY_BIT_def]
  and_bit_iff [of _ 12, folded KPF_ANON_def]

text \<open>What the code reads off those bits covers the pages written.\<close>

lemma reports_writesD:
  assumes "reports_writes entries flags s" "k \<in> t_anon s"
  shows "anon_page flags (entries k)" "k \<in> t_dirty s \<Longrightarrow> soft_dirty_entry (entries k)"
proof -
  have "e AND PAGEMAP_PFN_MASK = take_bit 55 e" for e
    by (simp add: PAGEMAP_PFN_MASK_def take_bit_eq_mask mask_eq_decr_exp)
  then show "anon_page flags (entries k)"
    using assms by (auto simp: reports_writes_def anon_page_def swapped_page_def present_page_def pagemap_bits)
  show "k \<in> t_dirty s \<Longrightarrow> soft_dirty_entry (entries k)"
    using assms by (auto simp: reports_writes_def soft_dirty_entry_def pagemap_bits Let_def)
qed

inductive snap_cycle :: "u64 \<Rightarrow> (u64 \<Rightarrow> u64 option) \<Rightarrow> tracked \<Rightarrow> tracked \<Rightarrow> bool"
  for ps host where
  guest_write: "snap_cycle ps host s (guest_writes ps host a b s)"
| soft_dirty_snapshot: "\<lbrakk>snapshot_env_ok E entries flags (snapshot_memory_ranges (t_mm s));
      env_page_size E = ps; env_host E = host; reports_writes entries flags s;
      send_soft_dirty_memory E (t_mm s) (Some (t_file s)) = Some (Inr (), Some file', mm', cleared)\<rbrakk>
    \<Longrightarrow> snap_cycle ps host s (s\<lparr>t_mm := mm', t_file := file',
        t_dirty := if cleared then {} else t_dirty s\<rparr>)"
| incremental_snapshot: "\<lbrakk>snapshot_env_ok E entries flags (snapshot_memory_ranges (t_mm s));
      env_page_size E = ps; env_host E = host; reports_writes entries flags s;
      send_pagemap_anon_memory E (t_mm s) (Some (t_file s)) = Some (Inr (), Some file')\<rbrakk>
    \<Longrightarrow> snap_cycle ps host s (s\<lparr>t_file := file'\<rparr>)"

definition written_mark :: "u64 \<Rightarrow> (u64 \<Rightarrow> u64 option) \<Rightarrow> tracked \<Rightarrow> MemoryRange \<Rightarrow> nat \<Rightarrow> bool" where
  "written_mark ps host s r i \<longleftrightarrow> page_number ps host r i \<in> t_anon s \<and>
     (soft_dirty_armed (t_mm s) \<longrightarrow> page_number ps host r i \<in> t_dirty s)"

text \<open>The invariant: the file is stale at most on pages written since the restore, and while the
  tracker is armed at most on pages written since the bits were cleared.\<close>

definition tracked_ok :: "u64 \<Rightarrow> (u64 \<Rightarrow> u64 option) \<Rightarrow> tracked \<Rightarrow> bool" where
  "tracked_ok ps host s \<longleftrightarrow> stale_only (written_mark ps host s) ps (guest_memory (t_mm s))
     (snapshot_memory_ranges (t_mm s)) (t_file s)"

lemma stale_only_mono:
  "stale_only Q ps mem rs base \<Longrightarrow> (\<And>r i. Q r i \<Longrightarrow> Q' r i) \<Longrightarrow> stale_only Q' ps mem rs base"
  unfolding stale_only_def by metis

lemma stale_only_image: "stale_only Q ps mem rs (mem_image mem rs)"
  by (auto simp: stale_only_def nth_mem_image)

lemma tracked_stale:
  assumes "tracked_ok ps host s" "reports_writes entries flags s" "env_page_size E = ps" "env_host E = host"
  shows "stale_only (tracker_mark (soft_dirty_armed (t_mm s)) E entries flags) ps (guest_memory (t_mm s))
     (snapshot_memory_ranges (t_mm s)) (t_file s)"
  using assms(1) unfolding tracked_ok_def
  by (rule stale_only_mono)
    (use assms(2-4) in \<open>auto simp: written_mark_def tracker_mark_def anon_mark_def dirty_mark_def
      dest: reports_writesD\<close>)

lemma guest_writes_ok:
  assumes "tracked_ok ps host s"
  shows "tracked_ok ps host (guest_writes ps host a b s)"
  unfolding tracked_ok_def stale_only_def
proof (intro conjI allI impI)
  let ?s = "guest_writes ps host a b s" and ?rs = "snapshot_memory_ranges (t_mm s)"
  have [simp]: "snapshot_memory_ranges (t_mm ?s) = ?rs" "t_file ?s = t_file s"
    "guest_memory (t_mm ?s) = (guest_memory (t_mm s))(a := b)"
    by (simp_all add: guest_writes_def Let_def)
  show "length (t_file ?s) = size_of (snapshot_memory_ranges (t_mm ?s))"
    using assms by (simp add: tracked_ok_def stale_only_def)
  fix pre r post j
  assume h: "snapshot_memory_ranges (t_mm ?s) = pre @ r # post \<and> j < unat (mr_length r) \<and>
      \<not> written_mark ps host ?s r (j div unat ps)"
  then have r: "?rs = pre @ r # post" "j < unat (mr_length r)" by simp_all
  have "\<not> written_mark ps host s r (j div unat ps)"
    using h by (auto simp: written_mark_def guest_writes_def Let_def)
  then have "t_file s ! (size_of pre + j) = guest_memory (t_mm s) (gpa r + of_nat j)"
    using assms r unfolding tracked_ok_def stale_only_def by metis
  moreover have "gpa r + of_nat j \<noteq> a"
    using h r by (auto simp: written_mark_def guest_writes_def Let_def pages_at_def)
  ultimately show "t_file ?s ! (size_of pre + j) = guest_memory (t_mm ?s) (gpa r + of_nat j)" by simp
qed

lemma snap_cycle_ok:
  "snap_cycle ps host s s' \<Longrightarrow> tracked_ok ps host s \<Longrightarrow> tracked_ok ps host s'"
proof (induction rule: snap_cycle.induct)
  case (guest_write s a b)
  then show ?case by (rule guest_writes_ok)
next
  case (soft_dirty_snapshot E entries flags s file' mm' cleared)
  have "stale_only (tracker_mark (soft_dirty_armed (t_mm s)) E entries flags) (env_page_size E)
      (guest_memory (t_mm s)) (snapshot_memory_ranges (t_mm s)) (t_file s)"
    using tracked_stale [OF soft_dirty_snapshot.prems soft_dirty_snapshot.hyps(4,2,3)]
      soft_dirty_snapshot.hyps(2) by simp
  from send_soft_dirty_exact [OF soft_dirty_snapshot.hyps(1) this] soft_dirty_snapshot.hyps(5)
  show ?case by (auto simp: tracked_ok_def stale_only_image)
next
  case (incremental_snapshot E entries flags s file')
  have "stale_only (anon_mark E entries flags) (env_page_size E)
      (guest_memory (t_mm s)) (snapshot_memory_ranges (t_mm s)) (t_file s)"
    using tracked_stale [OF incremental_snapshot.prems incremental_snapshot.hyps(4,2,3)]
      incremental_snapshot.hyps(2)
    by (auto simp: tracker_mark_def elim!: stale_only_mono)
  from send_pagemap_anon_exact [OF incremental_snapshot.hyps(1) this] incremental_snapshot.hyps(5)
  show ?case by (simp add: tracked_ok_def stale_only_image)
qed

text \<open>
  C12. Soft-dirty tracking loses no write (dirty log off): starting from a file equal to guest
  memory, after any sequence of guest writes and of successful incremental and soft-dirty
  snapshots, in which the kernel reports at least the pages written, whether or not arming or
  re-arming the tracker worked on the way, the file differs from guest memory only on pages
  written since the restore, and while the tracker is armed only on pages written since the
  bits were cleared; and the next soft-dirty snapshot, when no call fails, returns, succeeds
  and leaves the file equal to guest memory.
\<close>

theorem soft_dirty_cycles_exact:
  assumes start: "t_file s0 = mem_image (guest_memory (t_mm s0)) (snapshot_memory_ranges (t_mm s0))"
    and cycles: "(snap_cycle ps host)\<^sup>*\<^sup>* s0 s"
    and env: "snapshot_env_ok E entries flags (snapshot_memory_ranges (t_mm s))"
      "env_page_size E = ps" "env_host E = host" "reports_writes entries flags s"
    and log: "\<not> dirty_log (t_mm s)"
  shows "stale_only (written_mark ps host s) ps (guest_memory (t_mm s)) (snapshot_memory_ranges (t_mm s)) (t_file s) \<and>
    (\<exists>mm' cleared. send_memory E SoftDirty (t_mm s) (Some (t_file s)) =
      Some (Inr (), Some (mem_image (guest_memory (t_mm s)) (snapshot_memory_ranges (t_mm s))), mm', cleared))"
proof -
  have ok: "tracked_ok ps host s"
    using cycles
  proof (induction rule: rtranclp_induct)
    case base
    then show ?case using start by (simp add: tracked_ok_def stale_only_image)
  next
    case (step s s')
    then show ?case using snap_cycle_ok by simp
  qed
  have "stale_only (tracker_mark (soft_dirty_armed (t_mm s)) E entries flags) (env_page_size E)
      (guest_memory (t_mm s)) (snapshot_memory_ranges (t_mm s)) (t_file s)"
    using tracked_stale [OF ok env(4,2,3)] env(2) by simp
  from send_soft_dirty_exact [OF env(1) this] ok env_okD(2) [OF env(1)] log
  have "\<exists>mm' cleared. send_memory E SoftDirty (t_mm s) (Some (t_file s)) =
      Some (Inr (), Some (mem_image (guest_memory (t_mm s)) (snapshot_memory_ranges (t_mm s))), mm', cleared)"
    by (auto simp: send_memory_def tracked_ok_def stale_only_def mem_image_def)
  then show ?thesis using ok by (simp add: tracked_ok_def)
qed

text \<open>C12, applied: one guest write after a snapshot that armed nothing.\<close>

definition demo_tracked :: tracked where
  "demo_tracked = \<lparr>t_mm = demo_mm, t_file = mem_image (guest_memory demo_mm) (snapshot_memory_ranges demo_mm),
     t_anon = {}, t_dirty = {}\<rparr>"

theorem soft_dirty_cycles_exact_witness:
  "\<exists>mm' cleared. send_memory demo_env SoftDirty (t_mm (guest_writes 4096 (\<lambda>g. Some g) 5 1 demo_tracked))
      (Some (t_file demo_tracked)) =
    Some (Inr (), Some (mem_image ((\<lambda>_. 0)(7 := 9, 5 := 1)) [\<lparr>gpa = 0, mr_length = 4096\<rparr>]), mm', cleared)"
proof -
  let ?s = "guest_writes 4096 (\<lambda>g. Some g) 5 1 demo_tracked"
  have s: "t_file ?s = t_file demo_tracked" "snapshot_memory_ranges (t_mm ?s) = snapshot_memory_ranges demo_mm"
    "guest_memory (t_mm ?s) = (\<lambda>_. 0)(7 := 9, 5 := 1)"
    by (simp_all add: guest_writes_def demo_tracked_def demo_mm_def Let_def)
  have c: "(snap_cycle 4096 (\<lambda>g. Some g))\<^sup>*\<^sup>* demo_tracked ?s"
    by (rule r_into_rtranclp) (rule snap_cycle.guest_write)
  have r: "reports_writes (\<lambda>_. PAGEMAP_PRESENT_BIT OR PAGEMAP_SOFT_DIRTY_BIT OR 5) (\<lambda>_. KPF_ANON) ?s"
    by (simp add: reports_writes_def PAGEMAP_PRESENT_BIT_def PAGEMAP_SOFT_DIRTY_BIT_def KPF_ANON_def
        bit_or_iff bit_push_bit_iff)
  have h: "env_page_size demo_env = 4096" "env_host demo_env = (\<lambda>g. Some g)" by (simp_all add: demo_env_def)
  have st: "t_file demo_tracked = mem_image (guest_memory (t_mm demo_tracked)) (snapshot_memory_ranges (t_mm demo_tracked))"
    by (simp add: demo_tracked_def)
  have l: "\<not> dirty_log (t_mm ?s)"
    by (simp add: guest_writes_def demo_tracked_def demo_mm_def Let_def)
  from soft_dirty_cycles_exact [OF st c demo_env_ok [folded s(2)] h r l]
  show ?thesis unfolding s by (simp add: demo_mm_def)
qed

section \<open>Full snapshots\<close>

lemma full_loop_exact:
  assumes w: "writer_ok E"
  shows "unat off + size_of rs < 2 ^ 64 \<Longrightarrow> unat off \<le> length (file_bytes f) \<Longrightarrow> cursor f = unat off \<Longrightarrow>
    \<exists>f'. full_loop E mem rs off f = Some (Inr (), f') \<and> file_bytes f' =
      take (unat off) (file_bytes f) @ mem_image mem rs @ drop (unat off + size_of rs) (file_bytes f)"
proof (induction rs arbitrary: off f)
  case (Cons r rs)
  let ?bs = "guest_bytes mem (gpa r) (unat (mr_length r))"
  let ?f1 = "file_write f ?bs"
  have "f\<lparr>cursor := unat off\<rparr> = f" using Cons.prems(3) by simp
  then have s: "save_range_to_file E mem f r off = Some (Inr (), ?f1)"
    using save_loop_ok [of "env_write_volatile_to E" 0 r mem f] w
    by (simp add: save_range_to_file_def writer_ok_def)
  have u: "unat (off + mr_length r) = unat off + unat (mr_length r)"
    using Cons.prems(1) by (intro unat_add_no_wrap) simp
  have f1: "file_bytes ?f1 = take (unat off) (file_bytes f) @ ?bs @
      drop (unat off + unat (mr_length r)) (file_bytes f)" "cursor ?f1 = unat off + unat (mr_length r)"
    using Cons.prems(2,3) by (simp_all add: file_write_def)
  from Cons.IH [of "off + mr_length r" ?f1] show ?case
    using Cons.prems s u f1 by (auto simp: mem_image_def ac_simps)
qed (simp add: mem_image_def)

text \<open>
  C13. A full snapshot (dirty log off) holds guest memory, region after region, and never
  harms a file it does not own. When no call fails, for any regions of less than 2^64 bytes in
  all, it returns, and: a file that is not there is created and equals guest memory; an
  existing file that is not external makes the snapshot fail with its bytes unchanged; an
  existing external file is written from its start without being truncated, so that what it
  had beyond the image stays behind the image; a missing external file is an error.
\<close>

theorem full_snapshot_exact:
  assumes "writer_ok E" and "env_url E" and "env_open E = None"
    and "snapshot_memory_ranges mm \<noteq> []" and "size_of (snapshot_memory_ranges mm) < 2 ^ 64"
    and "\<not> dirty_log mm"
  shows "send_memory E Full mm target = Some (case target of
      None \<Rightarrow> if env_external E then (Inl (OpenError IoNotFound), None, mm, False)
        else (Inr (), Some (mem_image (guest_memory mm) (snapshot_memory_ranges mm)), mm, False)
    | Some base \<Rightarrow> if env_external E
        then (Inr (), Some (mem_image (guest_memory mm) (snapshot_memory_ranges mm) @
            drop (size_of (snapshot_memory_ranges mm)) base), mm, False)
        else (Inl (OpenError IoAlreadyExists), Some base, mm, False))"
proof -
  have loop: "\<exists>f'. full_loop E (guest_memory mm) (snapshot_memory_ranges mm) 0 \<lparr>file_bytes = bs, cursor = 0\<rparr> =
      Some (Inr (), f') \<and> file_bytes f' = mem_image (guest_memory mm) (snapshot_memory_ranges mm) @
        drop (size_of (snapshot_memory_ranges mm)) bs" for bs
    using full_loop_exact [OF assms(1), of 0 "snapshot_memory_ranges mm" "\<lparr>file_bytes = bs, cursor = 0\<rparr>"
        "guest_memory mm"] assms(5) by simp
  show ?thesis
    using assms loop [of "case target of None \<Rightarrow> [] | Some base \<Rightarrow> base"]
    by (cases target) (auto simp: send_memory_def send_full_memory_def open_for_fresh_write_def)
qed

text \<open>C13, applied to the region above: a new file, and an external file that is longer than
  guest memory.\<close>

theorem full_snapshot_exact_witness:
  "send_memory demo_env Full demo_mm None =
     Some (Inr (), Some (mem_image ((\<lambda>_. 0)(7 := 9)) [\<lparr>gpa = 0, mr_length = 4096\<rparr>]), demo_mm, False) \<and>
   send_memory (demo_env\<lparr>env_external := True\<rparr>) Full demo_mm (Some (replicate 4097 3)) =
     Some (Inr (), Some (mem_image ((\<lambda>_. 0)(7 := 9)) [\<lparr>gpa = 0, mr_length = 4096\<rparr>] @ [3]), demo_mm, False)"
proof -
  have mm: "snapshot_memory_ranges demo_mm \<noteq> []" "size_of (snapshot_memory_ranges demo_mm) < 2 ^ 64"
    "\<not> dirty_log demo_mm" by (simp_all add: demo_mm_def)
  have "writer_ok (demo_env\<lparr>env_external := True\<rparr>)"
    using env_okD(4) [OF demo_env_ok] by (simp add: writer_ok_def)
  then have "send_memory (demo_env\<lparr>env_external := True\<rparr>) Full demo_mm (Some (replicate 4097 3)) =
     Some (Inr (), Some (mem_image (guest_memory demo_mm) (snapshot_memory_ranges demo_mm) @
       drop (size_of (snapshot_memory_ranges demo_mm)) (replicate 4097 3)), demo_mm, False)"
    using full_snapshot_exact [OF _ _ _ mm, of "demo_env\<lparr>env_external := True\<rparr>" "Some (replicate 4097 3)"]
    by (simp add: demo_env_def)
  moreover have "drop 4096 (replicate 4097 (3 :: u8)) = [3]" by simp
  ultimately show ?thesis
    using full_snapshot_exact [OF env_okD(4,2,3) [OF demo_env_ok] mm, of None]
    by (simp add: demo_env_def demo_mm_def del: drop_replicate)
qed

end
