(* ===== verification/Migration_Receiver.thy ===== *)
theory Migration_Receiver
  imports Snapshot_Exact
begin

text \<open>
  The destination of a live migration: \<^verbatim>\<open>vm_receive_migration\<close> with \<^verbatim>\<open>vm_receive_config\<close>,
  \<^verbatim>\<open>vm_receive_state\<close> and \<^verbatim>\<open>vm_receive_memory\<close> (\<^verbatim>\<open>hypervisor/vmm/src/lib.rs\<close>) and
  \<^verbatim>\<open>receive_memory_regions\<close> (\<^verbatim>\<open>memory_manager.rs\<close>). The socket is the list of bytes that will
  still arrive, with the file descriptors sent beside them; the answers are collected.
\<close>

section \<open>Receiving memory\<close>

lemma advance_offset:
  fixes off len n :: u64
  assumes "off \<le> len" "n \<le> len - off"
  shows "off + n \<le> len" "unat (len - (off + n)) = unat (len - off) - unat n"
proof -
  have sum: "unat off + unat n \<le> unat len"
    using assms by (simp add: word_le_nat_alt unat_sub)
  then have "unat (off + n) = unat off + unat n"
    by (intro unat_add_no_wrap) (erule le_less_trans, simp)
  with sum show "off + n \<le> len" "unat (len - (off + n)) = unat (len - off) - unat n"
    using assms by (simp_all add: word_le_nat_alt unat_sub)
qed

definition store_bytes :: "(u64 \<Rightarrow> u8) \<Rightarrow> u64 \<Rightarrow> u8 list \<Rightarrow> (u64 \<Rightarrow> u8)" where
  "store_bytes mem a bs = fold (\<lambda>i m. m(a + of_nat i := bs ! i)) [0..<length bs] mem"

datatype mem_received = MemOk "u8 list" | MemFailed io_error | MemSpins

text \<open>
  \<open>read_volatile_from\<close> (\<^verbatim>\<open>vm-memory\<close>) fails, or stores what is there: at most the number of
  bytes asked for, and at most what the parameter \<open>rv\<close> lets through at once. A call that reads
  nothing leaves offset, stream and memory as they were, so the source's loop then repeats
  that call for ever: this is the outcome \<open>MemSpins\<close>.
\<close>

function recv_loop :: "(u64 \<Rightarrow> u64 \<Rightarrow> io_error + u64) \<Rightarrow> MemoryRange \<Rightarrow> u64 \<Rightarrow> u8 list
    \<Rightarrow> (u64 \<Rightarrow> u8) \<Rightarrow> mem_received \<times> (u64 \<Rightarrow> u8)" where
  "recv_loop rv mr off stream mem = (case rv (gpa mr + off) (mr_length mr - off) of
       Inl e \<Rightarrow> (MemFailed e, mem)
     | Inr most \<Rightarrow>
         (let n = min (unat most) (min (unat (mr_length mr - off)) (length stream));
              mem1 = store_bytes mem (gpa mr + off) (take n stream);
              off1 = off + of_nat n
          in if off1 = mr_length mr then (MemOk (drop n stream), mem1)
             else if n = 0 then (MemSpins, mem1)
             else recv_loop rv mr off1 (drop n stream) mem1))"
  by pat_completeness auto

termination
  by (relation "measure (\<lambda>(rv, mr, off, stream, mem). length stream)") auto

declare recv_loop.simps [simp del]

fun receive_memory_regions :: "(u64 \<Rightarrow> u64 \<Rightarrow> io_error + u64) \<Rightarrow> MemoryRange list \<Rightarrow> u8 list
    \<Rightarrow> (u64 \<Rightarrow> u8) \<Rightarrow> mem_received \<times> (u64 \<Rightarrow> u8)" where
  "receive_memory_regions rv [] stream mem = (MemOk stream, mem)"
| "receive_memory_regions rv (mr # ranges) stream mem = (case recv_loop rv mr 0 stream mem of
       (MemOk stream1, mem1) \<Rightarrow> receive_memory_regions rv ranges stream1 mem1
     | (failed, mem1) \<Rightarrow> (failed, mem1))"

section \<open>State and environment\<close>

text \<open>
  What the handlers call: reading guest memory from the socket, \<^verbatim>\<open>serde_json\<close>, the CPUID
  comparison, the creation of the hypervisor VM and its memory, of the virtual machine and
  its devices, restoring, resuming, and whether an answer can be written.
\<close>

record ('c, 's, 'f) recv_env =
  env_read_volatile_from :: "u64 \<Rightarrow> u64 \<Rightarrow> io_error + u64"
  env_parse_config :: "u8 list \<Rightarrow> 'c option"
  env_check_cpuid :: "'c \<Rightarrow> bool"
  env_new_memory :: "'c \<Rightarrow> (u32, 'f) hmap option \<Rightarrow> (u64 \<Rightarrow> u8) option"
  env_parse_snapshot :: "u8 list \<Rightarrow> 's option"
  env_new_vm :: "'c \<Rightarrow> 's \<Rightarrow> bool"
  env_restore :: "'s \<Rightarrow> bool"
  env_resume :: bool
  env_recv_fd :: bool
  env_write_response :: bool

text \<open>A virtual machine: the memory it was built on, the snapshot it was restored from and
  whether its processors run.\<close>

record 's dest_vm =
  vm_memory :: "u64 \<Rightarrow> u8"
  vm_snapshot :: 's
  vm_running :: bool

record ('c, 's, 'f) receiver =
  started :: bool
  memory_manager :: "(u64 \<Rightarrow> u8) option"
  existing_memory_files :: "(u32, 'f) hmap option"
  r_vm :: "'s dest_vm option"
  r_vm_config :: "'c option"
  incoming_fds :: "'f list"

text \<open>How a handler ends: the loop goes on, \<^verbatim>\<open>vm_receive_migration\<close> returns (\<open>None\<close> is \<^verbatim>\<open>Ok(())\<close>),
  panics, never comes back, or has undefined behaviour.\<close>

datatype recv_error = SocketError | ReceiveError | VmResumeError

datatype flow = Continue | Returned "recv_error option" | Panicked | Spinning | Undefined

type_synonym ('c, 's, 'f) handled = "flow \<times> Response list \<times> u8 list \<times> ('c, 's, 'f) receiver"

definition respond :: "('c, 's, 'f) recv_env \<Rightarrow> Status \<Rightarrow> flow \<Rightarrow> u8 list \<Rightarrow> ('c, 's, 'f) receiver
    \<Rightarrow> ('c, 's, 'f) handled" where
  "respond E status next rest st =
    (if env_write_response E then (next, [response_new status 0], rest, st)
     else (Returned (Some SocketError), [], rest, st))"

section \<open>The handlers\<close>

definition vm_receive_config :: "('c, 's, 'f) recv_env \<Rightarrow> Request \<Rightarrow> u8 list \<Rightarrow> ('c, 's, 'f) receiver
    \<Rightarrow> ('c, 's, 'f) handled" where
  "vm_receive_config E req stream st0 =
    (let files = existing_memory_files st0; st = st0\<lparr>existing_memory_files := None\<rparr>
     in case read_exact (unat (rq_length req)) stream of
       None \<Rightarrow> (Returned (Some SocketError), [], [], st)
     | Some (data, rest) \<Rightarrow> (case env_parse_config E data of
         None \<Rightarrow> (Returned (Some ReceiveError), [], rest, st)
       | Some config \<Rightarrow>
           if \<not> env_check_cpuid E config then (Returned (Some ReceiveError), [], rest, st)
           else let st1 = st\<lparr>r_vm_config := Some config\<rparr>
                in (case env_new_memory E config files of
                      None \<Rightarrow> (Returned (Some ReceiveError), [], rest, st1)
                    | Some mem \<Rightarrow>
                        if env_write_response E
                        then (Continue, [response_new St_Ok 0], rest, st1\<lparr>memory_manager := Some mem\<rparr>)
                        else (Returned (Some SocketError), [], rest, st1))))"

text \<open>The memory manager has been taken out of the loop's variable and is passed on.\<close>

definition vm_receive_state :: "('c, 's, 'f) recv_env \<Rightarrow> Request \<Rightarrow> u8 list \<Rightarrow> (u64 \<Rightarrow> u8)
    \<Rightarrow> ('c, 's, 'f) receiver \<Rightarrow> ('c, 's, 'f) handled" where
  "vm_receive_state E req stream mm st = (case read_exact (unat (rq_length req)) stream of
       None \<Rightarrow> (Returned (Some SocketError), [], [], st)
     | Some (data, rest) \<Rightarrow> (case env_parse_snapshot E data of
         None \<Rightarrow> (Returned (Some ReceiveError), [], rest, st)
       | Some snapshot \<Rightarrow> (case r_vm_config st of
           None \<Rightarrow> (Panicked, [], rest, st)
         | Some config \<Rightarrow>
             if \<not> env_new_vm E config snapshot then (Returned (Some ReceiveError), [], rest, st)
             else if \<not> env_restore E snapshot
               then (Returned (Some ReceiveError),
                     (if env_write_response E then [response_new St_Error 0] else []), rest, st)
             else respond E St_Ok Continue rest
                    (st\<lparr>r_vm := Some \<lparr>vm_memory = mm, vm_snapshot = snapshot, vm_running = False\<rparr>\<rparr>))))"

definition vm_receive_memory :: "('c, 's, 'f) recv_env \<Rightarrow> Request \<Rightarrow> u8 list \<Rightarrow> (u64 \<Rightarrow> u8)
    \<Rightarrow> ('c, 's, 'f) receiver \<Rightarrow> ('c, 's, 'f) handled" where
  "vm_receive_memory E req stream mm st = (case table_read_from stream (rq_length req) of
       MigrateSocket \<Rightarrow> (Returned (Some SocketError), [], [], st)
     | Panic \<Rightarrow> (Panicked, [], stream, st)
     | UB \<Rightarrow> (Undefined, [], stream, st)
     | Got table rest \<Rightarrow>
         (case receive_memory_regions (env_read_volatile_from E) table rest mm of
            (MemOk rest1, mm1) \<Rightarrow> respond E St_Ok Continue rest1 (st\<lparr>memory_manager := Some mm1\<rparr>)
          | (MemFailed _, mm1) \<Rightarrow> (Returned (Some ReceiveError),
              (if env_write_response E then [response_new St_Error 0] else []), rest,
              st\<lparr>memory_manager := Some mm1\<rparr>)
          | (MemSpins, mm1) \<Rightarrow> (Spinning, [], rest, st\<lparr>memory_manager := Some mm1\<rparr>)))"

text \<open>\<open>recv_with_fd\<close> fills up to four bytes and hands over at most one descriptor.\<close>

definition receive_memory_fd :: "('c, 's, 'f) recv_env \<Rightarrow> u8 list \<Rightarrow> ('c, 's, 'f) receiver
    \<Rightarrow> ('c, 's, 'f) handled" where
  "receive_memory_fd E stream st =
    (if \<not> env_recv_fd E then (Returned (Some ReceiveError), [], stream, st)
     else let buf = take 4 stream @ replicate (4 - length stream) 0;
              rest = drop 4 stream;
              files = (case existing_memory_files st of None \<Rightarrow> [] | Some files \<Rightarrow> files)
          in case incoming_fds st of
               [] \<Rightarrow> (Panicked, [], rest, st\<lparr>existing_memory_files := Some files\<rparr>)
             | fd # fds \<Rightarrow> respond E St_Ok Continue rest
                 (st\<lparr>existing_memory_files := Some (AList.update (from_le_bytes buf) fd files),
                     incoming_fds := fds\<rparr>))"

definition receive_complete :: "('c, 's, 'f) recv_env \<Rightarrow> u8 list \<Rightarrow> ('c, 's, 'f) receiver
    \<Rightarrow> ('c, 's, 'f) handled" where
  "receive_complete E stream st = (case r_vm st of
       Some vm \<Rightarrow>
         if env_resume E
         then respond E St_Ok (Returned None) stream (st\<lparr>r_vm := Some (vm\<lparr>vm_running := True\<rparr>)\<rparr>)
         else (Returned (Some VmResumeError), [], stream, st)
     | None \<Rightarrow> respond E St_Error (Returned None) stream st)"

definition receive_abandon :: "('c, 's, 'f) recv_env \<Rightarrow> u8 list \<Rightarrow> ('c, 's, 'f) receiver
    \<Rightarrow> ('c, 's, 'f) handled" where
  "receive_abandon E stream st =
    (Returned None, (if env_write_response E then [response_new St_Ok 0] else []), stream,
     st\<lparr>r_vm := None, r_vm_config := None\<rparr>)"

section \<open>The loop\<close>

definition handle_command :: "('c, 's, 'f) recv_env \<Rightarrow> Request \<Rightarrow> u8 list \<Rightarrow> ('c, 's, 'f) receiver
    \<Rightarrow> ('c, 's, 'f) handled" where
  "handle_command E req rest st = (case rq_command req of
       Cmd_Invalid \<Rightarrow> (Continue, [], rest, st)
     | Cmd_Start \<Rightarrow> respond E St_Ok Continue rest (st\<lparr>started := True\<rparr>)
     | Cmd_Config \<Rightarrow>
         if \<not> started st then respond E St_Error Continue rest st
         else vm_receive_config E req rest st
     | Cmd_State \<Rightarrow>
         if \<not> started st then respond E St_Error Continue rest st
         else (case memory_manager st of
             Some mm \<Rightarrow> vm_receive_state E req rest mm (st\<lparr>memory_manager := None\<rparr>)
           | None \<Rightarrow> respond E St_Error Continue rest st)
     | Cmd_Memory \<Rightarrow>
         if \<not> started st then respond E St_Error Continue rest st
         else (case memory_manager st of
             Some mm \<Rightarrow> vm_receive_memory E req rest mm st
           | None \<Rightarrow> respond E St_Error Continue rest st)
     | Cmd_MemoryFd \<Rightarrow>
         if \<not> started st then respond E St_Error Continue rest st
         else receive_memory_fd E rest st
     | Cmd_Complete \<Rightarrow> receive_complete E rest st
     | Cmd_Abandon \<Rightarrow> receive_abandon E rest st)"

definition receive_one :: "('c, 's, 'f) recv_env \<Rightarrow> u8 list \<Rightarrow> ('c, 's, 'f) receiver
    \<Rightarrow> ('c, 's, 'f) handled" where
  "receive_one E stream st = (case request_read_from stream of
       MigrateSocket \<Rightarrow> (Returned (Some SocketError), [], [], st)
     | Panic \<Rightarrow> (Panicked, [], stream, st)
     | UB \<Rightarrow> (Undefined, [], stream, st)
     | Got req rest \<Rightarrow> handle_command E req rest st)"

lemma request_consumes: "request_read_from stream = Got req rest \<Longrightarrow> length rest < length stream"
  by (auto simp: request_read_from_def read_exact_def split: if_splits option.splits)

lemma table_consumes: "table_read_from stream n = Got table rest \<Longrightarrow> length rest \<le> length stream"
  by (auto simp: table_read_from_def read_exact_def split: if_splits option.splits)

text \<open>A range that arrives has taken exactly its bytes from the stream.\<close>

lemma recv_loop_amount:
  "\<lbrakk>recv_loop rv mr off stream mem = (MemOk rest, mem1); off \<le> mr_length mr\<rbrakk>
    \<Longrightarrow> length stream = unat (mr_length mr - off) + length rest"
proof (induction rv mr off stream mem rule: recv_loop.induct)
  case (1 rv mr off stream mem)
  let ?c = "mr_length mr - off"
  obtain most where most: "rv (gpa mr + off) ?c = Inr most"
    using "1.prems"(1) by (subst (asm) recv_loop.simps) (simp split: sum.splits)
  define n where "n = min (unat most) (min (unat ?c) (length stream))"
  have nc: "n \<le> unat ?c" "n \<le> length stream" by (simp_all add: n_def)
  have un: "unat (of_nat n :: u64) = n"
    using le_less_trans [OF nc(1) unat_u64_less] by (simp add: unat_of_nat)
  have le: "off + of_nat n \<le> mr_length mr" "unat (mr_length mr - (off + of_nat n)) = unat ?c - n"
    using advance_offset [of off "mr_length mr" "of_nat n"] "1.prems"(2) nc(1) un by (simp_all add: word_le_nat_alt)
  note loop = "1.prems"(1) [unfolded recv_loop.simps [of rv mr off stream mem] most sum.case Let_def,
      folded n_def]
  show ?case
  proof (cases "off + of_nat n = mr_length mr")
    case True
    then have "unat ?c - n = 0" using le(2) by simp
    then show ?thesis using True loop nc by auto
  next
    case False
    then have "n \<noteq> 0" using loop by (auto split: if_splits)
    have "length (drop n stream) = unat (mr_length mr - (off + of_nat n)) + length rest"
      using "1.IH" [OF most n_def refl refl False \<open>n \<noteq> 0\<close>] False \<open>n \<noteq> 0\<close> loop le(1) by simp
    then show ?thesis using le(2) nc by simp
  qed
qed

lemma regions_amount:
  "receive_memory_regions rv table stream mem = (MemOk rest, mem1) \<Longrightarrow>
    length stream = size_of table + length rest"
proof (induction table arbitrary: stream mem)
  case (Cons mr table)
  then show ?case
    by (auto split: prod.splits mem_received.splits dest!: recv_loop_amount)
qed simp

lemma regions_consume:
  "receive_memory_regions rv table stream mem = (MemOk rest, mem1) \<Longrightarrow> length rest \<le> length stream"
  by (simp add: regions_amount)

lemma handlers_consume:
  "vm_receive_config E req stream st = (Continue, rs, rest, st') \<Longrightarrow> length rest \<le> length stream"
  "vm_receive_state E req stream mm st = (Continue, rs, rest, st') \<Longrightarrow> length rest \<le> length stream"
  "receive_memory_fd E stream st = (Continue, rs, rest, st') \<Longrightarrow> length rest \<le> length stream"
  "vm_receive_memory E req stream mm st = (Continue, rs, rest, st') \<Longrightarrow> length rest \<le> length stream"
  "respond E status next stream st = (Continue, rs, rest, st') \<Longrightarrow> length rest \<le> length stream"
  by (auto simp: vm_receive_config_def vm_receive_state_def receive_memory_fd_def vm_receive_memory_def
      respond_def Let_def read_exact_def split: option.splits if_splits list.splits received.splits
      prod.splits mem_received.splits dest!: regions_consume table_consumes intro: order_trans)

lemma receive_one_consumes:
  assumes "receive_one E stream st = (Continue, rs, rest, st')"
  shows "length rest < length stream"
proof -
  obtain req r where got: "request_read_from stream = Got req r"
    using assms by (cases "request_read_from stream") (simp_all add: receive_one_def)
  have "length rest \<le> length r"
    using assms unfolding receive_one_def got received.case handle_command_def
    by (auto simp: receive_complete_def receive_abandon_def split: Command.splits if_splits option.splits
        dest: handlers_consume)
  with request_consumes [OF got] show ?thesis by simp
qed

text \<open>
  The loop over what arrives. While the peer keeps the connection open (\<open>open\<close>) the receiver
  waits at the end of the bytes; otherwise the next read fails there.
\<close>

function receive_loop :: "('c, 's, 'f) recv_env \<Rightarrow> bool \<Rightarrow> u8 list \<Rightarrow> ('c, 's, 'f) receiver
    \<Rightarrow> flow \<times> Response list \<times> ('c, 's, 'f) receiver" where
  "receive_loop E open stream st =
    (if open \<and> stream = [] then (Continue, [], st)
     else case receive_one E stream st of (flow, rs, rest, st1) \<Rightarrow>
       if flow = Continue
       then (case receive_loop E open rest st1 of (flow', rs', st2) \<Rightarrow> (flow', rs @ rs', st2))
       else (flow, rs, st1))"
  by pat_completeness auto

termination
  by (relation "measure (\<lambda>(E, open, stream, st). length stream)") (auto dest!: receive_one_consumes [OF sym])

declare receive_loop.simps [simp del]

text \<open>\<open>socket_url_to_path\<close>, and the start of \<^verbatim>\<open>vm_receive_migration\<close>: binding, accepting and
  unlinking the socket succeed or not.\<close>

definition strip_prefix :: "string \<Rightarrow> string \<Rightarrow> string option" where
  "strip_prefix p s = (if take (length p) s = p then Some (drop (length p) s) else None)"

definition socket_url_to_path :: "string \<Rightarrow> string option" where
  "socket_url_to_path url = strip_prefix ''unix:'' url"

definition receiver_start :: "('c, 's, 'f) receiver \<Rightarrow> ('c, 's, 'f) receiver" where
  "receiver_start st = st\<lparr>started := False, memory_manager := None, existing_memory_files := None\<rparr>"

definition vm_receive_migration :: "('c, 's, 'f) recv_env \<Rightarrow> (string \<Rightarrow> bool) \<Rightarrow> (string \<Rightarrow> bool)
    \<Rightarrow> (string \<Rightarrow> bool) \<Rightarrow> string \<Rightarrow> u8 list \<Rightarrow> ('c, 's, 'f) receiver
    \<Rightarrow> flow \<times> Response list \<times> ('c, 's, 'f) receiver" where
  "vm_receive_migration E bind_ok accept_ok unlink_ok url stream st = (case socket_url_to_path url of
       None \<Rightarrow> (Returned (Some ReceiveError), [], st)
     | Some path \<Rightarrow>
         if \<not> bind_ok path \<or> \<not> accept_ok path \<or> \<not> unlink_ok path
         then (Returned (Some ReceiveError), [], st)
         else receive_loop E False stream (receiver_start st))"

end
