(* ===== verification/Migration_Sender.thy ===== *)
theory Migration_Sender
  imports Migration_Receiver
begin

text \<open>
  The source of a live migration: \<^verbatim>\<open>vm_send_migration\<close>, \<^verbatim>\<open>send_migration\<close>,
  \<^verbatim>\<open>vm_maybe_send_dirty_pages\<close> (\<^verbatim>\<open>hypervisor/vmm/src/lib.rs\<close>), \<^verbatim>\<open>send_memory_regions\<close> and
  \<^verbatim>\<open>send_memory_fds\<close> (\<^verbatim>\<open>vm.rs\<close>), connected to the destination by a socket that may break at
  any byte. Every message is a request with its payload, followed by one answer. The guest
  runs during every memory pass but the last: a pass carries the guest's writes and, for each
  byte, how many of them had happened when the byte was read.
\<close>

section \<open>The two ends and the link between them\<close>

text \<open>What can happen to a message: it arrives and is answered, the connection breaks with at
  least one byte of it undelivered, or it arrives and the answer is lost.\<close>

datatype link = Link_ok | Link_cut nat | Response_lost

record ('c, 's, 'f) world =
  src :: "u64 \<Rightarrow> u8"
  src_paused :: bool
  src_exited :: bool
  dst :: "('c, 's, 'f) receiver"
  dst_flow :: flow
  connected :: bool
  faults :: "link list"

text \<open>The calls of the source: \<^verbatim>\<open>serde_json\<close>, the hypervisor and the device layer. \<open>env_stop_dirty_log\<close>
  is asked with \<open>True\<close> when the log is stopped after a failure.\<close>

record ('c, 's, 'f) send_env =
  env_dest :: "('c, 's, 'f) recv_env"
  env_connect :: bool
  env_common_cpuid :: bool
  env_config_bytes :: "u8 list"
  env_memory_slot_fds :: "(u32 \<times> 'f) list"
  env_start_migration :: bool
  env_start_dirty_log :: bool
  env_stop_dirty_log :: "bool \<Rightarrow> bool"
  env_memory_range_table :: "MemoryRangeTable option"
  env_mappings :: "GuestRamMapping list"
  env_pause :: bool
  env_snapshot :: "'s option"
  env_snapshot_bytes :: "'s \<Rightarrow> u8 list"
  env_complete_migration :: bool
  env_resume_source :: bool
  env_exit_evt :: bool

text \<open>\<open>p_request_fails\<close>: when the connection breaks under the message of the pass, the write of
  the request itself is what fails, not a later write or the read of the answer.\<close>

record pass =
  p_env :: snap_env
  p_writes :: "(u64 \<times> u8) list"
  p_seen :: "u64 \<Rightarrow> nat"
  p_request_fails :: bool

text \<open>\<open>SendPanics\<close> is the panic of an \<^verbatim>\<open>unwrap()\<close>, an error that no caller handles.\<close>

datatype send_error = SendSocket | SendRefused | SendVm | SendUndefined | SendPanics

type_synonym ('c, 's, 'f) sent = "((send_error + unit) \<times> ('c, 's, 'f) world) option"

definition deliver :: "('c, 's, 'f) send_env \<Rightarrow> bool \<Rightarrow> u8 list \<Rightarrow> ('c, 's, 'f) world
    \<Rightarrow> Response list \<times> ('c, 's, 'f) world" where
  "deliver S open bytes w =
    (if dst_flow w = Continue
     then (case receive_loop (env_dest S) open bytes (dst w) of
             (flow, rs, st) \<Rightarrow> (rs, w\<lparr>dst := st, dst_flow := flow\<rparr>))
     else ([], w))"

text \<open>Sending a message with its descriptors and reading the answer. \<open>None\<close>: the answer never
  comes, the source waits for ever.\<close>

datatype answer = Unsent | Unanswered | AnswerUB | Answer Response

definition exchange :: "('c, 's, 'f) send_env \<Rightarrow> 'f list \<Rightarrow> u8 list \<Rightarrow> ('c, 's, 'f) world
    \<Rightarrow> (answer \<times> ('c, 's, 'f) world) option" where
  "exchange S fds bytes w0 =
    (if \<not> connected w0 then Some (Unsent, w0)
     else let fault = (case faults w0 of [] \<Rightarrow> Link_ok | f # _ \<Rightarrow> f);
              w = w0\<lparr>faults := tl (faults w0),
                     dst := (dst w0)\<lparr>incoming_fds := incoming_fds (dst w0) @ fds\<rparr>\<rparr>
          in case fault of
               Link_cut n \<Rightarrow> Some (Unsent, snd (deliver S False (take n (butlast bytes)) w)\<lparr>connected := False\<rparr>)
             | Response_lost \<Rightarrow> Some (Unanswered, snd (deliver S False bytes w)\<lparr>connected := False\<rparr>)
             | Link_ok \<Rightarrow> (case deliver S True bytes w of (rs, w1) \<Rightarrow>
                 if rs = [] \<and> dst_flow w1 \<in> {Continue, Spinning} then None
                 else let w2 = w1\<lparr>connected := (dst_flow w1 = Continue)\<rparr>
                      in Some ((case response_read_from (concat (map response_bytes rs)) of
                            Got r _ \<Rightarrow> Answer r
                          | UB \<Rightarrow> AnswerUB
                          | _ \<Rightarrow> Unanswered), w2)))"

text \<open>The pattern of every step: send, read the answer, and abandon when it is not \<open>Ok\<close>.\<close>

definition request_step :: "('c, 's, 'f) send_env \<Rightarrow> 'f list \<Rightarrow> u8 list \<Rightarrow> ('c, 's, 'f) world
    \<Rightarrow> ('c, 's, 'f) sent" where
  "request_step S fds bytes w = (case exchange S fds bytes w of
       None \<Rightarrow> None
     | Some (Unsent, w1) \<Rightarrow> Some (Inl SendSocket, w1)
     | Some (Unanswered, w1) \<Rightarrow> Some (Inl SendSocket, w1)
     | Some (AnswerUB, w1) \<Rightarrow> Some (Inl SendUndefined, w1)
     | Some (Answer res, w1) \<Rightarrow>
         if rs_status res = St_Ok then Some (Inr (), w1)
         else (case exchange S [] (request_bytes (request_new Cmd_Abandon 0)) w1 of
             None \<Rightarrow> None
           | Some (Unsent, w2) \<Rightarrow> Some (Inl SendSocket, w2)
           | Some (_, w2) \<Rightarrow> Some (Inl SendRefused, w2)))"

definition bind_step :: "('c, 's, 'f) sent \<Rightarrow> (('c, 's, 'f) world \<Rightarrow> ('c, 's, 'f) sent)
    \<Rightarrow> ('c, 's, 'f) sent" where
  "bind_step m k = (case m of
       None \<Rightarrow> None
     | Some (Inl e, w) \<Rightarrow> Some (Inl e, w)
     | Some (Inr _, w) \<Rightarrow> k w)"

definition vm_op :: "bool \<Rightarrow> ('c, 's, 'f) world \<Rightarrow> ('c, 's, 'f) sent" where
  "vm_op ok w = Some (if ok then Inr () else Inl SendVm, w)"

section \<open>Memory passes\<close>

text \<open>The socket is written like a file, at its end.\<close>

fun send_memory_regions :: "(u64 \<Rightarrow> u64 \<Rightarrow> io_error + u64) \<Rightarrow> (u64 \<Rightarrow> u8) \<Rightarrow> MemoryRange list \<Rightarrow> mem_file
    \<Rightarrow> ((MigratableError + unit) \<times> mem_file) option" where
  "send_memory_regions wv mem [] f = Some (Inr (), f)"
| "send_memory_regions wv mem (mr # ranges) f = (case save_loop wv mem mr 0 f of
       None \<Rightarrow> None
     | Some (Inl e, f1) \<Rightarrow> Some (Inl e, f1)
     | Some (Inr _, f1) \<Rightarrow> send_memory_regions wv mem ranges f1)"

definition apply_writes :: "(u64 \<Rightarrow> u8) \<Rightarrow> (u64 \<times> u8) list \<Rightarrow> (u64 \<Rightarrow> u8)" where
  "apply_writes mem ws = fold (\<lambda>(a, b) m. m(a := b)) ws mem"

text \<open>A paused guest writes nothing.\<close>

definition guest_writes_in :: "('c, 's, 'f) world \<Rightarrow> pass \<Rightarrow> (u64 \<times> u8) list" where
  "guest_writes_in w p = (if src_paused w then [] else p_writes p)"

definition seen_memory :: "('c, 's, 'f) world \<Rightarrow> pass \<Rightarrow> (u64 \<Rightarrow> u8)" where
  "seen_memory w p a = apply_writes (src w) (take (p_seen p a) (guest_writes_in w p)) a"

definition after_writes :: "pass \<Rightarrow> ('c, 's, 'f) world \<Rightarrow> ('c, 's, 'f) world" where
  "after_writes p w = w\<lparr>src := apply_writes (src w) (guest_writes_in w p)\<rparr>"

definition hang_up :: "('c, 's, 'f) send_env \<Rightarrow> u8 list \<Rightarrow> ('c, 's, 'f) world \<Rightarrow> ('c, 's, 'f) world" where
  "hang_up S bytes w =
    (if connected w then snd (deliver S False bytes w)\<lparr>connected := False\<rparr> else w)"

text \<open>\<^verbatim>\<open>Request::memory(..).write_to(..).unwrap()\<close>: the write of the request fails.\<close>

definition request_write_fails :: "pass \<Rightarrow> ('c, 's, 'f) world \<Rightarrow> bool" where
  "request_write_fails p w \<longleftrightarrow> \<not> connected w \<or>
     p_request_fails p \<and> (case faults w of Link_cut _ # _ \<Rightarrow> True | _ \<Rightarrow> False)"

text \<open>Send one table with its memory. When the request cannot be written the source panics, with
  at most a part of the request delivered. A failure of \<open>write_volatile_to\<close> leaves the message
  cut short; the source then returns and closes the socket.\<close>

definition send_table :: "('c, 's, 'f) send_env \<Rightarrow> pass \<Rightarrow> MemoryRangeTable \<Rightarrow> ('c, 's, 'f) world
    \<Rightarrow> ('c, 's, 'f) sent" where
  "send_table S p table w =
    (let header = request_bytes (request_new Cmd_Memory (table_length table)) @ table_bytes table
     in if request_write_fails p w
        then map_option (\<lambda>(_, w1). (Inl SendPanics, after_writes p w1))
               (exchange S [] (request_bytes (request_new Cmd_Memory (table_length table))) w)
        else case send_memory_regions (env_write_volatile_to (p_env p)) (seen_memory w p) table
               \<lparr>file_bytes = header, cursor = length header\<rparr> of
          None \<Rightarrow> None
        | Some (Inl _, f) \<Rightarrow> Some (Inl SendSocket, after_writes p (hang_up S (file_bytes f) w))
        | Some (Inr _, f) \<Rightarrow> map_option (map_prod id (after_writes p)) (request_step S [] (file_bytes f) w))"

text \<open>\<open>vm_maybe_send_dirty_pages\<close>: \<open>Inr False\<close> when there was nothing to send.\<close>

definition vm_maybe_send_dirty_pages :: "('c, 's, 'f) send_env \<Rightarrow> pass \<Rightarrow> ('c, 's, 'f) world
    \<Rightarrow> ((send_error + bool) \<times> ('c, 's, 'f) world) option" where
  "vm_maybe_send_dirty_pages S p w = (case dirty_log_table (p_env p) (env_mappings S) [] of
       Inl _ \<Rightarrow> Some (Inl SendVm, after_writes p w)
     | Inr table \<Rightarrow>
         if table = [] then Some (Inr False, after_writes p w)
         else (case send_table S p table w of
             None \<Rightarrow> None
           | Some (Inl e, w1) \<Rightarrow> Some (Inl e, w1)
           | Some (Inr _, w1) \<Rightarrow> Some (Inr True, w1)))"

definition MAX_DIRTY_MIGRATIONS :: nat where "MAX_DIRTY_MIGRATIONS = 5"

fun dirty_passes :: "('c, 's, 'f) send_env \<Rightarrow> pass list \<Rightarrow> ('c, 's, 'f) world \<Rightarrow> ('c, 's, 'f) sent" where
  "dirty_passes S [] w = Some (Inr (), w)"
| "dirty_passes S (p # ps) w = (case vm_maybe_send_dirty_pages S p w of
       None \<Rightarrow> None
     | Some (Inl e, w1) \<Rightarrow> Some (Inl e, w1)
     | Some (Inr False, w1) \<Rightarrow> Some (Inr (), w1)
     | Some (Inr True, w1) \<Rightarrow> dirty_passes S ps w1)"

section \<open>The migration\<close>

definition vm_pause :: "('c, 's, 'f) send_env \<Rightarrow> ('c, 's, 'f) world \<Rightarrow> ('c, 's, 'f) sent" where
  "vm_pause S w = (if env_pause S then Some (Inr (), w\<lparr>src_paused := True\<rparr>) else Some (Inl SendVm, w))"

fun send_memory_fds :: "('c, 's, 'f) send_env \<Rightarrow> (u32 \<times> 'f) list \<Rightarrow> ('c, 's, 'f) world
    \<Rightarrow> ('c, 's, 'f) sent" where
  "send_memory_fds S [] w = Some (Inr (), w)"
| "send_memory_fds S ((slot, fd) # fds) w =
    bind_step (request_step S [fd] (request_bytes (request_new Cmd_MemoryFd 4) @ to_le_bytes 4 slot) w)
      (send_memory_fds S fds)"

definition send_memory_live :: "('c, 's, 'f) send_env \<Rightarrow> pass \<Rightarrow> pass list \<Rightarrow> pass
    \<Rightarrow> ('c, 's, 'f) world \<Rightarrow> ('c, 's, 'f) sent" where
  "send_memory_live S bulk passes final w =
    bind_step (vm_op (env_start_dirty_log S) w) (\<lambda>w1.
      case env_memory_range_table S of
        None \<Rightarrow> Some (Inl SendVm, w1)
      | Some table \<Rightarrow>
          bind_step (send_table S bulk table w1) (\<lambda>w2.
          bind_step (dirty_passes S (take MAX_DIRTY_MIGRATIONS passes) w2) (\<lambda>w3.
          bind_step (vm_pause S w3) (\<lambda>w4.
          case vm_maybe_send_dirty_pages S final w4 of
            None \<Rightarrow> None
          | Some (Inl e, w5) \<Rightarrow> Some (Inl e, w5)
          | Some (Inr _, w5) \<Rightarrow> vm_op (env_stop_dirty_log S False) w5))))"

definition send_state :: "('c, 's, 'f) send_env \<Rightarrow> ('c, 's, 'f) world \<Rightarrow> ('c, 's, 'f) sent" where
  "send_state S w = (case env_snapshot S of
       None \<Rightarrow> Some (Inl SendVm, w)
     | Some snapshot \<Rightarrow>
         (let data = env_snapshot_bytes S snapshot
          in request_step S [] (request_bytes (request_new Cmd_State (of_nat (length data))) @ data) w))"

definition send_config :: "('c, 's, 'f) send_env \<Rightarrow> ('c, 's, 'f) world \<Rightarrow> ('c, 's, 'f) sent" where
  "send_config S w = request_step S []
     (request_bytes (request_new Cmd_Config (of_nat (length (env_config_bytes S)))) @ env_config_bytes S) w"

text \<open>Up to the last exchange, and the whole of it. The socket is closed when the function
  returns.\<close>

definition send_until_complete :: "('c, 's, 'f) send_env \<Rightarrow> bool \<Rightarrow> pass \<Rightarrow> pass list \<Rightarrow> pass
    \<Rightarrow> ('c, 's, 'f) world \<Rightarrow> ('c, 's, 'f) sent" where
  "send_until_complete S local bulk passes final w =
    bind_step (request_step S [] (request_bytes (request_new Cmd_Start 0)) w) (\<lambda>w1.
    bind_step (vm_op (env_common_cpuid S) w1) (\<lambda>w2.
    bind_step (if local then send_memory_fds S (env_memory_slot_fds S) w2 else Some (Inr (), w2)) (\<lambda>w3.
    bind_step (send_config S w3) (\<lambda>w4.
    bind_step (vm_op (env_start_migration S) w4) (\<lambda>w5.
    bind_step (if local then vm_pause S w5 else send_memory_live S bulk passes final w5)
      (send_state S))))))"

definition send_migration :: "('c, 's, 'f) send_env \<Rightarrow> string \<Rightarrow> bool \<Rightarrow> pass \<Rightarrow> pass list \<Rightarrow> pass
    \<Rightarrow> ('c, 's, 'f) world \<Rightarrow> ('c, 's, 'f) sent" where
  "send_migration S url local bulk passes final w =
    (if socket_url_to_path url = None then Some (Inl SendVm, w)
     else if \<not> env_connect S then Some (Inl SendVm, w)
     else map_option (map_prod id (hang_up S []))
       (bind_step (send_until_complete S local bulk passes final w) (\<lambda>w1.
        bind_step (request_step S [] (request_bytes (request_new Cmd_Complete 0)) w1)
          (vm_op (env_complete_migration S)))))"

definition migration_failed :: "('c, 's, 'f) send_env \<Rightarrow> send_error \<Rightarrow> ('c, 's, 'f) world
    \<Rightarrow> send_error \<times> ('c, 's, 'f) world" where
  "migration_failed S e w =
    (if \<not> env_stop_dirty_log S True then (SendVm, w)
     else if src_paused w then
       (if env_resume_source S then (e, w\<lparr>src_paused := False\<rparr>) else (SendVm, w))
     else (e, w))"

text \<open>\<open>vm_send_migration\<close>, called with a VM configuration; \<open>shared\<close> is its
  \<^verbatim>\<open>backed_by_shared_memory\<close>, \<open>running\<close> whether there is a VM. A panic passes the failure handler
  by.\<close>

definition vm_send_migration :: "('c, 's, 'f) send_env \<Rightarrow> bool \<Rightarrow> bool \<Rightarrow> string \<Rightarrow> bool \<Rightarrow> pass
    \<Rightarrow> pass list \<Rightarrow> pass \<Rightarrow> ('c, 's, 'f) world \<Rightarrow> ('c, 's, 'f) sent" where
  "vm_send_migration S shared running url local bulk passes final w =
    (if \<not> shared \<and> local then Some (Inl SendVm, w)
     else if \<not> running then Some (Inl SendVm, w)
     else case send_migration S url local bulk passes final w of
       None \<Rightarrow> None
     | Some (Inl e, w1) \<Rightarrow>
         if e = SendPanics then Some (Inl SendPanics, w1)
         else (case migration_failed S e w1 of (e', w2) \<Rightarrow> Some (Inl e', w2))
     | Some (Inr _, w1) \<Rightarrow>
         if env_exit_evt S then Some (Inr (), w1\<lparr>src_exited := True\<rparr>) else Some (Inl SendVm, w1))"

end
