(* ===== verification/Migration_Safety.thy ===== *)
theory Migration_Safety
  imports Migration_Sender
begin

text \<open>
  Which side runs the guest. The destination starts its virtual machine only when the request
  to complete arrives, the source pauses before it sends that request, and whatever breaks
  before then leaves the guest to the source, unless the source panics.
\<close>

section \<open>Messages that do not start the destination\<close>

definition running :: "('c, 's, 'f) receiver \<Rightarrow> bool" where
  "running st \<longleftrightarrow> (case r_vm st of None \<Rightarrow> False | Some vm \<Rightarrow> vm_running vm)"

lemma running_simps [simp]:
  "running (st\<lparr>started := b\<rparr>) = running st" "running (st\<lparr>memory_manager := m\<rparr>) = running st"
  "running (st\<lparr>existing_memory_files := f\<rparr>) = running st" "running (st\<lparr>incoming_fds := i\<rparr>) = running st"
  "running (st\<lparr>r_vm_config := c\<rparr>) = running st" "\<not> running (st\<lparr>r_vm := None\<rparr>)"
  "running (st\<lparr>r_vm := Some vm\<rparr>) = vm_running vm"
  by (simp_all add: running_def)

text \<open>However much of the message arrives, the destination's machine does not run afterwards,
  and if the receiver goes on, nothing of the message is left to be taken for a request.\<close>

definition harmless :: "('c, 's, 'f) recv_env \<Rightarrow> u8 list \<Rightarrow> ('c, 's, 'f) receiver \<Rightarrow> bool" where
  "harmless E bytes st \<longleftrightarrow> (\<forall>n. case receive_one E (take n bytes) st of (flow, rs, rest, st') \<Rightarrow>
     \<not> running st' \<and> (flow = Continue \<longrightarrow> rest = []))"

lemma length_request_bytes [simp]: "length (request_bytes (request_new c n)) = 16"
  by (simp add: request_bytes_def request_new_def)

lemma request_roundtrip_new [simp]:
  "request_read_from (request_bytes (request_new c n) @ rest) = Got (request_new c n) rest"
  by (rule request_roundtrip) (simp add: request_new_def)

lemma receive_one_short: "length bytes < 16 \<Longrightarrow> receive_one E bytes st = (Returned (Some SocketError), [], [], st)"
  by (simp add: receive_one_def request_read_from_def read_exact_def)

lemma harmlessI:
  assumes "\<not> running st"
    and "\<And>n. case handle_command E (request_new c len) (take n payload) st of (flow, rs, rest, st') \<Rightarrow>
      \<not> running st' \<and> (flow = Continue \<longrightarrow> rest = [])"
  shows "harmless E (request_bytes (request_new c len) @ payload) st"
  unfolding harmless_def
proof
  fix n
  show "case receive_one E (take n (request_bytes (request_new c len) @ payload)) st of (flow, rs, rest, st') \<Rightarrow>
     \<not> running st' \<and> (flow = Continue \<longrightarrow> rest = [])"
  proof (cases "n < 16")
    case True
    then show ?thesis using assms(1) by (simp add: receive_one_short)
  next
    case False
    then show ?thesis using assms(2) [of "n - 16"] by (simp add: receive_one_def)
  qed
qed

lemma harmless_start: "\<not> running st \<Longrightarrow> harmless E (request_bytes (request_new Cmd_Start 0)) st"
  using harmlessI [of st E Cmd_Start 0 "[]"]
  by (simp add: handle_command_def request_new_def respond_def)

lemma harmless_abandon: "\<not> running st \<Longrightarrow> harmless E (request_bytes (request_new Cmd_Abandon 0)) st"
  using harmlessI [of st E Cmd_Abandon 0 "[]"]
  by (simp add: handle_command_def request_new_def receive_abandon_def)

lemma harmless_memory_fd:
  assumes "\<not> running st" "started st"
  shows "harmless E (request_bytes (request_new Cmd_MemoryFd 4) @ to_le_bytes 4 slot) st"
  using assms by (intro harmlessI)
    (auto simp: handle_command_def request_new_def receive_memory_fd_def respond_def Let_def
      split: list.splits)

lemma read_all_or_fail:
  "length data < 2 ^ 64 \<Longrightarrow> read_exact (unat (of_nat (length data) :: u64)) (take n data) =
    (if length data \<le> n then Some (data, []) else None)"
  by (auto simp: read_exact_def unat_of_nat)

lemma harmless_config:
  assumes "\<not> running st" "started st" "length data < 2 ^ 64"
  shows "harmless E (request_bytes (request_new Cmd_Config (of_nat (length data))) @ data) st"
  using assms by (intro harmlessI)
    (auto simp: handle_command_def request_new_def vm_receive_config_def read_all_or_fail Let_def
      split: option.splits)

lemma harmless_state:
  assumes "\<not> running st" "started st" "memory_manager st \<noteq> None" "length data < 2 ^ 64"
  shows "harmless E (request_bytes (request_new Cmd_State (of_nat (length data))) @ data) st"
  using assms by (intro harmlessI)
    (auto simp: handle_command_def request_new_def vm_receive_state_def respond_def read_all_or_fail
      split: option.splits)

lemma harmless_memory:
  assumes "\<not> running st" "started st" "memory_manager st \<noteq> None"
    and "SIZEOF_MEMORY_RANGE * length table < 2 ^ 64" "length data \<le> size_of table"
  shows "harmless E (request_bytes (request_new Cmd_Memory (table_length table)) @ table_bytes table @ data) st"
proof (rule harmlessI [OF assms(1)])
  fix n
  obtain mm where mm: "memory_manager st = Some mm" using assms(3) by auto
  let ?rest = "take (n - SIZEOF_MEMORY_RANGE * length table) data"
  define stream where "stream = take n (table_bytes table @ data)"
  have tab: "table_read_from stream (table_length table) =
      (if SIZEOF_MEMORY_RANGE * length table \<le> n then Got table ?rest else MigrateSocket)"
  proof (cases "SIZEOF_MEMORY_RANGE * length table \<le> n")
    case True
    then have "stream = table_bytes table @ ?rest" by (simp add: stream_def)
    then show ?thesis using table_roundtrip [OF assms(4)] True by simp
  next
    case False
    then show ?thesis using assms(4)
      by (auto simp: stream_def table_read_from_def read_exact_def table_length_def unat_of_nat
          SIZEOF_MEMORY_RANGE_def simp del: of_nat_mult)
  qed
  have "rest = []" if "receive_memory_regions rv table ?rest mem = (MemOk rest, mem1)" for rv mem rest mem1
    using regions_amount [OF that] assms(5) by (auto simp: min_def split: if_splits)
  then show "case handle_command E (request_new Cmd_Memory (table_length table))
      (take n (table_bytes table @ data)) st of (flow, rs, rest, st') \<Rightarrow>
      \<not> running st' \<and> (flow = Continue \<longrightarrow> rest = [])"
    unfolding stream_def [symmetric] using assms(1,2) mm
    by (auto simp: handle_command_def request_new_def vm_receive_memory_def respond_def tab
        split: mem_received.splits prod.splits)
qed

section \<open>Exchanges\<close>

lemma receive_loop_Nil [simp]:
  "receive_loop E True [] st = (Continue, [], st)"
  "receive_loop E False [] st = (Returned (Some SocketError), [], st)"
  by (simp_all add: receive_loop.simps receive_one_short)

lemma harmless_quiet:
  assumes "harmless E bytes st" "receive_loop E open (take n bytes) st = (flow, rs, st')" "\<not> running st"
  shows "\<not> running st'"
proof -
  obtain f1 rs1 rest st1 where one: "receive_one E (take n bytes) st = (f1, rs1, rest, st1)"
    by (cases "receive_one E (take n bytes) st") auto
  then have "\<not> running st1" "f1 = Continue \<longrightarrow> rest = []"
    using assms(1) unfolding harmless_def by (metis (mono_tags, lifting) old.prod.case)+
  then show ?thesis using assms(2,3) one
    by (cases "open"; cases "f1 = Continue")
      (auto simp: receive_loop.simps [of E _ "take n bytes"] split: if_splits)
qed

lemma harmless_answered:
  assumes "harmless E bytes st" "receive_one E bytes st = (flow, rs, rest, st')" "bytes \<noteq> []"
  shows "receive_loop E True bytes st = (flow, rs, st')"
proof -
  have "flow = Continue \<longrightarrow> rest = []"
    using assms(1,2) unfolding harmless_def by (metis (mono_tags, lifting) old.prod.case take_all_iff order_refl)
  then show ?thesis using assms(2,3) by (cases "flow = Continue") (simp_all add: receive_loop.simps [of E True bytes])
qed

lemma deliver_same [simp]:
  "src (snd (deliver S open bytes w)) = src w" "src_paused (snd (deliver S open bytes w)) = src_paused w"
  "faults (snd (deliver S open bytes w)) = faults w"
  by (simp_all add: deliver_def split: prod.splits)

lemma deliver_quiet:
  assumes "harmless (env_dest S) bytes (dst w)" "\<not> running (dst w)"
  shows "\<not> running (dst (snd (deliver S open (take n bytes) w)))"
  using harmless_quiet [OF assms(1)] assms(2) by (auto simp: deliver_def split: prod.splits)

definition posted :: "'f list \<Rightarrow> ('c, 's, 'f) world \<Rightarrow> ('c, 's, 'f) world" where
  "posted fds w = w\<lparr>faults := tl (faults w), dst := (dst w)\<lparr>incoming_fds := incoming_fds (dst w) @ fds\<rparr>\<rparr>"

lemma exchange_world:
  assumes "exchange S fds bytes w = Some (a, w')"
  obtains "w' = w"
  | "open" n c where "w' = snd (deliver S open (take n bytes) (posted fds w))\<lparr>connected := c\<rparr>"
proof (cases "connected w")
  case False
  then show ?thesis using assms that by (simp add: exchange_def)
next
  case True
  obtain rs w1 where d: "deliver S True (take (length bytes) bytes) (posted fds w) = (rs, w1)"
    by (cases "deliver S True (take (length bytes) bytes) (posted fds w)") auto
  show ?thesis
  proof (cases "case faults w of [] \<Rightarrow> Link_ok | f # _ \<Rightarrow> f")
    case Link_ok
    then have "w' = snd (deliver S True (take (length bytes) bytes) (posted fds w))
        \<lparr>connected := dst_flow w1 = Continue\<rparr>"
      using assms True d by (auto simp: exchange_def Let_def posted_def split: if_splits)
    then show ?thesis by (rule that)
  next
    case (Link_cut n)
    then have "w' = snd (deliver S False (take (min n (length bytes - 1)) bytes) (posted fds w))
        \<lparr>connected := False\<rparr>"
      using assms True by (auto simp: exchange_def Let_def posted_def butlast_conv_take)
    then show ?thesis by (rule that)
  next
    case Response_lost
    then have "w' = snd (deliver S False (take (length bytes) bytes) (posted fds w))\<lparr>connected := False\<rparr>"
      using assms True by (auto simp: exchange_def Let_def posted_def)
    then show ?thesis by (rule that)
  qed
qed

lemma exchange_quiet:
  assumes "exchange S fds bytes w = Some (a, w')" "\<not> running (dst w)"
    and "harmless (env_dest S) bytes (dst (posted fds w))"
  shows "\<not> running (dst w') \<and> src_paused w' = src_paused w \<and> src w' = src w \<and> set (faults w') \<subseteq> set (faults w)"
  using assms(1)
proof (cases rule: exchange_world)
  case (2 "open" n c)
  have "\<not> running (dst (posted fds w))" using assms(2) by (simp add: posted_def)
  moreover have "set (tl (faults w)) \<subseteq> set (faults w)" by (cases "faults w") auto
  ultimately show ?thesis using deliver_quiet [OF assms(3)] 2 by (simp add: posted_def)
qed (use assms(2) in simp)

lemma replies:
  "receive_one E bytes st = (flow, rs, rest, st') \<Longrightarrow> rs = [] \<or> (\<exists>s. rs = [response_new s 0])"
  unfolding receive_one_def handle_command_def vm_receive_config_def vm_receive_state_def vm_receive_memory_def
    receive_memory_fd_def receive_complete_def receive_abandon_def respond_def Let_def
  by (auto split: received.splits Command.splits if_splits option.splits prod.splits list.splits mem_received.splits)

lemma response_of_nothing [simp]: "response_read_from [] = MigrateSocket"
  by (simp add: response_read_from_def read_exact_def)

lemma response_roundtrip_new [simp]:
  "response_read_from (response_bytes (response_new s n)) = Got (response_new s n) []"
  "rs_status (response_new s n) = s"
  using response_roundtrip [of "response_new s n" "[]"] by (simp_all add: response_new_def)

lemma response_new_eq [simp]: "response_new s n = response_new s' n' \<longleftrightarrow> s = s' \<and> n = n'"
  by (simp add: response_new_def)

text \<open>What an exchange that is answered \<open>Ok\<close> did.\<close>

lemma answered:
  assumes "exchange S fds bytes w = Some (Answer res, w')" "rs_status res = St_Ok"
    and "dst_flow w = Continue" "bytes \<noteq> []" "Response_lost \<notin> set (faults w)"
    and "harmless (env_dest S) bytes (dst (posted fds w))"
  obtains flow rest where "receive_one (env_dest S) bytes (dst (posted fds w)) =
      (flow, [response_new St_Ok 0], rest, dst w')" "dst_flow w' = flow" "connected w' \<longleftrightarrow> flow = Continue"
proof -
  let ?st = "dst (posted fds w)"
  have post: "w\<lparr>faults := tl (faults w), dst := (dst w)\<lparr>incoming_fds := incoming_fds (dst w) @ fds\<rparr>\<rparr> = posted fds w"
    "dst_flow (posted fds w) = Continue" using assms(3) by (simp_all add: posted_def)
  obtain flow rs rest st' where one: "receive_one (env_dest S) bytes ?st = (flow, rs, rest, st')"
    by (cases "receive_one (env_dest S) bytes ?st") auto
  have loop: "receive_loop (env_dest S) True bytes ?st = (flow, rs, st')"
    by (rule harmless_answered [OF assms(6) one assms(4)])
  have ok: "(case faults w of [] \<Rightarrow> Link_ok | f # _ \<Rightarrow> f) = Link_ok" "connected w"
    using assms(1,5) by (auto simp: exchange_def Let_def split: if_splits link.splits list.splits)
  have "rs = [response_new St_Ok 0]"
    using replies [OF one] assms(1,2) ok loop
    by (auto simp: exchange_def Let_def post deliver_def split: if_splits)
  moreover from this have "dst w' = st'" "dst_flow w' = flow" "connected w' \<longleftrightarrow> flow = Continue"
    using assms(1) ok loop by (auto simp: exchange_def Let_def post deliver_def split: if_splits)
  ultimately show thesis using that one by simp
qed

section \<open>Stages of the migration\<close>

text \<open>Every way a step fails leaves the destination's machine stopped; when it succeeds, \<open>P\<close> holds.\<close>

definition step_ok :: "bool \<Rightarrow> ('c, 's, 'f) sent \<Rightarrow> (('c, 's, 'f) world \<Rightarrow> bool) \<Rightarrow> bool" where
  "step_ok B m P \<longleftrightarrow> (\<forall>r w. m = Some (r, w) \<longrightarrow>
     (case r of Inl e \<Rightarrow> \<not> running (dst w) \<and> (e = SendPanics \<longrightarrow> B) | Inr _ \<Rightarrow> P w))"

lemma step_okI:
  "\<lbrakk>\<And>e w. m = Some (Inl e, w) \<Longrightarrow> \<not> running (dst w) \<and> (e = SendPanics \<longrightarrow> B);
    \<And>w. m = Some (Inr (), w) \<Longrightarrow> P w\<rbrakk> \<Longrightarrow> step_ok B m P"
  by (auto simp: step_ok_def split: sum.splits)

lemma step_okD:
  "\<lbrakk>step_ok B m P; m = Some (Inl e, w)\<rbrakk> \<Longrightarrow> \<not> running (dst w) \<and> (e = SendPanics \<longrightarrow> B)"
  "\<lbrakk>step_ok B m P; m = Some (Inr u, w)\<rbrakk> \<Longrightarrow> P w"
  by (auto simp: step_ok_def)

lemma step_ok_Some [simp]:
  "step_ok B (Some (Inl e, w)) P = (\<not> running (dst w) \<and> (e = SendPanics \<longrightarrow> B))"
  "step_ok B (Some (Inr u, w)) P = P w" "step_ok B None P"
  by (simp_all add: step_ok_def)

lemma step_ok_bind:
  "\<lbrakk>step_ok B m P; \<And>w. P w \<Longrightarrow> step_ok B (k w) Q\<rbrakk> \<Longrightarrow> step_ok B (bind_step m k) Q"
  unfolding step_ok_def bind_step_def by (fastforce split: option.splits sum.splits)

lemma step_ok_mono: "\<lbrakk>step_ok B m P; \<And>w. P w \<Longrightarrow> Q w\<rbrakk> \<Longrightarrow> step_ok B m Q"
  unfolding step_ok_def by (fastforce split: sum.splits)

lemma step_ok_vm_op: "\<lbrakk>P w; \<not> running (dst w)\<rbrakk> \<Longrightarrow> step_ok B (vm_op ok w) P"
  by (simp add: step_ok_def vm_op_def)

definition linked :: "('c, 's, 'f) world \<Rightarrow> bool" where
  "linked w \<longleftrightarrow> connected w \<and> dst_flow w = Continue \<and> Response_lost \<notin> set (faults w) \<and> \<not> running (dst w)"

lemma request_step_ok:
  assumes w: "linked w" and h: "harmless (env_dest S) bytes (dst (posted fds w))" "bytes \<noteq> []"
    and ok: "\<And>flow rest st'. receive_one (env_dest S) bytes (dst (posted fds w)) =
      (flow, [response_new St_Ok 0], rest, st') \<Longrightarrow> flow = Continue \<and> Q st'"
  shows "step_ok B (request_step S fds bytes w)
    (\<lambda>w'. linked w' \<and> Q (dst w') \<and> src_paused w' = src_paused w)"
  unfolding step_ok_def
proof (intro allI impI)
  fix r w'
  assume step: "request_step S fds bytes w = Some (r, w')"
  then obtain a w1 where ex: "exchange S fds bytes w = Some (a, w1)"
    by (auto simp: request_step_def split: option.splits)
  have q: "\<not> running (dst w1)" "src_paused w1 = src_paused w" "set (faults w1) \<subseteq> set (faults w)"
    using exchange_quiet [OF ex _ h(1)] w by (simp_all add: linked_def)
  show "case r of Inl e \<Rightarrow> \<not> running (dst w') \<and> (e = SendPanics \<longrightarrow> B)
    | Inr _ \<Rightarrow> linked w' \<and> Q (dst w') \<and> src_paused w' = src_paused w"
  proof (cases "\<exists>res. a = Answer res")
    case False
    then show ?thesis using step ex q by (cases a) (auto simp: request_step_def)
  next
    case True
    then obtain res where a: "a = Answer res" by blast
    show ?thesis
    proof (cases "rs_status res = St_Ok")
      case True
      obtain flow rest where one: "receive_one (env_dest S) bytes (dst (posted fds w)) =
          (flow, [response_new St_Ok 0], rest, dst w1)" "dst_flow w1 = flow" "connected w1 \<longleftrightarrow> flow = Continue"
        using answered [OF ex [unfolded a] True _ h(2) _ h(1)] w by (auto simp: linked_def)
      from ok [OF one(1)] show ?thesis
        using True step ex a q w one(2,3) by (auto simp: request_step_def linked_def)
    next
      case False
      obtain b w2 where ab: "exchange S [] (request_bytes (request_new Cmd_Abandon 0)) w1 = Some (b, w2)"
        using step ex a False by (auto simp: request_step_def split: option.splits)
      have "\<not> running (dst w2)"
        using exchange_quiet [OF ab q(1) harmless_abandon] q(1) by (simp add: posted_def)
      then show ?thesis using step ex a False ab by (auto simp: request_step_def split: answer.splits)
    qed
  qed
qed

text \<open>After the start, after the configuration, after the state.\<close>

definition begun :: "('c, 's, 'f) world \<Rightarrow> bool" where
  "begun w \<longleftrightarrow> linked w \<and> started (dst w)"

definition configured :: "('c, 's, 'f) world \<Rightarrow> bool" where
  "configured w \<longleftrightarrow> begun w \<and> memory_manager (dst w) \<noteq> None"

definition handed_over :: "('c, 's, 'f) world \<Rightarrow> bool" where
  "handed_over w \<longleftrightarrow> linked w \<and> src_paused w \<and> r_vm (dst w) \<noteq> None"

text \<open>Payloads fit the length field of a request.\<close>

definition sizes_ok :: "('c, 's, 'f) send_env \<Rightarrow> bool" where
  "sizes_ok S \<longleftrightarrow> length (env_config_bytes S) < 2 ^ 64 \<and> (\<forall>s. length (env_snapshot_bytes S s) < 2 ^ 64) \<and>
     (case env_memory_range_table S of None \<Rightarrow> True | Some table \<Rightarrow> SIZEOF_MEMORY_RANGE * length table < 2 ^ 64)"

lemma posted_simps [simp]:
  "running (dst (posted fds w)) = running (dst w)" "started (dst (posted fds w)) = started (dst w)"
  "memory_manager (dst (posted fds w)) = memory_manager (dst w)" "r_vm (dst (posted fds w)) = r_vm (dst w)"
  "r_vm_config (dst (posted fds w)) = r_vm_config (dst w)"
  by (simp_all add: posted_def)

lemma request_bytes_nonempty [simp]: "request_bytes r \<noteq> []"
  by (simp add: request_bytes_def u16_bytes_def to_le_bytes_def)

lemma linkedD: "linked w \<Longrightarrow> \<not> running (dst w)"
  by (simp add: linked_def)

lemma receive_one_request:
  "receive_one E (request_bytes (request_new c n) @ payload) st = handle_command E (request_new c n) payload st"
  "receive_one E (request_bytes (request_new c n)) st = handle_command E (request_new c n) [] st"
  using request_roundtrip_new [of c n payload] request_roundtrip_new [of c n "[]"]
  by (simp_all add: receive_one_def del: request_roundtrip_new)

lemma request_new_simps [simp]: "rq_command (request_new c n) = c" "rq_length (request_new c n) = n"
  by (simp_all add: request_new_def)

lemmas command_simps = receive_one_request handle_command_def respond_def Let_def

lemma start_ok:
  assumes "linked w"
  shows "step_ok B (request_step S [] (request_bytes (request_new Cmd_Start 0)) w)
    (\<lambda>w'. begun w' \<and> src_paused w' = src_paused w)"
  by (rule step_ok_mono [OF request_step_ok [OF assms, where Q = started]])
    (use assms in \<open>auto simp: harmless_start linkedD command_simps begun_def split: if_splits\<close>)

lemma memory_fd_ok:
  assumes "begun w"
  shows "step_ok B (request_step S [fd] (request_bytes (request_new Cmd_MemoryFd 4) @ to_le_bytes 4 slot) w)
    (\<lambda>w'. begun w' \<and> src_paused w' = src_paused w)"
  by (rule step_ok_mono [OF request_step_ok [where Q = started]])
    (use assms in \<open>auto simp: harmless_memory_fd linkedD command_simps begun_def receive_memory_fd_def
      split: if_splits list.splits\<close>)

lemma memory_fds_ok:
  "begun w \<Longrightarrow> step_ok B (send_memory_fds S fds w) (\<lambda>w'. begun w' \<and> src_paused w' = src_paused w)"
proof (induction fds arbitrary: w)
  case Nil
  then show ?case by (simp add: step_ok_def)
next
  case (Cons p fds)
  obtain slot fd where p: "p = (slot, fd)" by (cases p) auto
  show ?case unfolding p send_memory_fds.simps
    by (rule step_ok_bind [OF memory_fd_ok [OF Cons.prems]])
      (rule step_ok_mono [OF Cons.IH], auto)
qed

lemma config_ok:
  assumes "begun w" "sizes_ok S"
  shows "step_ok B (send_config S w) (\<lambda>w'. configured w' \<and> src_paused w' = src_paused w)"
  unfolding send_config_def
  by (rule step_ok_mono [OF request_step_ok [where Q = "\<lambda>st. started st \<and> memory_manager st \<noteq> None"]])
    (use assms in \<open>auto simp: harmless_config linkedD command_simps begun_def configured_def vm_receive_config_def
      sizes_ok_def split: if_splits option.splits\<close>)

lemma memory_ok:
  assumes "configured w" "SIZEOF_MEMORY_RANGE * length table < 2 ^ 64" "length data \<le> size_of table"
  shows "step_ok B (request_step S [] (request_bytes (request_new Cmd_Memory (table_length table)) @
      table_bytes table @ data) w) (\<lambda>w'. configured w' \<and> src_paused w' = src_paused w)"
  by (rule step_ok_mono [OF request_step_ok [where Q = "\<lambda>st. started st \<and> memory_manager st \<noteq> None"]])
    (use assms in \<open>auto simp: harmless_memory linkedD command_simps begun_def configured_def vm_receive_memory_def
      split: if_splits option.splits received.splits mem_received.splits prod.splits\<close>)

lemma state_ok:
  assumes "configured w" "src_paused w" "sizes_ok S"
  shows "step_ok B (send_state S w) handed_over"
proof (cases "env_snapshot S")
  case None
  then show ?thesis using assms(1)
    by (simp add: send_state_def step_ok_def configured_def begun_def linked_def)
next
  case (Some s)
  show ?thesis unfolding send_state_def Some option.case Let_def
    by (rule step_ok_mono [OF request_step_ok [where Q = "\<lambda>st. r_vm st \<noteq> None"]])
      (use assms in \<open>auto simp: harmless_state linkedD command_simps begun_def configured_def handed_over_def
        sizes_ok_def vm_receive_state_def split: if_splits option.splits\<close>)
qed

section \<open>Memory passes\<close>

text \<open>\<open>write_volatile_to\<close> writes at most what it was asked to.\<close>

definition writes_at_most :: "snap_env \<Rightarrow> bool" where
  "writes_at_most E \<longleftrightarrow> (\<forall>a c n. env_write_volatile_to E a c = Inr n \<longrightarrow> n \<le> c)"

lemma save_loop_appends:
  "save_loop wv mem mr off f = Some y \<Longrightarrow> (\<forall>a c n. wv a c = Inr n \<longrightarrow> n \<le> c) \<longrightarrow> off \<le> mr_length mr \<longrightarrow>
    cursor f = length (file_bytes f) \<longrightarrow>
    (\<exists>d. file_bytes (snd y) = file_bytes f @ d \<and> length d \<le> unat (mr_length mr - off) \<and>
      cursor (snd y) = length (file_bytes (snd y)))"
proof (induction rule: save_loop.raw_induct [rotated 1, consumes 1, case_names step])
  case (step loop wv mem mr off f y)
  show ?case
  proof (intro impI)
    assume w: "\<forall>a c n. wv a c = Inr n \<longrightarrow> n \<le> c" and le: "off \<le> mr_length mr" and c: "cursor f = length (file_bytes f)"
    show "\<exists>d. file_bytes (snd y) = file_bytes f @ d \<and> length d \<le> unat (mr_length mr - off) \<and>
      cursor (snd y) = length (file_bytes (snd y))"
    proof (cases "wv (gpa mr + off) (mr_length mr - off)")
      case (Inl e)
      then show ?thesis using step.hyps c by auto
    next
      case (Inr n)
      let ?d = "guest_bytes mem (gpa mr + off) (unat n)"
      have n: "n \<le> mr_length mr - off" using w Inr by blast
      have f1: "file_bytes (file_write f ?d) = file_bytes f @ ?d"
        "cursor (file_write f ?d) = length (file_bytes (file_write f ?d))"
        using c by (simp_all add: file_write_def)
      show ?thesis
      proof (cases "off + n = mr_length mr")
        case True
        then have "n = mr_length mr - off" by (simp add: algebra_simps)
        then show ?thesis using step.hyps Inr True f1 by auto
      next
        case False
        then have "loop wv mem mr (off + n) (file_write f ?d) = Some y" using step.hyps Inr by simp
        from step.IH [OF this] w advance_offset [OF le n] f1
        obtain d where "file_bytes (snd y) = file_bytes (file_write f ?d) @ d"
          "length d \<le> unat (mr_length mr - off) - unat n" "cursor (snd y) = length (file_bytes (snd y))"
          by auto
        then show ?thesis using f1 n by (auto simp: word_le_nat_alt)
      qed
    qed
  qed
qed

lemma send_regions_append:
  assumes "\<forall>a c n. wv a c = Inr n \<longrightarrow> n \<le> c"
  shows "\<lbrakk>send_memory_regions wv mem table f = Some (r, f'); cursor f = length (file_bytes f)\<rbrakk> \<Longrightarrow>
    \<exists>d. file_bytes f' = file_bytes f @ d \<and> length d \<le> size_of table"
proof (induction table arbitrary: f)
  case (Cons mr table)
  obtain r1 f1 where s: "save_loop wv mem mr 0 f = Some (r1, f1)"
    using Cons.prems(1) by (auto split: option.splits)
  obtain d where d: "file_bytes f1 = file_bytes f @ d" "length d \<le> unat (mr_length mr)"
    "cursor f1 = length (file_bytes f1)"
    using save_loop_appends [OF s] assms Cons.prems(2) by auto
  show ?case
  proof (cases r1)
    case (Inl e)
    then show ?thesis using Cons.prems(1) s d by auto
  next
    case (Inr u)
    then obtain d' where "file_bytes f' = file_bytes f1 @ d'" "length d' \<le> size_of table"
      using Cons.IH [OF _ d(3)] Cons.prems(1) s by auto
    then show ?thesis using d by auto
  qed
qed simp

lemma after_writes_simps [simp]:
  "dst (after_writes p w) = dst w" "src_paused (after_writes p w) = src_paused w"
  "linked (after_writes p w) = linked w" "begun (after_writes p w) = begun w"
  "configured (after_writes p w) = configured w"
  by (simp_all add: after_writes_def linked_def begun_def configured_def)

lemma hang_up_quiet:
  assumes "harmless (env_dest S) bytes (dst w)" "\<not> running (dst w)"
  shows "\<not> running (dst (hang_up S bytes w))"
  using deliver_quiet [OF assms, of False "length bytes"] assms(2) by (simp add: hang_up_def)

lemma harmless_prefix: "harmless E (xs @ ys) st \<Longrightarrow> harmless E xs st"
  unfolding harmless_def
proof (intro allI)
  fix n
  assume h: "\<forall>n. case receive_one E (take n (xs @ ys)) st of (flow, rs, rest, st') \<Rightarrow>
    \<not> running st' \<and> (flow = Continue \<longrightarrow> rest = [])"
  have "take (min n (length xs)) (xs @ ys) = take n xs" by (cases "n \<le> length xs") simp_all
  with spec [OF h, of "min n (length xs)"] show "case receive_one E (take n xs) st of (flow, rs, rest, st') \<Rightarrow>
    \<not> running st' \<and> (flow = Continue \<longrightarrow> rest = [])" by metis
qed

lemma send_table_panics:
  assumes c: "configured w" and t: "SIZEOF_MEMORY_RANGE * length table < 2 ^ 64"
    and fails: "request_write_fails p w" "p_request_fails p \<longrightarrow> B"
  shows "step_ok B (send_table S p table w) Q"
proof -
  let ?rq = "request_bytes (request_new Cmd_Memory (table_length table))"
  have B using c fails by (auto simp: request_write_fails_def configured_def begun_def linked_def)
  have q: "\<not> running (dst w)" "harmless (env_dest S) (?rq @ table_bytes table @ []) (dst (posted [] w))"
    by (use c in \<open>simp add: configured_def begun_def linked_def\<close>)
      (rule harmless_memory, use c t in \<open>auto simp: configured_def begun_def linked_def\<close>)
  have "\<not> running (dst w')" if "exchange S [] ?rq w = Some (a, w')" for a w'
    using exchange_quiet [OF that q(1) harmless_prefix [OF q(2)]] by simp
  then show ?thesis using fails(1) \<open>B\<close>
    by (intro step_okI) (auto simp: send_table_def Let_def)
qed

lemma send_table_written:
  assumes c: "configured w" and t: "SIZEOF_MEMORY_RANGE * length table < 2 ^ 64" and wr: "writes_at_most (p_env p)"
    and sent: "\<not> request_write_fails p w"
  shows "step_ok B (send_table S p table w) (\<lambda>w'. configured w' \<and> src_paused w' = src_paused w)"
proof (cases "send_memory_regions (env_write_volatile_to (p_env p)) (seen_memory w p) table
    \<lparr>file_bytes = request_bytes (request_new Cmd_Memory (table_length table)) @ table_bytes table,
      cursor = length (request_bytes (request_new Cmd_Memory (table_length table)) @ table_bytes table)\<rparr>")
  case None
  then show ?thesis by (simp add: send_table_def sent Let_def step_ok_def)
next
  case (Some rf)
  obtain r f where rf: "rf = (r, f)" by (cases rf)
  obtain d where d: "file_bytes f = request_bytes (request_new Cmd_Memory (table_length table)) @ table_bytes table @ d"
    "length d \<le> size_of table"
    using send_regions_append [OF wr [unfolded writes_at_most_def] Some [unfolded rf]] by auto
  have h: "harmless (env_dest S) (file_bytes f) (dst w)" unfolding d(1)
    by (rule harmless_memory) (use c t d(2) in \<open>auto simp: configured_def begun_def linked_def\<close>)
  show ?thesis
  proof (cases r)
    case (Inl e)
    then show ?thesis using Some rf hang_up_quiet [OF h] c
      by (auto simp: send_table_def sent Let_def step_ok_def configured_def begun_def linked_def)
  next
    case (Inr u)
    have "step_ok B (request_step S [] (file_bytes f) w) (\<lambda>w'. configured w' \<and> src_paused w' = src_paused w)"
      unfolding d(1) by (rule memory_ok [OF c t d(2)])
    from step_okD [OF this] show ?thesis using Some rf Inr
      by (intro step_okI) (auto simp: send_table_def sent Let_def)
  qed
qed

lemma send_table_ok:
  assumes "configured w" "SIZEOF_MEMORY_RANGE * length table < 2 ^ 64" "writes_at_most (p_env p)"
    "p_request_fails p \<longrightarrow> B"
  shows "step_ok B (send_table S p table w) (\<lambda>w'. configured w' \<and> src_paused w' = src_paused w)"
  using send_table_panics [OF assms(1,2) _ assms(4)] send_table_written [OF assms(1-3)]
  by (cases "request_write_fails p w") blast+

text \<open>A pass whose writer is bounded and whose table fits the length field of the request.\<close>

definition sane_pass :: "('c, 's, 'f) send_env \<Rightarrow> pass \<Rightarrow> bool" where
  "sane_pass S p \<longleftrightarrow> writes_at_most (p_env p) \<and> (case dirty_log_table (p_env p) (env_mappings S) [] of
     Inl _ \<Rightarrow> True | Inr table \<Rightarrow> SIZEOF_MEMORY_RANGE * length table < 2 ^ 64)"

lemma maybe_send_ok:
  assumes "configured w" "sane_pass S p" "p_request_fails p \<longrightarrow> B" "vm_maybe_send_dirty_pages S p w = Some (r, w')"
  shows "case r of Inl e \<Rightarrow> \<not> running (dst w') \<and> (e = SendPanics \<longrightarrow> B) | Inr _ \<Rightarrow> configured w' \<and> src_paused w' = src_paused w"
proof (cases "dirty_log_table (p_env p) (env_mappings S) []")
  case (Inl e)
  then show ?thesis using assms
    by (auto simp: vm_maybe_send_dirty_pages_def configured_def begun_def linked_def)
next
  case (Inr table)
  then have "step_ok B (send_table S p table w) (\<lambda>w'. configured w' \<and> src_paused w' = src_paused w)"
    using assms(1-3) by (intro send_table_ok) (simp_all add: sane_pass_def)
  from step_okD [OF this] show ?thesis using Inr assms
    by (auto simp: vm_maybe_send_dirty_pages_def split: if_splits option.splits sum.splits)
qed

lemma dirty_passes_ok:
  "\<lbrakk>configured w; \<forall>p \<in> set ps. sane_pass S p \<and> (p_request_fails p \<longrightarrow> B)\<rbrakk> \<Longrightarrow> step_ok B (dirty_passes S ps w) configured"
proof (induction ps arbitrary: w)
  case Nil
  then show ?case by (simp add: step_ok_def)
next
  case (Cons p ps)
  show ?case
  proof (cases "vm_maybe_send_dirty_pages S p w")
    case None
    then show ?thesis by (simp add: step_ok_def)
  next
    case (Some rw)
    then obtain r w1 where rw: "vm_maybe_send_dirty_pages S p w = Some (r, w1)" by (cases rw) auto
    note r = maybe_send_ok [OF Cons.prems(1) _ _ rw, of B]
    show ?thesis
    proof (cases r)
      case (Inl e)
      then show ?thesis using r rw Cons.prems by (simp add: step_ok_def)
    next
      case (Inr more)
      then have "configured w1" using r Cons.prems(2) by simp
      moreover have "\<forall>p \<in> set ps. sane_pass S p \<and> (p_request_fails p \<longrightarrow> B)" using Cons.prems(2) by simp
      ultimately show ?thesis using Inr rw Cons.IH [of w1] by (cases more) simp_all
    qed
  qed
qed

lemma pause_ok: "configured w \<Longrightarrow> step_ok B (vm_pause S w) (\<lambda>w'. configured w' \<and> src_paused w')"
  by (auto simp: vm_pause_def configured_def begun_def linked_def)

lemma send_memory_live_ok:
  assumes c: "configured w" and sane: "\<forall>p \<in> set (bulk # final # passes). sane_pass S p \<and> (p_request_fails p \<longrightarrow> B)"
    and sizes: "sizes_ok S"
  shows "step_ok B (send_memory_live S bulk passes final w) (\<lambda>w'. configured w' \<and> src_paused w')"
proof -
  have q: "configured w \<Longrightarrow> \<not> running (dst w)" for w :: "('a, 'b, 'c) world"
    by (simp add: configured_def begun_def linked_def)
  have final: "step_ok B (case vm_maybe_send_dirty_pages S final w of
        None \<Rightarrow> None
      | Some (Inl e, w5) \<Rightarrow> Some (Inl e, w5)
      | Some (Inr _, w5) \<Rightarrow> vm_op (env_stop_dirty_log S False) w5) (\<lambda>w'. configured w' \<and> src_paused w')"
    if "configured w \<and> src_paused w" for w
    using maybe_send_ok [of w S final B] that sane q
    by (auto simp: step_ok_def vm_op_def split: option.splits sum.splits)
  show ?thesis unfolding send_memory_live_def
  proof (rule step_ok_bind [OF step_ok_vm_op [of configured]])
    fix w1 :: "('a, 'b, 'c) world"
    assume c1: "configured w1"
    show "step_ok B (case env_memory_range_table S of
        None \<Rightarrow> Some (Inl SendVm, w1)
      | Some table \<Rightarrow>
          bind_step (send_table S bulk table w1) (\<lambda>w2.
          bind_step (dirty_passes S (take MAX_DIRTY_MIGRATIONS passes) w2) (\<lambda>w3.
          bind_step (vm_pause S w3) (\<lambda>w4.
          case vm_maybe_send_dirty_pages S final w4 of
            None \<Rightarrow> None
          | Some (Inl e, w5) \<Rightarrow> Some (Inl e, w5)
          | Some (Inr _, w5) \<Rightarrow> vm_op (env_stop_dirty_log S False) w5)))) (\<lambda>w'. configured w' \<and> src_paused w')"
    proof (cases "env_memory_range_table S")
      case None
      then show ?thesis using q [OF c1] by (simp add: step_ok_def)
    next
      case (Some table)
      have "step_ok B (send_table S bulk table w1) configured"
        by (rule step_ok_mono [OF send_table_ok]) (use c1 sizes Some sane in \<open>auto simp: sane_pass_def sizes_ok_def\<close>)
      moreover have "step_ok B (dirty_passes S (take MAX_DIRTY_MIGRATIONS passes) w2) configured" if "configured w2" for w2
        using that sane by (intro dirty_passes_ok) (auto dest: in_set_takeD)
      ultimately show ?thesis unfolding Some option.case
        by (intro step_ok_bind [where P = configured] step_ok_bind [where P = "\<lambda>w. configured w \<and> src_paused w"])
          (auto intro: pause_ok final)
    qed
  qed (use c q in auto)
qed

section \<open>One side runs\<close>

lemma until_complete_ok:
  assumes "linked w" and sane: "\<forall>p \<in> set (bulk # final # passes). sane_pass S p"
    and sizes: "sizes_ok S"
    and B_def: "B = (\<not> local \<and> (\<exists>p \<in> set (bulk # final # passes). p_request_fails p))"
  shows "step_ok B (send_until_complete S local bulk passes final w) handed_over"
proof -
  have q: "begun w \<Longrightarrow> \<not> running (dst w)" "configured w \<Longrightarrow> \<not> running (dst w)" for w :: "('a, 'b, 'c) world"
    by (simp_all add: configured_def begun_def linked_def)
  have start: "step_ok B (request_step S [] (request_bytes (request_new Cmd_Start 0)) w) begun"
    by (rule step_ok_mono [OF start_ok [OF assms(1)]]) (rule conjunct1)
  have fds: "step_ok B (if local then send_memory_fds S fs w else Some (Inr (), w)) begun" if "begun w" for w fs
  proof (cases local)
    case True
    have "step_ok B (send_memory_fds S fs w) begun"
      by (rule step_ok_mono [OF memory_fds_ok [OF that]]) (rule conjunct1)
    then show ?thesis using True by simp
  qed (use that in simp)
  have config: "step_ok B (send_config S w) configured" if "begun w" for w
    by (rule step_ok_mono [OF config_ok [OF that sizes]]) (rule conjunct1)
  have memory: "step_ok B (if local then vm_pause S w else send_memory_live S bulk passes final w)
      (\<lambda>w'. configured w' \<and> src_paused w')" if "configured w" for w
  proof (cases local)
    case True
    then show ?thesis using pause_ok [OF that] by simp
  next
    case False
    have "step_ok B (send_memory_live S bulk passes final w) (\<lambda>w'. configured w' \<and> src_paused w')"
      by (rule send_memory_live_ok [OF that _ sizes]) (use sane False in \<open>auto simp: B_def\<close>)
    then show ?thesis using False by simp
  qed
  show ?thesis unfolding send_until_complete_def
    apply (rule step_ok_bind [OF start])
    apply (rule step_ok_bind [OF step_ok_vm_op [of begun]], assumption, erule q)
    apply (rule step_ok_bind [OF fds], assumption)
    apply (rule step_ok_bind [OF config], assumption)
    apply (rule step_ok_bind [OF step_ok_vm_op [of configured]], assumption, erule q)
    apply (rule step_ok_bind [OF memory], assumption)
    apply (rule state_ok [OF conjunct1 conjunct2 sizes], assumption, assumption)
    done
qed

lemma exchange_delivered:
  assumes "connected w" "dst_flow w = Continue" "(case faults w of [] \<Rightarrow> Link_ok | f # _ \<Rightarrow> f) = Link_ok"
    and "receive_loop (env_dest S) True bytes (dst (posted fds w)) = (flow, [response_new s 0], st)"
  shows "exchange S fds bytes w =
    Some (Answer (response_new s 0), (posted fds w)\<lparr>dst := st, dst_flow := flow, connected := (flow = Continue)\<rparr>)"
proof -
  have "dst_flow (posted fds w) = Continue" using assms(2) by (simp add: posted_def)
  then have "deliver S True bytes (posted fds w) = ([response_new s 0], (posted fds w)\<lparr>dst := st, dst_flow := flow\<rparr>)"
    using assms(4) by (simp add: deliver_def)
  then show ?thesis using assms(1,3) by (simp add: exchange_def posted_def [symmetric] Let_def)
qed

lemma exchange_silent:
  assumes "connected w" "dst_flow w = Continue" "(case faults w of [] \<Rightarrow> Link_ok | f # _ \<Rightarrow> f) = Link_ok"
    and "receive_loop (env_dest S) True bytes (dst (posted fds w)) = (Returned e, [], st)"
  shows "exchange S fds bytes w = Some (Unanswered, (posted fds w)\<lparr>dst := st, dst_flow := Returned e, connected := False\<rparr>)"
proof -
  have "dst_flow (posted fds w) = Continue" using assms(2) by (simp add: posted_def)
  then have "deliver S True bytes (posted fds w) = ([], (posted fds w)\<lparr>dst := st, dst_flow := Returned e\<rparr>)"
    using assms(4) by (simp add: deliver_def)
  then show ?thesis using assms(1,3) by (simp add: exchange_def posted_def [symmetric] Let_def)
qed

lemma receive_complete_loop:
  assumes "r_vm st = Some vm" "env_write_response E"
  shows "receive_loop E True (request_bytes (request_new Cmd_Complete 0)) st =
    (if env_resume E then (Returned None, [response_new St_Ok 0], st\<lparr>r_vm := Some (vm\<lparr>vm_running := True\<rparr>)\<rparr>)
     else (Returned (Some VmResumeError), [], st))"
proof -
  have "receive_one E (request_bytes (request_new Cmd_Complete 0)) st =
    (if env_resume E then (Returned None, [response_new St_Ok 0], [], st\<lparr>r_vm := Some (vm\<lparr>vm_running := True\<rparr>)\<rparr>)
     else (Returned (Some VmResumeError), [], [], st))"
    using assms by (simp add: command_simps receive_complete_def)
  then show ?thesis by (simp add: receive_loop.simps [of E True "request_bytes (request_new Cmd_Complete 0)"])
qed

lemma complete_outcome:
  assumes h: "handed_over w" and ok: "env_write_response (env_dest S)"
    and step: "request_step S [] (request_bytes (request_new Cmd_Complete 0)) w = Some (r, w')"
  shows "src_paused w' \<and> (case r of Inl e \<Rightarrow> \<not> running (dst w') \<and> e \<noteq> SendPanics | Inr _ \<Rightarrow> running (dst w'))"
proof -
  let ?bytes = "request_bytes (request_new Cmd_Complete 0)"
  obtain vm where vm: "r_vm (dst (posted [] w)) = Some vm" using h by (auto simp: handed_over_def)
  have w: "connected w" "dst_flow w = Continue" "\<not> running (dst w)" "src_paused (posted [] w)"
    "Response_lost \<notin> set (faults w)" using h by (simp_all add: handed_over_def linked_def posted_def)
  consider "(case faults w of [] \<Rightarrow> Link_ok | f # _ \<Rightarrow> f) = Link_ok"
    | n where "(case faults w of [] \<Rightarrow> Link_ok | f # _ \<Rightarrow> f) = Link_cut n"
    using w(5) by (cases "faults w"; cases "hd (faults w)") auto
  then show ?thesis
  proof cases
    case 1
    show ?thesis
    proof (cases "env_resume (env_dest S)")
      case True
      then show ?thesis
        using step exchange_delivered [OF w(1,2) 1 receive_complete_loop [OF vm ok, unfolded if_P [OF True]]] w(4)
        by (auto simp: request_step_def)
    next
      case False
      then show ?thesis
        using step exchange_silent [OF w(1,2) 1 receive_complete_loop [OF vm ok, unfolded if_not_P [OF False]]] w(3,4)
        by (auto simp: request_step_def)
    qed
  next
    case (2 n)
    have short: "length (take n (butlast ?bytes)) < 16" by simp
    have "receive_loop (env_dest S) False (take n (butlast ?bytes)) st = (Returned (Some SocketError), [], st)" for st
      by (subst receive_loop.simps) (simp add: receive_one_short [OF short])
    then have "snd (deliver S False (take n (butlast ?bytes)) (posted [] w)) =
        (posted [] w)\<lparr>dst_flow := Returned (Some SocketError)\<rparr>"
      using w(2) by (simp add: deliver_def posted_def)
    then show ?thesis using step 2 w(1,3,4)
      by (auto simp: request_step_def exchange_def Let_def posted_def)
  qed
qed

lemma hang_up_idle [simp]: "dst (hang_up S [] w) = dst w"
  by (simp add: hang_up_def deliver_def)

lemma hang_up_src [simp]: "src_paused (hang_up S bytes w) = src_paused w" "src (hang_up S bytes w) = src w"
  by (simp_all add: hang_up_def)

lemma send_migration_outcome:
  assumes "linked w" "\<not> src_paused w" "env_write_response (env_dest S)" "env_complete_migration S"
    and sane: "\<forall>p \<in> set (bulk # final # passes). sane_pass S p"
    and sizes: "sizes_ok S"
    and step: "send_migration S url local bulk passes final w = Some (r, w')"
  shows "case r of Inl e \<Rightarrow> \<not> running (dst w') \<and>
      (e = SendPanics \<longrightarrow> \<not> local \<and> (\<exists>p \<in> set (bulk # final # passes). p_request_fails p))
    | Inr _ \<Rightarrow> running (dst w') \<and> src_paused w'"
proof (cases "socket_url_to_path url = None \<or> \<not> env_connect S")
  case True
  then show ?thesis using step assms(1) by (auto simp: send_migration_def linked_def split: if_splits)
next
  case False
  obtain r1 w1 where u: "send_until_complete S local bulk passes final w = Some (r1, w1)"
    using step False by (auto simp: send_migration_def bind_step_def split: option.splits)
  show ?thesis
  proof (cases r1)
    case (Inl e)
    then show ?thesis using step False u until_complete_ok [OF assms(1) sane sizes refl, of "local"]
      by (auto simp: send_migration_def bind_step_def)
  next
    case (Inr x)
    then have h: "handed_over w1" using until_complete_ok [OF assms(1) sane sizes refl, of "local"] u by simp
    obtain r2 w2 where d: "request_step S [] (request_bytes (request_new Cmd_Complete 0)) w1 = Some (r2, w2)"
      using step False u Inr by (auto simp: send_migration_def bind_step_def split: option.splits)
    show ?thesis using complete_outcome [OF h assms(3) d] step False u Inr d assms(4)
      by (cases r2) (auto simp: send_migration_def bind_step_def vm_op_def)
  qed
qed

text \<open>
  C14. After a migration the guest runs on exactly one side. Wherever the connection breaks
  while a message is on its way, and whichever of the other calls on either side fails, the
  source ends up paused if and only if the destination runs; and a migration reported as
  successful leaves it running there. What is excepted is in the hypotheses: an answer that is
  lost on its way back or that the destination cannot write, \<open>complete_migration\<close> failing after
  the destination has taken over, a dirty log that cannot be stopped and a source that cannot be
  resumed after a failure; messages are shorter than 2^64 bytes. A panic of the source is
  possible in a migration that is not local, when the connection breaks under the write of a
  memory request; then the destination does not run (and the source is left as it was, see
  \<open>panic_stops_guest\<close>).
\<close>

theorem one_side_runs:
  assumes "connected w" "dst_flow w = Continue" "\<not> running (dst w)" "\<not> src_paused w"
    and "Response_lost \<notin> set (faults w)" "env_write_response (env_dest S)"
    and "env_complete_migration S" "env_stop_dirty_log S True" "env_resume_source S"
    and "\<forall>p \<in> set (bulk # final # passes). sane_pass S p"
    and "sizes_ok S"
    and "vm_send_migration S shared has_vm url local bulk passes final w = Some (r, w')"
  shows "(if r = Inl SendPanics
      then \<not> local \<and> (\<exists>p \<in> set (bulk # final # passes). p_request_fails p) \<and> \<not> running (dst w')
      else running (dst w') \<longleftrightarrow> src_paused w') \<and> (r = Inr () \<longrightarrow> running (dst w'))"
proof (cases "(\<not> shared \<and> local) \<or> \<not> has_vm")
  case True
  then show ?thesis using assms(3,4,12) by (auto simp: vm_send_migration_def split: if_splits)
next
  case False
  obtain r1 w1 where sm: "send_migration S url local bulk passes final w = Some (r1, w1)"
    using assms(12) False by (auto simp: vm_send_migration_def split: option.splits)
  have "linked w" using assms(1-5) by (simp add: linked_def)
  note outcome = send_migration_outcome [OF this assms(4,6,7,10,11) sm]
  show ?thesis using outcome assms(8,9,12) False sm
    by (cases r1) (auto simp: vm_send_migration_def migration_failed_def split: if_splits)
qed

definition demo_dest :: "(unit, unit, unit) recv_env" where
  "demo_dest = \<lparr>env_read_volatile_from = \<lambda>a c. Inr c, env_parse_config = \<lambda>_. Some (), env_check_cpuid = \<lambda>_. True,
     env_new_memory = \<lambda>_ _. Some (\<lambda>_. 0), env_parse_snapshot = \<lambda>_. Some (), env_new_vm = \<lambda>_ _. True,
     env_restore = \<lambda>_. True, env_resume = True, env_recv_fd = True, env_write_response = True\<rparr>"

definition demo_source :: "bool \<Rightarrow> (unit, unit, unit) send_env" where
  "demo_source completes = \<lparr>env_dest = demo_dest, env_connect = True, env_common_cpuid = True,
     env_config_bytes = [1, 2], env_memory_slot_fds = [(3, ())], env_start_migration = True,
     env_start_dirty_log = True, env_stop_dirty_log = \<lambda>_. True, env_memory_range_table = None,
     env_mappings = [], env_pause = True, env_snapshot = Some (), env_snapshot_bytes = \<lambda>_. [7],
     env_complete_migration = completes, env_resume_source = True, env_exit_evt = True\<rparr>"

definition demo_world :: "link list \<Rightarrow> (unit, unit, unit) world" where
  "demo_world fs = \<lparr>src = \<lambda>_. 5, src_paused = False, src_exited = False,
     dst = \<lparr>started = False, memory_manager = None, existing_memory_files = None, r_vm = None,
       r_vm_config = None, incoming_fds = []\<rparr>,
     dst_flow = Continue, connected = True, faults = fs\<rparr>"

definition demo_pass :: pass where
  "demo_pass = \<lparr>p_env = demo_env, p_writes = [], p_seen = \<lambda>_. 0, p_request_fails = True\<rparr>"

definition demo_migration :: "bool \<Rightarrow> link list \<Rightarrow> (unit, unit, unit) sent" where
  "demo_migration completes fs = vm_send_migration (demo_source completes) True True ''unix:m'' True
     demo_pass [] demo_pass (demo_world fs)"

definition both_run :: "('c, 's, 'f) sent \<Rightarrow> bool" where
  "both_run m = (case m of None \<Rightarrow> False | Some (r, w) \<Rightarrow> running (dst w) \<and> \<not> src_paused w)"

lemma demo_migration_succeeds: "case demo_migration True [] of Some (Inr _, _) \<Rightarrow> True | _ \<Rightarrow> False"
  by code_simp

lemma demo_hypotheses:
  "sane_pass (demo_source b) demo_pass" "sizes_ok (demo_source b)" "connected (demo_world fs)"
  "dst_flow (demo_world fs) = Continue" "\<not> running (dst (demo_world fs))" "\<not> src_paused (demo_world fs)"
  "faults (demo_world fs) = fs" "env_write_response (env_dest (demo_source b))"
  "env_complete_migration (demo_source True)" "env_stop_dirty_log (demo_source b) True"
  "env_resume_source (demo_source b)"
  by (simp_all add: sane_pass_def demo_source_def demo_pass_def writes_at_most_def demo_env_def sizes_ok_def
      demo_world_def running_def demo_dest_def SIZEOF_MEMORY_RANGE_def)

text \<open>C14, applied to a local migration in which nothing fails.\<close>

theorem one_side_runs_witness:
  "\<exists>w'. demo_migration True [] = Some (Inr (), w') \<and> running (dst w') \<and> src_paused w'"
proof -
  obtain w' where d: "demo_migration True [] = Some (Inr (), w')"
    using demo_migration_succeeds by (auto split: option.splits sum.splits)
  then show ?thesis
    using one_side_runs [OF demo_hypotheses(3-6) _ demo_hypotheses(8-11) _ demo_hypotheses(2) d [unfolded demo_migration_def]]
    by (auto simp: demo_hypotheses)
qed

text \<open>Two of the excepted cases, in which the guest then runs on both sides.\<close>

lemma lost_answer_runs_both: "both_run (demo_migration True [Link_ok, Link_ok, Link_ok, Link_ok, Response_lost])"
  by code_simp

lemma failed_completion_runs_both: "both_run (demo_migration False [])"
  by code_simp

text \<open>A panic while the last dirty pages are announced, when the source is already paused: the
  failure handler is not run, and the guest runs on neither side.\<close>

definition dirty_env :: snap_env where
  "dirty_env = demo_env\<lparr>env_find_region := \<lambda>a. Some (a, 4096, [1]), env_get_dirty_log := \<lambda>_ _ _. Inr [0]\<rparr>"

definition panic_migration :: "(unit, unit, unit) sent" where
  "panic_migration = vm_send_migration ((demo_source True)\<lparr>env_memory_range_table := Some [],
       env_mappings := [\<lparr>grm_slot = 0, grm_gpa = 0, grm_size = 4096\<rparr>]\<rparr>)
     False True ''unix:m'' False demo_pass [] (demo_pass\<lparr>p_env := dirty_env\<rparr>)
     (demo_world [Link_ok, Link_ok, Link_ok, Link_cut 9])"

lemma panic_stops_guest:
  "case panic_migration of Some (Inl e, w) \<Rightarrow> e = SendPanics \<and> src_paused w \<and> \<not> running (dst w) | _ \<Rightarrow> False"
  by code_simp

end
