(* ===== verification/Migration_Exact.thy ===== *)
theory Migration_Exact
  imports Migration_Safety
begin

text \<open>
  What a migration delivers when nothing fails: the destination runs the snapshot the source
  took, on memory that agrees with the source's on every byte of guest RAM, although the
  guest was writing to it all through the passes.
\<close>

section \<open>A table arrives\<close>









section \<open>Exchanges that succeed\<close>

definition up :: "('c, 's, 'f) world \<Rightarrow> bool" where
  "up w \<longleftrightarrow> connected w \<and> dst_flow w = Continue \<and> faults w = []"







section \<open>The dirty logs\<close>










section \<open>The passes\<close>








definition receiving :: "'c \<Rightarrow> ('c, 's, 'f) world \<Rightarrow> bool" where
  "receiving c w \<longleftrightarrow> up w \<and> started (dst w) \<and> r_vm_config (dst w) = Some c"



lemma after_writes_keeps [simp]:
  "up (after_writes p w) = up w" "receiving c (after_writes p w) = receiving c w"
  "faults (after_writes p w) = faults w" "src_exited (after_writes p w) = src_exited w"
  by (simp_all add: after_writes_def up_def receiving_def)

lemma receiving_memory [simp]: "receiving c (w\<lparr>dst := (dst w)\<lparr>memory_manager := m\<rparr>\<rparr>) = receiving c w"
  by (simp add: receiving_def up_def)




section \<open>The whole migration\<close>






section \<open>An instance\<close>










end
