(* ===== verification/BTree.thy ===== *)
theory BTree
  imports Prelude
begin

text \<open>
  The standard library's \<^verbatim>\<open>BTreeMap\<close>: an association list in ascending order of keys, which is
  also the order of iteration. The contract of an ordered map is a locale; the clients'
  facts about sequences of insertions are proved in it.
\<close>

type_synonym ('k, 'v) btree = "('k \<times> 'v) list"

fun bt_insert :: "'k::linorder \<Rightarrow> 'v \<Rightarrow> ('k, 'v) btree \<Rightarrow> ('k, 'v) btree" where
  "bt_insert k v [] = [(k, v)]"
| "bt_insert k v ((k', v') # m) = (if k < k' then (k, v) # (k', v') # m
     else if k = k' then (k, v) # m else (k', v') # bt_insert k v m)"

fun bt_remove :: "'k \<Rightarrow> ('k, 'v) btree \<Rightarrow> ('k, 'v) btree" where
  "bt_remove k [] = []"
| "bt_remove k ((k', v') # m) = (if k = k' then m else (k', v') # bt_remove k m)"

definition bt_ok :: "('k::linorder, 'v) btree \<Rightarrow> bool" where
  "bt_ok m \<longleftrightarrow> sorted_wrt (<) (map fst m)"

section \<open>The contract of an ordered map\<close>

locale ordered_map =
  fixes ins :: "'k \<Rightarrow> 'v \<Rightarrow> 'm \<Rightarrow> 'm" and rem :: "'k \<Rightarrow> 'm \<Rightarrow> 'm" and get :: "'m \<Rightarrow> 'k \<Rightarrow> 'v option"
    and ok :: "'m \<Rightarrow> bool"
  assumes get_ins: "ok m \<Longrightarrow> get (ins k v m) = (get m)(k \<mapsto> v)"
    and get_rem: "ok m \<Longrightarrow> get (rem k m) = (get m)(k := None)"
    and ok_ins: "ok m \<Longrightarrow> ok (ins k v m)"
    and ok_rem: "ok m \<Longrightarrow> ok (rem k m)"
begin

lemma ok_fold_ins: "ok m \<Longrightarrow> ok (fold (\<lambda>(k, v). ins k v) kvs m)"
  by (induction kvs arbitrary: m) (auto simp: ok_ins)

lemma get_fold_ins: "ok m \<Longrightarrow> get (fold (\<lambda>(k, v). ins k v) kvs m) = get m ++ map_of (rev kvs)"
proof (induction kvs arbitrary: m)
  case (Cons kv kvs)
  obtain k v where "kv = (k, v)" by (cases kv)
  then show ?case using Cons by (auto simp: ok_ins get_ins map_add_def split: option.splits intro!: ext)
qed simp

lemma rem_ins: "\<lbrakk>ok m; get m k = None\<rbrakk> \<Longrightarrow> get (rem k (ins k v m)) = get m"
  by (auto simp: get_rem get_ins ok_ins)

end

lemma set_bt_insert: "fst ` set (bt_insert k v m) = insert k (fst ` set m)"
  by (induction k v m rule: bt_insert.induct) (simp_all add: insert_commute)

lemma bt_ok_Nil [simp]: "bt_ok []"
  by (simp add: bt_ok_def)

lemma bt_ok_Cons: "bt_ok ((k, v) # m) \<longleftrightarrow> (\<forall>k' \<in> fst ` set m. k < k') \<and> bt_ok m"
  by (simp add: bt_ok_def)

lemma bt_ok_insert: "bt_ok m \<Longrightarrow> bt_ok (bt_insert k v m)"
proof (induction k v m rule: bt_insert.induct)
  case (2 k v k' v' m)
  then show ?case by (cases k k' rule: linorder_cases) (auto simp: bt_ok_Cons set_bt_insert)
qed (simp add: bt_ok_Cons)

lemma set_bt_remove: "set (bt_remove k m) \<subseteq> set m"
  by (induction k m rule: bt_remove.induct) auto

lemma bt_ok_remove: "bt_ok m \<Longrightarrow> bt_ok (bt_remove k m)"
  using set_bt_remove by (induction m) (fastforce simp: bt_ok_Cons)+

lemma map_of_bt_insert: "bt_ok m \<Longrightarrow> map_of (bt_insert k v m) = (map_of m)(k \<mapsto> v)"
  by (induction m) (fastforce simp: bt_ok_Cons)+

lemma map_of_bt_remove: "bt_ok m \<Longrightarrow> map_of (bt_remove k m) = (map_of m)(k := None)"
proof (induction m)
  case (Cons kv m)
  obtain k' v where kv: "kv = (k', v)" by (cases kv)
  have "k' \<notin> dom (map_of m)" using Cons.prems kv by (auto simp: bt_ok_Cons dom_map_of_conv_image_fst)
  then have "map_of m k' = None" by blast
  then show ?case using Cons kv by (auto simp: bt_ok_Cons)
qed simp

interpretation btree: ordered_map bt_insert bt_remove map_of bt_ok
  by unfold_locales (simp_all add: map_of_bt_insert map_of_bt_remove bt_ok_insert bt_ok_remove)

lemma distinct_bt: "bt_ok m \<Longrightarrow> distinct (map fst m)"
  by (induction m) (fastforce simp: bt_ok_Cons)+

text \<open>Where an insertion or a removal takes place.\<close>

lemma bt_insert_middle:
  "\<lbrakk>\<forall>k' \<in> fst ` set pre. k' < k; \<forall>k' \<in> fst ` set post. k < k'\<rbrakk> \<Longrightarrow> bt_insert k v (pre @ post) = pre @ (k, v) # post"
proof (induction pre)
  case Nil
  then show ?case by (cases post) auto
qed auto

lemma bt_remove_middle:
  "k \<notin> fst ` set pre \<Longrightarrow> bt_remove k (pre @ (k, v) # post) = pre @ post"
  by (induction pre) auto

lemma bt_insert_snoc: "x < M \<Longrightarrow> bt_insert x v (rs @ [(M, w)]) = bt_insert x v rs @ [(M, w)]"
  by (induction x v rs rule: bt_insert.induct) auto

lemma set_bt_insert_new: "x \<notin> fst ` set rs \<Longrightarrow> set (bt_insert x v rs) = insert (x, v) (set rs)"
  by (induction x v rs rule: bt_insert.induct) auto

lemma bt_remove_snoc: "x \<in> fst ` set rs \<Longrightarrow> bt_remove x (rs @ [(M, w)]) = bt_remove x rs @ [(M, w)]"
  by (induction x rs rule: bt_remove.induct) force+

lemma set_bt_insert_subset: "set (bt_insert k v m) \<subseteq> insert (k, v) (set m)"
  by (induction k v m rule: bt_insert.induct) auto

text \<open>Both commute with a change of the values.\<close>

lemma map_bt_insert: "map (apsnd f) (bt_insert k v m) = bt_insert k (f v) (map (apsnd f) m)"
  by (induction k v m rule: bt_insert.induct) auto

lemma map_bt_remove: "map (apsnd f) (bt_remove k m) = bt_remove k (map (apsnd f) m)"
  by (induction k m rule: bt_remove.induct) auto

end
