(* ===== verification/Address_Ranges.thy ===== *)
theory Address_Ranges
  imports BTree
begin

text \<open>
  Lists of address ranges (start and size) as the address allocator and the device bus keep them
  in their ordered maps: in ascending order, of positive size, without overlap.
\<close>

text \<open>Ranges of positive size in ascending order between two addresses, without overlap.\<close>

fun laid_out :: "nat \<Rightarrow> (u64 \<times> u64) list \<Rightarrow> nat \<Rightarrow> bool" where
  "laid_out lo [] hi \<longleftrightarrow> lo \<le> hi"
| "laid_out lo ((a, n) # rs) hi \<longleftrightarrow> lo \<le> unat a \<and> 0 < n \<and> laid_out (unat a + unat n) rs hi"

definition clear_of :: "nat \<Rightarrow> nat \<Rightarrow> u64 \<times> u64 \<Rightarrow> bool" where
  "clear_of x n r \<longleftrightarrow> x + n \<le> unat (fst r) \<or> unat (fst r) + unat (snd r) \<le> x"

text \<open>A place for \<open>n\<close> bytes at \<open>x\<close> between \<open>lo\<close> and \<open>hi\<close>.\<close>

definition room :: "nat \<Rightarrow> (u64 \<times> u64) list \<Rightarrow> nat \<Rightarrow> nat \<Rightarrow> nat \<Rightarrow> bool" where
  "room lo rs hi x n \<longleftrightarrow> lo \<le> x \<and> x + n \<le> hi \<and> list_all (clear_of x n) rs"

lemma laid_out_le: "laid_out lo rs hi \<Longrightarrow> lo \<le> hi"
  by (induction lo rs hi rule: laid_out.induct) auto

lemma laid_out_bounds:
  "\<lbrakk>laid_out lo rs hi; (a, n) \<in> set rs\<rbrakk> \<Longrightarrow> lo \<le> unat a \<and> 0 < n \<and> unat a + unat n \<le> hi"
  by (induction lo rs hi rule: laid_out.induct) (auto dest: laid_out_le)

lemma laid_out_snoc:
  "laid_out lo (rs @ [(a, n)]) hi \<longleftrightarrow> laid_out lo rs (unat a) \<and> 0 < n \<and> unat a + unat n \<le> hi"
  by (induction rs arbitrary: lo) auto

lemma laid_out_insert:
  "\<lbrakk>laid_out lo rs hi; room lo rs hi (unat x) (unat n); 0 < n\<rbrakk> \<Longrightarrow> laid_out lo (bt_insert x n rs) hi"
proof (induction lo rs hi rule: laid_out.induct)
  case (2 lo a m rs hi)
  have n0: "0 < unat n" "0 < unat m" using 2 by (simp_all add: word_less_nat_alt)
  show ?case
  proof (cases "x < a")
    case True
    then have "unat x + unat n \<le> unat a" using 2 n0 by (auto simp: room_def clear_of_def word_less_nat_alt)
    then show ?thesis using 2 True by (simp add: room_def)
  next
    case False
    then have le: "unat a + unat m \<le> unat x" using 2 n0 by (auto simp: room_def clear_of_def word_less_nat_alt)
    moreover have "x \<noteq> a" using le n0 by auto
    ultimately show ?thesis using 2 False by (simp add: room_def)
  qed
qed (simp add: room_def)

lemma laid_out_remove: "laid_out lo rs hi \<Longrightarrow> laid_out lo (bt_remove x rs) hi"
proof (induction lo rs hi rule: laid_out.induct)
  case (2 lo a m rs hi)
  have "laid_out lo rs hi" using 2 by (cases rs) auto
  then show ?case using 2 by auto
qed simp

lemma set_laid_out_remove:
  "laid_out lo rs hi \<Longrightarrow> set (bt_remove x rs) = {r \<in> set rs. fst r \<noteq> x}"
proof (induction lo rs hi rule: laid_out.induct)
  case (2 lo a m rs hi)
  have "b \<noteq> a" if "(b, k) \<in> set rs" for b k
    using laid_out_bounds [of "unat a + unat m" rs hi b k] 2 that by (auto simp: word_less_nat_alt)
  then have "(x, k) \<notin> set rs" if "a = x" for k using that by blast
  then show ?case using 2 by auto
qed simp

lemma laid_out_distinct: "laid_out lo rs hi \<Longrightarrow> distinct (map fst rs)"
proof (induction lo rs hi rule: laid_out.induct)
  case (2 lo a m rs hi)
  have "b \<noteq> a" if "(b, k) \<in> set rs" for b k
    using laid_out_bounds [of "unat a + unat m" rs hi b k] 2 that by (auto simp: word_less_nat_alt)
  then show ?case using 2 by force
qed simp

lemma laid_out_pairwise:
  "\<lbrakk>laid_out lo rs hi; (a, n) \<in> set rs; r \<in> set rs; r \<noteq> (a, n)\<rbrakk> \<Longrightarrow> clear_of (unat a) (unat n) r"
proof (induction lo rs hi rule: laid_out.induct)
  case (2 lo b m rs hi)
  have "unat b + unat m \<le> unat c" if "(c, k) \<in> set rs" for c k
    using laid_out_bounds [of "unat b + unat m" rs hi c k] 2 that by simp
  then show ?case using 2 by (cases r) (auto simp: clear_of_def)
qed simp

end
