(* ===== verification/Address_Allocator.thy ===== *)
theory Address_Allocator
  imports Runs Address_Ranges
begin

text \<open>
  The allocator of guest address ranges (\<^verbatim>\<open>hypervisor/vm-allocator/src/address.rs\<close>): a tree of
  ranges by start address with a zero-size marker after the last address. Proved to hand out
  disjoint, aligned ranges, and to be complete: it finds the highest place that fits.
\<close>

section \<open>The allocator\<close>

record AddressAllocator =
  aa_base :: u64
  aa_end :: u64
  ranges :: "(u64, u64) btree"

datatype AllocError = AaOverflow | AaOverlap | AaUnalignedAddress

definition aa_new :: "u64 \<Rightarrow> u64 \<Rightarrow> AddressAllocator option" where
  "aa_new base sz = (if sz = 0 then None
     else case checked_add base (sz - 1) of
       None \<Rightarrow> None
     | Some end_address \<Rightarrow> (case checked_add base sz of
         None \<Rightarrow> None
       | Some marker \<Rightarrow> Some \<lparr>aa_base = base, aa_end = end_address, ranges = bt_insert marker 0 []\<rparr>))"

definition align_address :: "u64 \<Rightarrow> u64 \<Rightarrow> u64" where
  "align_address address alignment =
    (let align_adjust = (if address mod alignment \<noteq> 0 then alignment - address mod alignment else 0)
     in address + align_adjust)"

fun available_loop :: "u64 \<Rightarrow> u64 \<Rightarrow> u64 \<Rightarrow> (u64 \<times> u64) list \<Rightarrow> AllocError + u64" where
  "available_loop aligned_address req_size prev_end [] = Inl AaOverflow"
| "available_loop aligned_address req_size prev_end ((address, sz) # rs) =
    (if aligned_address \<le> address then
       (if prev_end > aligned_address then Inl AaOverlap
        else if address - aligned_address < req_size then Inl AaOverlap
        else Inr aligned_address)
     else available_loop aligned_address req_size (address + sz) rs)"

definition available_range :: "AddressAllocator \<Rightarrow> u64 \<Rightarrow> u64 \<Rightarrow> u64 \<Rightarrow> AllocError + u64" where
  "available_range A req_address req_size alignment =
    (let aligned_address = align_address req_address alignment
     in if aligned_address \<noteq> req_address then Inl AaUnalignedAddress
        else if aligned_address \<ge> aa_end A \<or> aligned_address < aa_base A then Inl AaOverflow
        else available_loop aligned_address req_size (aa_base A) (ranges A))"

text \<open>The loop over the ranges in descending order; the range before the current one is the next
  in the list.\<close>

fun prev_end_of :: "u64 \<Rightarrow> (u64 \<times> u64) list \<Rightarrow> u64" where
  "prev_end_of base [] = base"
| "prev_end_of base ((address, sz) # _) = address + sz"

fun first_loop :: "u64 \<Rightarrow> u64 \<Rightarrow> u64 \<Rightarrow> (u64 \<times> u64) list \<Rightarrow> u64 option" where
  "first_loop base req_size alignment [] = None"
| "first_loop base req_size alignment ((address, sz) # rs) =
    (case checked_sub address (align_address (prev_end_of base rs) alignment) of
       None \<Rightarrow> first_loop base req_size alignment rs
     | Some size_delta \<Rightarrow>
         (let adjust = (if alignment > 1 then alignment - 1 else 0)
          in if size_delta \<ge> req_size
             then Some (align_address (address - (req_size + adjust)) alignment)
             else first_loop base req_size alignment rs))"

definition first_available_range :: "AddressAllocator \<Rightarrow> u64 \<Rightarrow> u64 \<Rightarrow> u64 option" where
  "first_available_range A req_size alignment =
     first_loop (aa_base A) req_size alignment (rev (ranges A))"

definition aa_allocate :: "AddressAllocator \<Rightarrow> u64 option \<Rightarrow> u64 \<Rightarrow> u64 option
    \<Rightarrow> u64 option \<times> AddressAllocator" where
  "aa_allocate A address sz align_size =
    (if sz = 0 then (None, A)
     else let alignment = (case align_size of None \<Rightarrow> 4 | Some a \<Rightarrow> a)
          in if \<not> is_power_of_two alignment \<or> alignment = 0 then (None, A)
             else case (case address of
                 Some req_address \<Rightarrow> (case available_range A req_address sz alignment of
                     Inr addr \<Rightarrow> Some addr | Inl _ \<Rightarrow> None)
               | None \<Rightarrow> first_available_range A sz alignment) of
               None \<Rightarrow> (None, A)
             | Some new_addr \<Rightarrow> (Some new_addr, A\<lparr>ranges := bt_insert new_addr sz (ranges A)\<rparr>))"

definition aa_free :: "AddressAllocator \<Rightarrow> u64 \<Rightarrow> u64 \<Rightarrow> AddressAllocator" where
  "aa_free A address sz = (case map_of (ranges A) address of
       Some range_size \<Rightarrow> if sz = range_size then A\<lparr>ranges := bt_remove address (ranges A)\<rparr> else A
     | None \<Rightarrow> A)"

section \<open>Alignment\<close>

lemma align_address_dvd:
  assumes "is_power_of_two al" "unat a + unat al \<le> 2 ^ 64"
  shows "unat al dvd unat (align_address a al)" "unat a \<le> unat (align_address a al)"
    "\<And>x. \<lbrakk>unat al dvd x; unat a \<le> x\<rbrakk> \<Longrightarrow> unat (align_address a al) \<le> x"
proof -
  let ?p = "unat al" and ?a = "unat a"
  have p: "0 < ?p" using assms(1) by (simp add: is_power_of_two_def unat_gt_0)
  define u where "u = (if ?a mod ?p = 0 then ?a else ?a + (?p - ?a mod ?p))"
  have m: "?a mod ?p < ?p" using p by simp
  have u: "unat (align_address a al) = u"
  proof (cases "a mod al = 0")
    case True
    then have "?a mod ?p = 0" by (metis unat_mod unsigned_0)
    then show ?thesis using True by (simp add: align_address_def u_def)
  next
    case False
    then have nz: "?a mod ?p \<noteq> 0" by (metis unat_mod unsigned_eq_0_iff)
    have sub: "unat (al - a mod al) = ?p - ?a mod ?p"
      using m by (simp add: unat_sub word_le_nat_alt unat_mod)
    have "unat (a + (al - a mod al)) = ?a + (?p - ?a mod ?p)"
      using unat_add_no_wrap [of a "al - a mod al"] sub nz m assms(2) by simp
    then show ?thesis using False nz by (simp add: align_address_def u_def)
  qed
  have dvd: "?p dvd u"
  proof (cases "?a mod ?p = 0")
    case False
    have "?a = ?a div ?p * ?p + ?a mod ?p" by simp
    then have "u = ?a div ?p * ?p + ?p" using m unfolding u_def if_not_P [OF False] by linarith
    then show ?thesis by simp
  qed (auto simp: u_def)
  have ge: "?a \<le> u" "u < ?a + ?p" using p m by (auto simp: u_def)
  show "unat al dvd unat (align_address a al)" "unat a \<le> unat (align_address a al)" using u dvd ge by simp_all
  fix x assume x: "?p dvd x" "?a \<le> x"
  show "unat (align_address a al) \<le> x"
  proof (rule ccontr)
    assume "\<not> unat (align_address a al) \<le> x"
    then have "x < u" "u - x < ?p" using u x(2) ge by simp_all
    moreover have "?p dvd u - x" using dvd x(1) by (rule dvd_diff_nat)
    ultimately show False using dvd_imp_le [of ?p "u - x"] by simp
  qed
qed

text \<open>Rounding down is rounding up from \<open>alignment - 1\<close> below, wrap-around included.\<close>

lemma align_address_down:
  assumes "is_power_of_two al"
  shows "unat (align_address (z - (al - 1)) al) = unat z - unat z mod unat al"
proof -
  obtain k where k: "k < 64" "unat al = 2 ^ k" using power_of_two_unat [OF assms] by blast
  let ?p = "unat al"
  define y r where "y = z - (al - 1)" and "r = unat z mod ?p"
  have p: "0 < ?p" "?p dvd 2 ^ 64"
    unfolding k(2) using k(1) by (simp, intro le_imp_power_dvd) simp
  have r: "r < ?p" "r \<le> unat z" using p by (simp_all add: r_def)
  have "r < 18446744073709551616" using r(2) unat_u64_less [of z] by linarith
  then have ur: "unat (of_nat r :: u64) = r" by (simp add: unat_of_nat)
  have al1: "unat (al - 1) = ?p - 1" using p(1) by (simp add: unat_sub word_le_nat_alt Suc_le_eq)
  have "y + (al - 1) = z" by (simp add: y_def)
  then have "(unat y + (?p - 1)) mod 2 ^ 64 = unat z"
    using unat_word_ariths(1) [of y "al - 1"] al1 by simp
  then have "(unat y + (?p - 1)) mod ?p = r" unfolding r_def using mod_mod_cancel [OF p(2)] by metis
  then have "((unat y + (?p - 1)) + 1) mod ?p = (r + 1) mod ?p" by (metis mod_add_left_eq)
  moreover have "(unat y + (?p - 1)) + 1 = unat y + ?p" using p(1) by simp
  ultimately have m: "unat y mod ?p = (r + 1) mod ?p" by simp
  have "align_address y al = z - of_nat r"
  proof (cases "r + 1 = ?p")
    case True
    then have "unat (y mod al) = 0" using m by (simp add: unat_mod)
    then have "y mod al = 0" by (simp only: unsigned_eq_0_iff)
    moreover have "of_nat r = al - 1"
    proof -
      have "r = unat (al - 1)" using True al1 by simp
      then show ?thesis by simp
    qed
    ultimately show ?thesis by (simp add: align_address_def y_def)
  next
    case False
    then have m': "unat (y mod al) = r + 1" using m r(1) by (simp add: unat_mod)
    then have "of_nat (unat (y mod al)) = (of_nat (r + 1) :: u64)" by (rule arg_cong)
    then have "y mod al = of_nat (r + 1)" by simp
    moreover have "y mod al \<noteq> 0"
    proof
      assume zero: "y mod al = 0"
      show False using m' unfolding zero by simp
    qed
    ultimately show ?thesis by (simp add: align_address_def y_def)
  qed
  then show ?thesis using r(2) ur unfolding y_def [symmetric] r_def [symmetric]
    by (simp add: unat_sub word_le_nat_alt)
qed

section \<open>The searches\<close>

lemma available_loop_iff:
  assumes "0 < n"
  shows "\<lbrakk>laid_out lo rs (unat M); unat pe = lo; x < M\<rbrakk> \<Longrightarrow>
    (case available_loop x n pe (rs @ [(M, 0)]) of Inl _ \<Rightarrow> \<not> room lo rs (unat M) (unat x) (unat n)
     | Inr y \<Rightarrow> y = x \<and> room lo rs (unat M) (unat x) (unat n))"
proof (induction rs arbitrary: lo pe)
  case Nil
  then show ?case by (auto simp: room_def word_less_nat_alt word_le_nat_alt unat_sub)
next
  case (Cons r rs)
  obtain a m where r: "r = (a, m)" by (cases r)
  have n0: "0 < unat n" "0 < m" "0 < unat m" and out: "laid_out (unat a + unat m) rs (unat M)" and lo: "lo \<le> unat a"
    using Cons.prems r assms by (simp_all add: word_less_nat_alt)
  have am: "unat a + unat m \<le> unat M" by (rule laid_out_le [OF out])
  then have "unat a + unat m < 2 ^ 64" by (rule le_less_trans) simp
  then have uam: "unat (a + m) = unat a + unat m" by (simp add: unat_add_no_wrap)
  show ?case
  proof (cases "x \<le> a")
    case True
    then have xa: "unat x \<le> unat a" by (simp add: word_le_nat_alt)
    have "list_all (clear_of (unat x) (unat n)) rs" if "unat x + unat n \<le> unat a"
      unfolding list_all_iff clear_of_def using laid_out_bounds [OF out] that by fastforce
    then have "room lo (r # rs) (unat M) (unat x) (unat n) \<longleftrightarrow> lo \<le> unat x \<and> unat x + unat n \<le> unat a"
      using xa n0 am by (auto simp: room_def clear_of_def r)
    moreover have "a - x < n \<longleftrightarrow> \<not> unat x + unat n \<le> unat a"
      using xa by (auto simp: word_less_nat_alt unat_sub word_le_nat_alt)
    moreover have "pe > x \<longleftrightarrow> \<not> lo \<le> unat x" using Cons.prems(2) by (auto simp: word_less_nat_alt)
    ultimately show ?thesis using True r by simp
  next
    case False
    then have ax: "unat a < unat x" by (simp add: word_le_nat_alt)
    then have "room lo (r # rs) (unat M) (unat x) (unat n) \<longleftrightarrow>
        room (unat a + unat m) rs (unat M) (unat x) (unat n)"
      using lo n0 by (auto simp: room_def clear_of_def r)
    then show ?thesis using Cons.IH [OF out uam Cons.prems(3)] False r by (simp split: sum.splits)
  qed
qed

text \<open>A gap between \<open>pe\<close> and \<open>a\<close>: the condition of the search, and the address it takes.\<close>

lemma gap:
  assumes al: "is_power_of_two al" "unat a \<le> 2 ^ 63" and pe: "unat pe \<le> unat a" and n: "0 < n"
  shows "(case checked_sub a (align_address pe al) of None \<Rightarrow> False | Some d \<Rightarrow> d \<ge> n) \<longleftrightarrow>
      (\<exists>x. unat al dvd x \<and> unat pe \<le> x \<and> x + unat n \<le> unat a)"
    and "\<lbrakk>unat al dvd x; unat pe \<le> x; x + unat n \<le> unat a\<rbrakk> \<Longrightarrow>
      (let r = unat (align_address (a - (n + (if al > 1 then al - 1 else 0))) al)
       in unat al dvd r \<and> x \<le> r \<and> r + unat n \<le> unat a)"
proof -
  obtain k where k: "k < 64" "unat al = 2 ^ k" using power_of_two_unat [OF al(1)] by blast
  have "unat al \<le> 2 ^ 63" unfolding k(2) using k(1) by (intro power_increasing) simp_all
  then have up: "unat pe + unat al \<le> 2 ^ 64" using al(2) pe by simp
  note u = align_address_dvd [OF al(1) up]
  have "(case checked_sub a (align_address pe al) of None \<Rightarrow> False | Some d \<Rightarrow> d \<ge> n) \<longleftrightarrow>
      unat (align_address pe al) + unat n \<le> unat a"
    by (auto simp: checked_sub_def word_le_nat_alt unat_sub)
  also have "\<dots> \<longleftrightarrow> (\<exists>x. unat al dvd x \<and> unat pe \<le> x \<and> x + unat n \<le> unat a)"
    using u by (meson add_le_mono1 order_trans)
  finally show "(case checked_sub a (align_address pe al) of None \<Rightarrow> False | Some d \<Rightarrow> d \<ge> n) \<longleftrightarrow>
      (\<exists>x. unat al dvd x \<and> unat pe \<le> x \<and> x + unat n \<le> unat a)" .
  assume x: "unat al dvd x" "unat pe \<le> x" "x + unat n \<le> unat a"
  let ?z = "a - n"
  have z: "unat ?z = unat a - unat n" using x(3) by (simp add: unat_sub word_le_nat_alt)
  have "(if al > 1 then al - 1 else 0) = al - 1"
  proof (cases "al > 1")
    case False
    moreover have "0 < unat al" using k(2) by simp
    ultimately have "unat al = unat (1 :: u64)" by (simp add: word_less_nat_alt)
    then have "al = 1" by (rule unsigned_word_eqI)
    then show ?thesis by simp
  qed simp
  then have down: "unat (align_address (a - (n + (if al > 1 then al - 1 else 0))) al) = unat ?z - unat ?z mod unat al"
    using align_address_down [OF al(1), of ?z] by (simp add: diff_diff_eq)
  have "unat al dvd unat ?z - unat ?z mod unat al" by (simp add: dvd_minus_mod)
  moreover have "x \<le> unat ?z - unat ?z mod unat al"
  proof -
    have "x \<le> unat ?z" using x(3) z by simp
    then have "x div unat al \<le> unat ?z div unat al" by (rule div_le_mono)
    then have "x div unat al * unat al \<le> unat ?z div unat al * unat al" by (rule mult_le_mono1)
    then show ?thesis using x(1) by (simp add: minus_mod_eq_div_mult)
  qed
  moreover have "unat ?z - unat ?z mod unat al + unat n \<le> unat a" using z x(3) by simp
  ultimately show "let r = unat (align_address (a - (n + (if al > 1 then al - 1 else 0))) al)
       in unat al dvd r \<and> x \<le> r \<and> r + unat n \<le> unat a"
    unfolding down Let_def by blast
qed

text \<open>One step of the search: a gap that can take the request gives its highest place.\<close>

lemma first_loop_gap:
  assumes al: "is_power_of_two al" "unat a \<le> 2 ^ 63" and pe: "unat (prev_end_of base rest) \<le> unat a" and n: "0 < n"
  obtains (fits) r where "first_loop base n al ((a, m) # rest) = Some r" "unat al dvd unat r"
      "unat (prev_end_of base rest) \<le> unat r" "unat r + unat n \<le> unat a"
      "\<And>x. \<lbrakk>unat al dvd x; x + unat n \<le> unat a\<rbrakk> \<Longrightarrow> x \<le> unat r"
    | (full) "first_loop base n al ((a, m) # rest) = first_loop base n al rest"
      "\<And>x. \<lbrakk>unat al dvd x; unat (prev_end_of base rest) \<le> x; x + unat n \<le> unat a\<rbrakk> \<Longrightarrow> False"
proof -
  let ?pe = "unat (prev_end_of base rest)" and ?R = "align_address (a - (n + (if al > 1 then al - 1 else 0))) al"
  have step: "first_loop base n al ((a, m) # rest) =
    (if (case checked_sub a (align_address (prev_end_of base rest) al) of None \<Rightarrow> False | Some d \<Rightarrow> d \<ge> n)
     then Some ?R else first_loop base n al rest)"
    by (simp add: Let_def split: option.splits)
  note g = gap [OF al pe n]
  show thesis
  proof (cases "\<exists>x. unat al dvd x \<and> ?pe \<le> x \<and> x + unat n \<le> unat a")
    case True
    then obtain x0 where x0: "unat al dvd x0" "?pe \<le> x0" "x0 + unat n \<le> unat a" by blast
    have R: "unat al dvd unat ?R" "?pe \<le> unat ?R" "unat ?R + unat n \<le> unat a"
      using g(2) [OF x0] x0(2) by (simp_all add: Let_def)
    have "x \<le> unat ?R" if x: "unat al dvd x" "x + unat n \<le> unat a" for x
    proof (cases "?pe \<le> x")
      case True
      then show ?thesis using g(2) [OF x(1) _ x(2)] by (simp add: Let_def)
    next
      case False
      then show ?thesis using R(2) by linarith
    qed
    moreover have "first_loop base n al ((a, m) # rest) = Some ?R" unfolding step g(1) if_P [OF True] ..
    ultimately show thesis using R fits by blast
  next
    case False
    then have "first_loop base n al ((a, m) # rest) = first_loop base n al rest"
      unfolding step g(1) if_not_P [OF False] by simp
    with False show thesis using full by blast
  qed
qed

lemma room_snoc:
  assumes "laid_out lo rs (unat b)" "unat b + unat k \<le> hi" "0 < k" "0 < n"
  shows "room lo (rs @ [(b, k)]) hi x n \<longleftrightarrow> (unat b + unat k \<le> x \<and> x + n \<le> hi) \<or> room lo rs (unat b) x n"
proof -
  have lower: "list_all (clear_of x n) rs" if "unat b + unat k \<le> x"
    unfolding list_all_iff clear_of_def using laid_out_bounds [OF assms(1)] that by fastforce
  have "lo \<le> unat b" by (rule laid_out_le [OF assms(1)])
  then show ?thesis using assms(2,3,4) lower by (auto simp: room_def clear_of_def word_less_nat_alt)
qed

definition best_place :: "nat \<Rightarrow> nat \<Rightarrow> (u64 \<times> u64) list \<Rightarrow> nat \<Rightarrow> nat \<Rightarrow> u64 option \<Rightarrow> bool" where
  "best_place al lo rs hi n res \<longleftrightarrow> (case res of
     None \<Rightarrow> \<forall>x. al dvd x \<longrightarrow> \<not> room lo rs hi x n
   | Some r \<Rightarrow> al dvd unat r \<and> room lo rs hi (unat r) n \<and> (\<forall>x. al dvd x \<longrightarrow> room lo rs hi x n \<longrightarrow> x \<le> unat r))"

lemma first_loop_highest:
  assumes al: "is_power_of_two al" and n: "0 < n"
  shows "\<lbrakk>laid_out (unat base) (rev rest) (unat a); unat a \<le> 2 ^ 63\<rbrakk> \<Longrightarrow>
    best_place (unat al) (unat base) (rev rest) (unat a) (unat n) (first_loop base n al ((a, m) # rest))"
proof (induction rest arbitrary: a m)
  case Nil
  have "unat (prev_end_of base []) \<le> unat a" using Nil(1) by simp
  note pe = this
  show ?case using al Nil(2) pe n
  proof (cases rule: first_loop_gap [where m = m])
    case (fits r)
    then show ?thesis by (simp add: best_place_def room_def)
  next
    case full
    then show ?thesis by (auto simp: best_place_def room_def)
  qed
next
  case (Cons r rest)
  obtain b k where r: "r = (b, k)" by (cases r)
  have out: "laid_out (unat base) (rev rest) (unat b)" "0 < k" "unat b + unat k \<le> unat a"
    using Cons.prems(1) r by (simp_all add: laid_out_snoc)
  have b: "unat b \<le> 2 ^ 63" using out(3) Cons.prems(2) by simp
  have "unat b + unat k < 2 ^ 64" using out(3) by (rule le_less_trans) simp
  then have pe: "unat (prev_end_of base ((b, k) # rest)) = unat b + unat k" by (simp add: unat_add_no_wrap)
  have n': "0 < unat n" using n by (simp add: word_less_nat_alt)
  note room = room_snoc [OF out(1,3,2) n']
  have below: "x + unat n \<le> unat a" if "room (unat base) (rev rest) (unat b) x (unat n)" for x
    using that out(3) by (simp add: room_def)
  show ?case
    using al Cons.prems(2) out(3) [folded pe] n
  proof (cases rule: first_loop_gap [where m = m])
    case (fits R)
    then show ?thesis unfolding r rev.simps best_place_def fits(1) option.case room pe using below by blast
  next
    case full
    have "best_place (unat al) (unat base) (rev rest) (unat b) (unat n) (first_loop base n al ((b, k) # rest))"
      by (rule Cons.IH [OF out(1) b])
    then show ?thesis using full(2) unfolding r rev.simps best_place_def full(1) room pe
      by (cases "first_loop base n al ((b, k) # rest)") (simp_all, blast+)
  qed
qed

section \<open>The operations\<close>

text \<open>The ranges in use, and the invariant: they are laid out between the base and the marker.
  Guest addresses stay below \<open>2\<^sup>6\<^sup>3\<close>, so that rounding up to any power of two cannot wrap.\<close>

definition in_use :: "AddressAllocator \<Rightarrow> (u64 \<times> u64) list" where
  "in_use A = butlast (ranges A)"

definition aa_ok :: "AddressAllocator \<Rightarrow> bool" where
  "aa_ok A \<longleftrightarrow> ranges A = in_use A @ [(aa_end A + 1, 0)] \<and>
     laid_out (unat (aa_base A)) (in_use A) (unat (aa_end A) + 1) \<and> unat (aa_end A) + 1 \<le> 2 ^ 63"

definition fits :: "AddressAllocator \<Rightarrow> nat \<Rightarrow> nat \<Rightarrow> bool" where
  "fits A x n \<longleftrightarrow> room (unat (aa_base A)) (in_use A) (unat (aa_end A) + 1) x n"

lemma aa_okD:
  assumes "aa_ok A"
  shows "ranges A = in_use A @ [(aa_end A + 1, 0)]" "unat (aa_end A + 1) = unat (aa_end A) + 1"
    "laid_out (unat (aa_base A)) (in_use A) (unat (aa_end A + 1))" "unat (aa_end A + 1) \<le> 2 ^ 63"
proof -
  have "unat (aa_end A + 1) = unat (aa_end A) + 1"
    using assms unat_add_no_wrap [of "aa_end A" 1] by (simp add: aa_ok_def)
  then show "ranges A = in_use A @ [(aa_end A + 1, 0)]" "unat (aa_end A + 1) = unat (aa_end A) + 1"
    "laid_out (unat (aa_base A)) (in_use A) (unat (aa_end A + 1))" "unat (aa_end A + 1) \<le> 2 ^ 63"
    using assms by (simp_all add: aa_ok_def)
qed

lemma aa_new_ok:
  assumes "aa_new base sz = Some A" "unat base + unat sz \<le> 2 ^ 63"
  shows "aa_ok A" "in_use A = []" "unat (aa_end A) + 1 = unat base + unat sz" "aa_base A = base"
proof -
  have A: "A = \<lparr>aa_base = base, aa_end = base + (sz - 1), ranges = [(base + sz, 0)]\<rparr>" "sz \<noteq> 0"
    using assms(1) by (auto simp: aa_new_def checked_add_def split: if_splits)
  have "unat (sz - 1) = unat sz - 1" "0 < unat sz"
    using A(2) by (simp_all add: unat_sub word_le_nat_alt unat_gt_0 Suc_le_eq)
  then have e: "unat (base + (sz - 1)) + 1 = unat base + unat sz"
    using assms(2) unat_add_no_wrap [of base "sz - 1"] by simp
  show "in_use A = []" by (simp add: A in_use_def)
  then show "aa_ok A" using e assms(2) by (simp add: A aa_ok_def)
  show "unat (aa_end A) + 1 = unat base + unat sz" "aa_base A = base" using e by (simp_all add: A)
qed

text \<open>Looking for any place, and asking for a given one.\<close>

lemma first_available_best:
  assumes "aa_ok A" "is_power_of_two al" "0 < n"
  shows "best_place (unat al) (unat (aa_base A)) (in_use A) (unat (aa_end A) + 1) (unat n) (first_available_range A n al)"
  using first_loop_highest [OF assms(2,3), of "aa_base A" "rev (in_use A)" "aa_end A + 1" 0] aa_okD [OF assms(1)]
  by (simp add: first_available_range_def)

lemma align_address_id_iff:
  assumes "is_power_of_two al" shows "align_address a al = a \<longleftrightarrow> unat al dvd unat a"
proof -
  have "a mod al = 0 \<longleftrightarrow> unat al dvd unat a"
    by (metis dvd_eq_mod_eq_0 unat_mod unsigned_eq_0_iff)
  moreover have "al - a mod al \<noteq> 0"
  proof
    assume "al - a mod al = 0"
    then have "unat al = unat a mod unat al" by (simp add: unat_mod [symmetric])
    moreover have "0 < unat al" using assms by (simp add: is_power_of_two_def unat_gt_0)
    ultimately show False using mod_less_divisor [of "unat al" "unat a"] by simp
  qed
  ultimately show ?thesis by (auto simp: align_address_def Let_def)
qed

lemma available_range_iff:
  assumes "aa_ok A" "is_power_of_two al" "0 < n"
  shows "(case available_range A a n al of Inl _ \<Rightarrow> None | Inr y \<Rightarrow> Some y) =
    (if unat al dvd unat a \<and> a < aa_end A \<and> fits A (unat a) (unat n) then Some a else None)"
proof -
  note ok = aa_okD [OF assms(1)]
  have lt: "a < aa_end A + 1" if "a < aa_end A" using that ok(2) by (simp add: word_less_nat_alt)
  have loop: "(case available_loop a n (aa_base A) (ranges A) of Inl _ \<Rightarrow> None | Inr y \<Rightarrow> Some y) =
      (if fits A (unat a) (unat n) then Some a else None)" if "a < aa_end A"
    using available_loop_iff [OF assms(3) ok(3) refl lt [OF that]] ok(1,2) by (auto simp: fits_def split: sum.splits)
  have "\<not> fits A (unat a) (unat n)" if "a < aa_base A"
    using that by (auto simp: fits_def room_def word_less_nat_alt)
  then show ?thesis
    using loop align_address_id_iff [OF assms(2), of a]
    by (cases "align_address a al = a") (auto simp: available_range_def Let_def not_less)
qed

lemma insert_ok:
  assumes "aa_ok A" "fits A (unat x) (unat n)" "0 < n"
  defines "A' \<equiv> A\<lparr>ranges := bt_insert x n (ranges A)\<rparr>"
  shows "aa_ok A'" "set (in_use A') = insert (x, n) (set (in_use A))"
proof -
  note ok = aa_okD [OF assms(1)]
  have n: "0 < unat n" using assms(3) by (simp add: word_less_nat_alt)
  have "x < aa_end A + 1" using assms(2) n ok(2) by (simp add: fits_def room_def word_less_nat_alt)
  then have r: "bt_insert x n (ranges A) = bt_insert x n (in_use A) @ [(aa_end A + 1, 0)]"
    using ok(1) by (simp add: bt_insert_snoc)
  have u: "in_use A' = bt_insert x n (in_use A)" by (simp add: A'_def in_use_def [of "A\<lparr>ranges := rs\<rparr>" for rs] r)
  have "laid_out (unat (aa_base A)) (bt_insert x n (in_use A)) (unat (aa_end A) + 1)"
    using laid_out_insert [of "unat (aa_base A)" "in_use A" "unat (aa_end A) + 1" x n] assms(1-3)
    by (simp add: aa_ok_def fits_def)
  then show "aa_ok A'" using ok(1) r u assms(1) by (simp add: aa_ok_def A'_def bt_insert_snoc)
  have "x \<noteq> fst y" if "y \<in> set (in_use A)" for y
  proof -
    have "clear_of (unat x) (unat n) y" using assms(2) that by (simp add: fits_def room_def list_all_iff)
    moreover have "0 < unat (snd y)"
      using laid_out_bounds [OF ok(3), of "fst y" "snd y"] that by (simp add: word_less_nat_alt)
    ultimately show ?thesis using n by (auto simp: clear_of_def)
  qed
  then show "set (in_use A') = insert (x, n) (set (in_use A))" unfolding u by (intro set_bt_insert_new) auto
qed

lemma free_ok:
  assumes "aa_ok A" "n \<noteq> 0"
  shows "aa_ok (aa_free A a n)" "set (in_use (aa_free A a n)) = set (in_use A) - {(a, n)}"
    "aa_base (aa_free A a n) = aa_base A" "aa_end (aa_free A a n) = aa_end A"
proof -
  note ok = aa_okD [OF assms(1)]
  have d: "distinct (map fst (in_use A))" by (rule laid_out_distinct [OF ok(3)])
  have out: "laid_out (unat (aa_base A)) (in_use A) (unat (aa_end A) + 1)" using ok(2,3) by simp
  have get: "map_of (ranges A) a = Some n \<longleftrightarrow> (a, n) \<in> set (in_use A)"
    using assms(2) map_of_eq_Some_iff [OF d, of a n] unfolding ok(1) by (auto simp: map_add_def split: option.splits)
  show "aa_base (aa_free A a n) = aa_base A" "aa_end (aa_free A a n) = aa_end A"
    by (simp_all add: aa_free_def split: option.splits)
  show "aa_ok (aa_free A a n)" "set (in_use (aa_free A a n)) = set (in_use A) - {(a, n)}"
  proof (atomize (full), cases "(a, n) \<in> set (in_use A)")
    case True
    have "a \<in> fst ` set (in_use A)" using True by force
    then have r: "bt_remove a (ranges A) = bt_remove a (in_use A) @ [(aa_end A + 1, 0)]"
      using ok(1) by (simp add: bt_remove_snoc)
    have f: "aa_free A a n = A\<lparr>ranges := bt_remove a (ranges A)\<rparr>" using True get by (simp add: aa_free_def)
    have u: "in_use (aa_free A a n) = bt_remove a (in_use A)" by (simp add: f in_use_def [of "A\<lparr>ranges := rs\<rparr>" for rs] r)
    have "{r \<in> set (in_use A). fst r \<noteq> a} = set (in_use A) - {(a, n)}"
      using map_of_eq_Some_iff [OF d, of a] True by auto (metis option.inject)
    then show "aa_ok (aa_free A a n) \<and> set (in_use (aa_free A a n)) = set (in_use A) - {(a, n)}"
      using assms(1) laid_out_remove [OF out] set_laid_out_remove [OF out] u r ok(1) by (simp add: aa_ok_def f)
  next
    case False
    then have "aa_free A a n = A" using get by (auto simp: aa_free_def split: option.splits)
    then show "aa_ok (aa_free A a n) \<and> set (in_use (aa_free A a n)) = set (in_use A) - {(a, n)}"
      using assms(1) False by simp
  qed
qed

section \<open>The contract over sequences of calls\<close>

datatype alloc_op = Allocate "u64 option" u64 "u64 option" | Free u64 u64

fun alloc_step :: "unit \<Rightarrow> AddressAllocator \<Rightarrow> alloc_op \<Rightarrow> bool \<times> AddressAllocator" where
  "alloc_step _ A (Allocate address n al) = map_prod (\<lambda>r. r \<noteq> None) id (aa_allocate A address n al)"
| "alloc_step _ A (Free address n) = (True, aa_free A address n)"

text \<open>The specification: a region of addresses and the set of ranges handed out. Without a
  requested address the highest aligned free place is taken; with one, that place or nothing (and
  never the last address of the region).\<close>

type_synonym handed_out = "nat \<times> nat \<times> (u64 \<times> u64) set"

fun place :: "handed_out \<Rightarrow> nat \<Rightarrow> nat \<Rightarrow> bool" where
  "place (lo, hi, R) x n \<longleftrightarrow> lo \<le> x \<and> x + n \<le> hi \<and> (\<forall>r\<in>R. clear_of x n r)"

definition highest_place :: "handed_out \<Rightarrow> nat \<Rightarrow> nat \<Rightarrow> nat option" where
  "highest_place S al n = (if \<exists>x. al dvd x \<and> place S x n then Some (GREATEST x. al dvd x \<and> place S x n) else None)"

fun hand_out :: "handed_out \<Rightarrow> nat \<Rightarrow> u64 \<Rightarrow> handed_out" where
  "hand_out (lo, hi, R) x n = (lo, hi, insert (word_of_nat x, n) R)"

fun alloc_spec :: "handed_out \<Rightarrow> alloc_op \<Rightarrow> handed_out option" where
  "alloc_spec S (Allocate address n al) =
    (let a = (case al of None \<Rightarrow> 4 | Some a \<Rightarrow> a) in
     if n = 0 \<or> \<not> is_power_of_two a then None
     else map_option (\<lambda>x. hand_out S x n) (case address of
         None \<Rightarrow> highest_place S (unat a) (unat n)
       | Some x \<Rightarrow> if unat a dvd unat x \<and> unat x + 1 < fst (snd S) \<and> place S (unat x) (unat n)
                  then Some (unat x) else None))"
| "alloc_spec (lo, hi, R) (Free address n) = Some (lo, hi, R - {(address, n)})"

definition handed :: "AddressAllocator \<Rightarrow> handed_out" where
  "handed A = (unat (aa_base A), unat (aa_end A) + 1, set (in_use A))"

fun alloc_call :: "unit \<Rightarrow> alloc_op \<Rightarrow> bool" where
  "alloc_call _ (Allocate _ _ _) = True"
| "alloc_call _ (Free _ n) \<longleftrightarrow> n \<noteq> 0"

lemma place_handed: "place (handed A) x n \<longleftrightarrow> fits A x n"
  by (auto simp: handed_def fits_def room_def list_all_iff)

lemma highest_place_handed:
  assumes "aa_ok A" "is_power_of_two al" "0 < n"
  shows "highest_place (handed A) (unat al) (unat n) = map_option unat (first_available_range A n al)"
proof (cases "first_available_range A n al")
  case None
  then show ?thesis using first_available_best [OF assms]
    by (simp add: highest_place_def place_handed best_place_def fits_def)
next
  case (Some r)
  then have r: "unat al dvd unat r \<and> fits A (unat r) (unat n)"
    "\<And>x. unat al dvd x \<and> fits A x (unat n) \<Longrightarrow> x \<le> unat r"
    using first_available_best [OF assms] by (auto simp: best_place_def fits_def)
  then have "(GREATEST x. unat al dvd x \<and> fits A x (unat n)) = unat r" by (rule Greatest_equality)
  then show ?thesis using r(1) Some by (auto simp: highest_place_def place_handed)
qed

lemma allocate_cases:
  fixes al :: "u64 option"
  assumes "aa_ok A"
  defines "al' \<equiv> (case al of None \<Rightarrow> 4 | Some a \<Rightarrow> a)"
  shows "aa_allocate A address n al = (if n = 0 \<or> \<not> is_power_of_two al' then (None, A)
    else case (case address of None \<Rightarrow> first_available_range A n al'
                 | Some a \<Rightarrow> if unat al' dvd unat a \<and> a < aa_end A \<and> fits A (unat a) (unat n) then Some a else None) of
      None \<Rightarrow> (None, A) | Some x \<Rightarrow> (Some x, A\<lparr>ranges := bt_insert x n (ranges A)\<rparr>))"
proof (cases "n = 0 \<or> \<not> is_power_of_two al'")
  case False
  then have "al' \<noteq> 0" "0 < n" by (auto simp: is_power_of_two_def word_gt_0)
  have "(case available_range A a n al' of Inr x \<Rightarrow> Some x | Inl _ \<Rightarrow> None) =
     (if unat al' dvd unat a \<and> a < aa_end A \<and> fits A (unat a) (unat n) then Some a else None)" for a
    using available_range_iff [OF assms(1), of al' n a] False \<open>0 < n\<close> by (simp split: sum.splits)
  then show ?thesis using False \<open>al' \<noteq> 0\<close>
    by (simp add: aa_allocate_def al'_def [symmetric] Let_def split: option.splits)
qed (auto simp: aa_allocate_def al'_def [symmetric] Let_def)

lemma allocate_fits:
  assumes "aa_ok A" "aa_allocate A address n al = (Some x, A')"
  shows "fits A (unat x) (unat n)" "0 < n" "A' = A\<lparr>ranges := bt_insert x n (ranges A)\<rparr>"
proof -
  define al' where "al' = (case al of None \<Rightarrow> 4 | Some a \<Rightarrow> a)"
  note c = assms(2) [unfolded allocate_cases [OF assms(1)] al'_def [symmetric]]
  have n: "0 < n" "is_power_of_two al'" using c by (auto simp: word_gt_0 split: if_splits)
  show "0 < n" by (rule n)
  show "A' = A\<lparr>ranges := bt_insert x n (ranges A)\<rparr>" using c by (auto split: if_splits option.splits)
  show "fits A (unat x) (unat n)"
  proof (cases address)
    case None
    then have "first_available_range A n al' = Some x" using c by (auto split: if_splits option.splits)
    then show ?thesis using first_available_best [OF assms(1) n(2,1)] by (simp add: best_place_def fits_def)
  qed (use c in \<open>auto split: if_splits\<close>)
qed

lemma handed_insert:
  assumes "aa_ok A" "fits A (unat x) (unat n)" "0 < n"
  shows "handed (A\<lparr>ranges := bt_insert x n (ranges A)\<rparr>) = hand_out (handed A) (unat x) n"
  using insert_ok(2) [OF assms] by (simp add: handed_def)

lemma allocate_refines:
  assumes "aa_ok A"
  shows "(fst (aa_allocate A address n al) \<noteq> None) = (alloc_spec (handed A) (Allocate address n al) \<noteq> None)"
    "handed (snd (aa_allocate A address n al)) =
       (case alloc_spec (handed A) (Allocate address n al) of Some S \<Rightarrow> S | None \<Rightarrow> handed A)"
proof -
  define al' where "al' = (case al of None \<Rightarrow> 4 | Some a \<Rightarrow> a)"
  define found where "found = (case address of None \<Rightarrow> first_available_range A n al'
     | Some a \<Rightarrow> if unat al' dvd unat a \<and> a < aa_end A \<and> fits A (unat a) (unat n) then Some a else None)"
  have alloc: "aa_allocate A address n al = (if n = 0 \<or> \<not> is_power_of_two al' then (None, A)
      else case found of None \<Rightarrow> (None, A) | Some x \<Rightarrow> (Some x, A\<lparr>ranges := bt_insert x n (ranges A)\<rparr>))"
    unfolding al'_def found_def by (rule allocate_cases [OF assms])
  have hi: "fst (snd (handed A)) = unat (aa_end A) + 1" by (simp add: handed_def)
  have spec: "alloc_spec (handed A) (Allocate address n al) = (if n = 0 \<or> \<not> is_power_of_two al' then None
      else map_option (\<lambda>x. hand_out (handed A) (unat x) n) found)"
    using highest_place_handed [OF assms, of al' n]
    by (auto simp: Let_def al'_def [symmetric] found_def place_handed word_gt_0 option.map_comp comp_def
        word_less_nat_alt unat_gt_0 hi split: option.splits)
  show "(fst (aa_allocate A address n al) \<noteq> None) = (alloc_spec (handed A) (Allocate address n al) \<noteq> None)"
    unfolding alloc spec by (cases found) (simp_all del: split_paired_Ex)
  show "handed (snd (aa_allocate A address n al)) =
       (case alloc_spec (handed A) (Allocate address n al) of Some S \<Rightarrow> S | None \<Rightarrow> handed A)"
  proof (cases "n = 0 \<or> \<not> is_power_of_two al' \<or> found = None")
    case False
    then obtain x where x: "found = Some x" "n \<noteq> 0" "is_power_of_two al'" by blast
    then have a: "aa_allocate A address n al = (Some x, A\<lparr>ranges := bt_insert x n (ranges A)\<rparr>)"
      unfolding alloc by simp
    show ?thesis unfolding a spec using x handed_insert [OF assms allocate_fits(1,2) [OF assms a]] by simp
  qed (unfold alloc spec, auto)
qed

lemma alloc_step_ok: "alloc_call E c \<Longrightarrow> aa_ok A \<Longrightarrow> aa_ok (snd (alloc_step E A c))"
proof (cases c)
  case (Allocate address n al)
  assume "aa_ok A"
  obtain r A' where a: "aa_allocate A address n al = (r, A')" by force
  show ?thesis
  proof (cases r)
    case None
    then have "A' = A" using a allocate_cases [OF \<open>aa_ok A\<close>, of address n al] by (auto split: if_splits option.splits)
    then show ?thesis using Allocate a \<open>aa_ok A\<close> by simp
  next
    case (Some x)
    then show ?thesis
      using allocate_fits [OF \<open>aa_ok A\<close>, of address n al x A'] insert_ok(1) [OF \<open>aa_ok A\<close>, of x n] a Allocate by simp
  qed
qed (simp add: free_ok)

interpretation allocator: refines_spec alloc_step alloc_call aa_ok alloc_spec handed
proof
  fix E c A
  assume c: "alloc_call E c" and A: "aa_ok A"
  then show "aa_ok (snd (alloc_step E A c))" by (rule alloc_step_ok)
  show "fst (alloc_step E A c) = (alloc_spec (handed A) c \<noteq> None) \<and>
     handed (snd (alloc_step E A c)) = (case alloc_spec (handed A) c of Some S \<Rightarrow> S | None \<Rightarrow> handed A)"
  proof (cases c)
    case (Allocate address n al)
    then show ?thesis using allocate_refines [OF A, of address n al] by (simp del: alloc_spec.simps)
  next
    case (Free a n)
    then show ?thesis using c free_ok [OF A, of n a] by (simp add: handed_def)
  qed
qed

lemma spec_run_region:
  "fst (snd (spec_run alloc_spec S cs)) = fst S \<and> fst (snd (snd (spec_run alloc_spec S cs))) = fst (snd S)"
proof (induction cs arbitrary: S)
  case (Cons c cs)
  have "fst S' = fst S \<and> fst (snd S') = fst (snd S)" if "alloc_spec S c = Some S'" for S'
    using that by (cases S; cases c) (auto simp: Let_def split: if_splits option.splits)
  then show ?case
    using Cons.IH by (cases "alloc_spec S c") (simp_all add: split_beta)
qed simp

text \<open>C16. On an allocator whose invariant holds (any allocator of a region below \<open>2 ^ 63\<close>), a non-empty request
  for any place, with a power of two as the alignment, is answered with the highest aligned
  address at which the range fits between the base, the end and the ranges in use, and refused only
  when no aligned address fits.\<close>

theorem allocate_finds_highest:
  assumes "aa_ok A" "0 < n" "is_power_of_two al"
  shows "case fst (aa_allocate A None n (Some al)) of
      None \<Rightarrow> \<forall>x. unat al dvd x \<longrightarrow> \<not> fits A x (unat n)
    | Some r \<Rightarrow> unat al dvd unat r \<and> fits A (unat r) (unat n) \<and>
        (\<forall>x. unat al dvd x \<longrightarrow> fits A x (unat n) \<longrightarrow> x \<le> unat r)"
  using first_available_best [OF assms(1,3,2)] assms
  by (simp add: allocate_cases best_place_def fits_def word_gt_0 split: option.splits)

definition demo_allocator :: AddressAllocator where
  "demo_allocator = \<lparr>aa_base = 0x1000, aa_end = 0x10FFF, ranges = [(0x4000, 0x1000), (0x10000, 0x800), (0x11000, 0)]\<rparr>"

lemma demo_allocator_ok: "aa_ok demo_allocator"
  by (simp add: aa_ok_def demo_allocator_def in_use_def)

theorem allocate_finds_highest_witness:
  "fst (aa_allocate demo_allocator None 0x1000 (Some 0x1000)) = Some 0xF000 \<and>
   fits demo_allocator 0xF000 0x1000 \<and> \<not> fits demo_allocator 0x10000 0x1000 \<and>
   fst (aa_allocate demo_allocator None 0x2000 (Some 0x10000)) = None"
proof -
  have r: "fst (aa_allocate demo_allocator None 0x1000 (Some 0x1000)) = Some 0xF000"
    "fst (aa_allocate demo_allocator None 0x2000 (Some 0x10000)) = None" by code_simp+
  have "is_power_of_two 0x1000" by code_simp
  note allocate_finds_highest [OF demo_allocator_ok _ this, of "0x1000", unfolded r]
  then have "fits demo_allocator 0xF000 0x1000"
    "\<And>x. 0x1000 dvd x \<Longrightarrow> fits demo_allocator x 0x1000 \<Longrightarrow> x \<le> 0xF000" by simp_all
  moreover have "(0x1000 :: nat) dvd 0x10000" by simp
  ultimately show ?thesis using r by fastforce
qed

text \<open>C17. Starting from a new allocator over a region below
  \<open>2 ^ 63\<close>, every sequence of allocations and frees behaves as the specification on sets of ranges
  (same successes, same ranges handed out), and the ranges in use stay inside the region and
  pairwise disjoint. Frees are of non-empty ranges.\<close>

theorem allocator_refines_ranges:
  assumes "aa_new base sz = Some A" "unat base + unat sz \<le> 2 ^ 63"
    and "list_all (alloc_call ()) cs" and "run_steps alloc_step A (map (Pair ()) cs) = (rs, B)"
  shows "spec_run alloc_spec (unat base, unat base + unat sz, {}) cs = (rs, handed B) \<and>
    (\<forall>(a, n) \<in> set (in_use B). unat base \<le> unat a \<and> 0 < n \<and> unat a + unat n \<le> unat base + unat sz) \<and>
    (\<forall>(a, n) \<in> set (in_use B). \<forall>r \<in> set (in_use B). r = (a, n) \<or> clear_of (unat a) (unat n) r)"
proof -
  note new = aa_new_ok [OF assms(1,2)]
  have c: "\<forall>(E, c) \<in> set (map (Pair ()) cs). alloc_call E c" using assms(3) by (auto simp: list_all_iff)
  have h: "handed A = (unat base, unat base + unat sz, {})" using new by (simp add: handed_def)
  have spec: "spec_run alloc_spec (handed A) cs = (rs, handed B)"
    using allocator.run_refines [OF c new(1)] assms(4) by (simp add: comp_def)
  have B: "aa_ok B" using allocator.run_inv [OF c new(1)] assms(4) by simp
  have "unat (aa_base B) = unat base" "unat (aa_end B) + 1 = unat base + unat sz"
    using spec_run_region [of "handed A" cs] spec h by (simp_all add: handed_def)
  then have "laid_out (unat base) (in_use B) (unat base + unat sz)" using B by (simp add: aa_ok_def)
  from laid_out_bounds [OF this] laid_out_pairwise [OF this] show ?thesis
    unfolding spec [unfolded h] by (simp add: Ball_def split_paired_all) blast
qed

definition demo_ops :: "alloc_op list" where
  "demo_ops = [Allocate None 0x110 (Some 0x100), Allocate None 0x100 (Some 0x100), Allocate (Some 0x2000) 0x800 None,
     Allocate (Some 0x2400) 0x10 None, Free 0x10e00 0x110, Free 0x2000 0x10, Allocate None 0x20000 None]"

theorem allocator_refines_ranges_witness:
  "\<exists>A B. aa_new 0x1000 0x10000 = Some A \<and>
     run_steps alloc_step A (map (Pair ()) demo_ops) = ([True, True, True, False, True, True, False], B) \<and>
     in_use B = [(0x2000, 0x800), (0x10d00, 0x100)] \<and>
     spec_run alloc_spec (0x1000, 0x11000, {}) demo_ops = ([True, True, True, False, True, True, False], handed B)"
proof -
  define A where "A = \<lparr>aa_base = 0x1000, aa_end = 0x10FFF, ranges = [(0x11000, 0)]\<rparr>"
  define B where "B = \<lparr>aa_base = 0x1000, aa_end = 0x10FFF, ranges = [(0x2000, 0x800), (0x10d00, 0x100), (0x11000, 0)]\<rparr>"
  have new: "aa_new 0x1000 0x10000 = Some A" unfolding A_def by code_simp
  have run: "run_steps alloc_step A (map (Pair ()) demo_ops) = ([True, True, True, False, True, True, False], B)"
    unfolding A_def B_def by code_simp
  have "list_all (alloc_call ()) demo_ops" by code_simp
  note allocator_refines_ranges [OF new _ this run]
  then show ?thesis using new run by (auto simp: B_def in_use_def)
qed

section \<open>Corners of the address space\<close>

text \<open>The last address of the region is refused when it is asked for, though it is free and the
  search for any place hands it out.\<close>

lemma last_address_refused:
  "case aa_new 0x1000 0x10 of None \<Rightarrow> False | Some A \<Rightarrow>
     fst (aa_allocate A (Some 0x100F) 1 (Some 1)) = None \<and> fst (aa_allocate A None 1 (Some 1)) = Some 0x100F"
  by code_simp

text \<open>Freeing an empty range at the end of the region removes the end marker, and a new allocator
  then refuses every request.\<close>

lemma free_removes_end_marker:
  "case aa_new 0x1000 0x1000 of None \<Rightarrow> False | Some A \<Rightarrow>
     fst (aa_allocate A None 0x10 None) = Some 0x1FF0 \<and>
     fst (aa_allocate (aa_free A 0x2000 0) None 0x10 None) = None \<and>
     fst (aa_allocate (aa_free A 0x2000 0) (Some 0x1000) 0x10 None) = None"
  by code_simp

text \<open>At the top of the address space the alignment of the previous end wraps to 0, and a request is
  answered with an address below the region.\<close>

lemma wrapped_alignment_leaves_region:
  "case aa_new 0xFFFFFFFFFFFFF100 0x200 of None \<Rightarrow> False | Some A \<Rightarrow>
     fst (aa_allocate A None 0x100 (Some 0x1000)) = Some 0xFFFFFFFFFFFFF000"
  by code_simp

end
