(* ===== verification/System_Allocator.thy ===== *)
theory System_Allocator
  imports Address_Allocator
begin

text \<open>
  The interrupt and system allocators (\<^verbatim>\<open>hypervisor/vm-allocator/src/gsi.rs\<close> and \<^verbatim>\<open>system.rs\<close>, for
  x86-64): one address allocator for the I/O ports, one for the platform MMIO region, one for the
  32-bit MMIO hole, and the allocator of interrupt numbers. The page size, which the code asks
  the operating system for, is the environment of a call.
\<close>

record GsiApic =
  apic_base :: u32
  apic_irqs :: u32

record GsiAllocator =
  apics :: "(u32, u32) btree"
  next_irq :: u32
  next_gsi :: u32

definition gsi_add_apic :: "GsiAllocator \<Rightarrow> GsiApic \<Rightarrow> GsiAllocator" where
  "gsi_add_apic G apic =
    (let G1 = (if apic_base apic < next_irq G then G\<lparr>next_irq := apic_base apic\<rparr> else G);
         G2 = (if apic_base apic + apic_irqs apic > next_gsi G1
               then G1\<lparr>next_gsi := apic_base apic + apic_irqs apic\<rparr> else G1)
     in G2\<lparr>apics := bt_insert (apic_base apic) (apic_irqs apic) (apics G2)\<rparr>)"

definition gsi_new :: "GsiApic list \<Rightarrow> GsiAllocator" where
  "gsi_new as = fold (\<lambda>apic G. gsi_add_apic G apic) as \<lparr>apics = [], next_irq = 0xffffffff, next_gsi = 0\<rparr>"

definition allocate_gsi :: "GsiAllocator \<Rightarrow> u32 option \<times> GsiAllocator" where
  "allocate_gsi G = (case checked_add (next_gsi G) 1 of
     None \<Rightarrow> (None, G)
   | Some next \<Rightarrow> (Some (next_gsi G), G\<lparr>next_gsi := next\<rparr>))"

text \<open>The loop over the APICs: the IRQ found so far and the next one.\<close>

fun irq_loop :: "(u32 \<times> u32) list \<Rightarrow> u32 \<Rightarrow> u32 \<Rightarrow> u32 \<times> u32" where
  "irq_loop [] irq next = (irq, next)"
| "irq_loop ((base, irqs) # as) irq next =
    (if next \<ge> base \<and> next < base + irqs then irq_loop as next (next + 1) else irq_loop as irq next)"

definition allocate_irq :: "GsiAllocator \<Rightarrow> u32 option \<times> GsiAllocator" where
  "allocate_irq G = (case irq_loop (apics G) 0 (next_irq G) of (irq, next) \<Rightarrow>
     (if irq = 0 then None else Some irq, G\<lparr>next_irq := next\<rparr>))"

section \<open>The system allocator\<close>

record SystemAllocator =
  io_address_space :: AddressAllocator
  platform_mmio_address_space :: AddressAllocator
  mmio_hole_address_space :: AddressAllocator
  gsi_allocator :: GsiAllocator

definition sys_new :: "u64 \<Rightarrow> u64 \<Rightarrow> u64 \<Rightarrow> u64 \<Rightarrow> u64 \<Rightarrow> u64 \<Rightarrow> GsiApic list \<Rightarrow> SystemAllocator option" where
  "sys_new io_base io_size platform_mmio_base platform_mmio_size mmio_hole_base mmio_hole_size as =
    (case aa_new io_base io_size of
       None \<Rightarrow> None
     | Some io \<Rightarrow> (case aa_new platform_mmio_base platform_mmio_size of
         None \<Rightarrow> None
       | Some platform \<Rightarrow> (case aa_new mmio_hole_base mmio_hole_size of
           None \<Rightarrow> None
         | Some hole \<Rightarrow> Some \<lparr>io_address_space = io, platform_mmio_address_space = platform,
             mmio_hole_address_space = hole, gsi_allocator = gsi_new as\<rparr>)))"

definition sys_allocate_irq :: "SystemAllocator \<Rightarrow> u32 option \<times> SystemAllocator" where
  "sys_allocate_irq S = (case allocate_irq (gsi_allocator S) of (r, G) \<Rightarrow> (r, S\<lparr>gsi_allocator := G\<rparr>))"

definition sys_allocate_gsi :: "SystemAllocator \<Rightarrow> u32 option \<times> SystemAllocator" where
  "sys_allocate_gsi S = (case allocate_gsi (gsi_allocator S) of (r, G) \<Rightarrow> (r, S\<lparr>gsi_allocator := G\<rparr>))"

definition allocate_io_addresses :: "SystemAllocator \<Rightarrow> u64 option \<Rightarrow> u64 \<Rightarrow> u64 option
    \<Rightarrow> u64 option \<times> SystemAllocator" where
  "allocate_io_addresses S address sz align_size =
    (case aa_allocate (io_address_space S) address sz (Some (case align_size of None \<Rightarrow> 0x1 | Some a \<Rightarrow> a)) of
       (r, A) \<Rightarrow> (r, S\<lparr>io_address_space := A\<rparr>))"

definition allocate_platform_mmio_addresses :: "u64 \<Rightarrow> SystemAllocator \<Rightarrow> u64 option \<Rightarrow> u64 \<Rightarrow> u64 option
    \<Rightarrow> u64 option \<times> SystemAllocator" where
  "allocate_platform_mmio_addresses pagesize S address sz align_size =
    (case aa_allocate (platform_mmio_address_space S) address sz
            (Some (case align_size of None \<Rightarrow> pagesize | Some a \<Rightarrow> a)) of
       (r, A) \<Rightarrow> (r, S\<lparr>platform_mmio_address_space := A\<rparr>))"

definition allocate_mmio_hole_addresses :: "u64 \<Rightarrow> SystemAllocator \<Rightarrow> u64 option \<Rightarrow> u64 \<Rightarrow> u64 option
    \<Rightarrow> u64 option \<times> SystemAllocator" where
  "allocate_mmio_hole_addresses pagesize S address sz align_size =
    (case aa_allocate (mmio_hole_address_space S) address sz
            (Some (case align_size of None \<Rightarrow> pagesize | Some a \<Rightarrow> a)) of
       (r, A) \<Rightarrow> (r, S\<lparr>mmio_hole_address_space := A\<rparr>))"

definition free_io_addresses :: "SystemAllocator \<Rightarrow> u64 \<Rightarrow> u64 \<Rightarrow> SystemAllocator" where
  "free_io_addresses S address sz = S\<lparr>io_address_space := aa_free (io_address_space S) address sz\<rparr>"

definition free_platform_mmio_addresses :: "SystemAllocator \<Rightarrow> u64 \<Rightarrow> u64 \<Rightarrow> SystemAllocator" where
  "free_platform_mmio_addresses S address sz =
     S\<lparr>platform_mmio_address_space := aa_free (platform_mmio_address_space S) address sz\<rparr>"

definition free_mmio_hole_addresses :: "SystemAllocator \<Rightarrow> u64 \<Rightarrow> u64 \<Rightarrow> SystemAllocator" where
  "free_mmio_hole_addresses S address sz =
     S\<lparr>mmio_hole_address_space := aa_free (mmio_hole_address_space S) address sz\<rparr>"

text \<open>The calls a device manager makes, and their replies.\<close>

datatype sys_op = AllocateIrq | AllocateGsi
  | AllocateIo "u64 option" u64 "u64 option" | AllocatePlatform "u64 option" u64 "u64 option"
  | AllocateHole "u64 option" u64 "u64 option"
  | FreeIo u64 u64 | FreePlatform u64 u64 | FreeHole u64 u64

datatype sys_reply = Interrupt "u32 option" | Address "u64 option" | Freed

fun sys_step :: "u64 \<Rightarrow> SystemAllocator \<Rightarrow> sys_op \<Rightarrow> sys_reply \<times> SystemAllocator" where
  "sys_step _ S AllocateIrq = map_prod Interrupt id (sys_allocate_irq S)"
| "sys_step _ S AllocateGsi = map_prod Interrupt id (sys_allocate_gsi S)"
| "sys_step _ S (AllocateIo a n al) = map_prod Address id (allocate_io_addresses S a n al)"
| "sys_step pagesize S (AllocatePlatform a n al) = map_prod Address id (allocate_platform_mmio_addresses pagesize S a n al)"
| "sys_step pagesize S (AllocateHole a n al) = map_prod Address id (allocate_mmio_hole_addresses pagesize S a n al)"
| "sys_step _ S (FreeIo a n) = (Freed, free_io_addresses S a n)"
| "sys_step _ S (FreePlatform a n) = (Freed, free_platform_mmio_addresses S a n)"
| "sys_step _ S (FreeHole a n) = (Freed, free_mmio_hole_addresses S a n)"

fun interrupts :: "sys_reply list \<Rightarrow> u32 list" where
  "interrupts [] = []"
| "interrupts (Interrupt (Some i) # rs) = i # interrupts rs"
| "interrupts (_ # rs) = interrupts rs"

section \<open>Interrupt numbers\<close>

lemma less_plus_one:
  assumes "(x :: 'a::len word) < y" shows "x < x + 1" "unat (x + 1) = unat x + 1"
proof -
  have "unat y < 2 ^ LENGTH('a)" by (rule unsigned_less)
  then have "unat x + 1 < 2 ^ LENGTH('a)" using assms unfolding word_less_nat_alt by linarith
  then show "unat (x + 1) = unat x + 1" by (simp add: unat_word_ariths)
  then show "x < x + 1" by (simp add: word_less_nat_alt)
qed

lemma irq_loop_spec:
  "irq_loop as irq next = (irq', next') \<Longrightarrow> next \<le> next' \<and> (irq' = irq \<and> next' = next \<or>
    next \<le> irq' \<and> irq' < next' \<and> (\<exists>(b, k) \<in> set as. irq' < b + k))"
proof (induction as irq "next" rule: irq_loop.induct)
  case (2 base irqs as irq "next")
  show ?case
  proof (cases "next \<ge> base \<and> next < base + irqs")
    case True
    then have "next < next + 1" by (blast intro: less_plus_one(1))
    moreover have "next + 1 \<le> next' \<and> (irq' = next \<and> next' = next + 1 \<or>
        next + 1 \<le> irq' \<and> irq' < next' \<and> (\<exists>(b, k) \<in> set as. irq' < b + k))"
      using 2 True by simp
    ultimately show ?thesis using True by auto
  qed (use 2 in auto)
qed simp

text \<open>The IRQs of the APICs end below a bound that stays below the next GSI.\<close>

definition irqs_below :: "u32 \<Rightarrow> GsiAllocator \<Rightarrow> bool" where
  "irqs_below T G \<longleftrightarrow> (\<forall>(b, k) \<in> set (apics G). b + k \<le> T) \<and> T \<le> next_gsi G"

lemma gsi_new_below: "irqs_below (next_gsi (gsi_new as)) (gsi_new as)"
proof -
  have "irqs_below (next_gsi (gsi_add_apic G a)) (gsi_add_apic G a)" if "irqs_below (next_gsi G) G" for G a
  proof -
    have "next_gsi G \<le> next_gsi (gsi_add_apic G a)" "apic_base a + apic_irqs a \<le> next_gsi (gsi_add_apic G a)"
      by (auto simp: gsi_add_apic_def Let_def)
    moreover have "set (apics (gsi_add_apic G a)) \<subseteq> insert (apic_base a, apic_irqs a) (set (apics G))"
      using set_bt_insert_subset by (simp add: gsi_add_apic_def Let_def)
    ultimately show ?thesis using that unfolding irqs_below_def by (blast intro: order_trans)
  qed
  then have "irqs_below (next_gsi G) G \<Longrightarrow>
      (let H = fold (\<lambda>apic G. gsi_add_apic G apic) as G in irqs_below (next_gsi H) H)" for G
    by (induction as arbitrary: G) (auto simp: Let_def)
  then show ?thesis by (simp add: gsi_new_def irqs_below_def Let_def)
qed

lemma allocate_irq_fresh:
  assumes "irqs_below T G" "allocate_irq G = (r, G')"
  shows "irqs_below T G'" "next_gsi G' = next_gsi G" "next_irq G \<le> next_irq G'"
    "r = Some i \<Longrightarrow> next_irq G \<le> i \<and> i < next_irq G' \<and> i < T"
proof -
  obtain irq "next" where l: "irq_loop (apics G) 0 (next_irq G) = (irq, next)" by fastforce
  note spec = irq_loop_spec [OF l]
  have G': "G' = G\<lparr>next_irq := next\<rparr>" "r = (if irq = 0 then None else Some irq)"
    using assms(2) l by (auto simp: allocate_irq_def)
  show "irqs_below T G'" "next_gsi G' = next_gsi G" "next_irq G \<le> next_irq G'"
    using assms(1) spec by (auto simp: G' irqs_below_def)
  show "next_irq G \<le> i \<and> i < next_irq G' \<and> i < T" if "r = Some i"
  proof -
    have i: "irq = i" "irq \<noteq> 0" using that G' by (auto split: if_splits)
    then obtain b k where "next_irq G \<le> i" "i < next" "(b, k) \<in> set (apics G)" "i < b + k" using spec by auto
    then show ?thesis using assms(1) G' unfolding irqs_below_def by (auto intro: less_le_trans)
  qed
qed

lemma allocate_gsi_fresh:
  assumes "irqs_below T G" "allocate_gsi G = (r, G')"
  shows "irqs_below T G'" "next_irq G' = next_irq G" "next_gsi G \<le> next_gsi G'"
    "r = Some i \<Longrightarrow> i = next_gsi G \<and> i < next_gsi G'"
proof -
  have c: "next_gsi G < next_gsi G + 1" if "checked_add (next_gsi G) 1 = Some n" for n
    using that unat_add_no_wrap [of "next_gsi G" 1]
    by (simp add: checked_add_eq_Some word_less_nat_alt unat_word_ariths)
  then show "irqs_below T G'" "next_irq G' = next_irq G" "next_gsi G \<le> next_gsi G'"
     "r = Some i \<Longrightarrow> i = next_gsi G \<and> i < next_gsi G'"
    using assms by (auto simp: allocate_gsi_def irqs_below_def checked_add_def split: option.splits if_splits
        intro: order_trans)
qed

lemma sys_step_fresh:
  assumes "irqs_below T (gsi_allocator S)" "sys_step E S c = (r, S1)"
  defines "G \<equiv> gsi_allocator S" and "G1 \<equiv> gsi_allocator S1"
  shows "irqs_below T G1 \<and> next_irq G \<le> next_irq G1 \<and> next_gsi G \<le> next_gsi G1 \<and>
    (\<forall>i. r = Interrupt (Some i) \<longrightarrow> next_irq G \<le> i \<and> i < next_irq G1 \<and> i < T \<or> i = next_gsi G \<and> i < next_gsi G1)"
proof (cases c)
  case AllocateIrq
  then obtain r' where "allocate_irq G = (r', G1)" "r = Interrupt r'"
    using assms(2) by (auto simp: sys_allocate_irq_def G_def G1_def split: prod.splits)
  note f = allocate_irq_fresh [OF assms(1) [folded G_def] this(1)]
  show ?thesis using f by (simp add: \<open>r = Interrupt r'\<close>)
next
  case AllocateGsi
  then obtain r' where "allocate_gsi G = (r', G1)" "r = Interrupt r'"
    using assms(2) by (auto simp: sys_allocate_gsi_def G_def G1_def split: prod.splits)
  note f = allocate_gsi_fresh [OF assms(1) [folded G_def] this(1)]
  show ?thesis using f by (simp add: \<open>r = Interrupt r'\<close>)
qed (use assms in \<open>auto simp: allocate_io_addresses_def allocate_platform_mmio_addresses_def
    allocate_mmio_hole_addresses_def free_io_addresses_def free_platform_mmio_addresses_def
    free_mmio_hole_addresses_def split: prod.splits\<close>)

lemma interrupts_fresh:
  "irqs_below T (gsi_allocator S) \<Longrightarrow>
    distinct (interrupts (fst (run_steps sys_step S cs))) \<and>
    (\<forall>i \<in> set (interrupts (fst (run_steps sys_step S cs))).
       next_irq (gsi_allocator S) \<le> i \<and> i < T \<or> next_gsi (gsi_allocator S) \<le> i)"
proof (induction cs arbitrary: S)
  case (Cons Ec cs)
  obtain E c where Ec: "Ec = (E, c)" by (cases Ec)
  obtain r S1 where s: "sys_step E S c = (r, S1)" by fastforce
  let ?G = "gsi_allocator S" and ?G1 = "gsi_allocator S1"
  have G1: "irqs_below T ?G1 \<and> next_irq ?G \<le> next_irq ?G1 \<and> next_gsi ?G \<le> next_gsi ?G1 \<and>
    (\<forall>i. r = Interrupt (Some i) \<longrightarrow> next_irq ?G \<le> i \<and> i < next_irq ?G1 \<and> i < T \<or> i = next_gsi ?G \<and> i < next_gsi ?G1)"
    by (rule sys_step_fresh [OF Cons.prems s])
  have T: "T \<le> next_gsi ?G" "T \<le> next_gsi ?G1" using Cons.prems G1 by (simp_all add: irqs_below_def)
  define later where "later = interrupts (fst (run_steps sys_step S1 cs))"
  have IH: "distinct later" "\<And>i. i \<in> set later \<Longrightarrow> next_irq ?G1 \<le> i \<and> i < T \<or> next_gsi ?G1 \<le> i"
    using Cons.IH [of S1] G1 by (simp_all add: later_def)
  have all: "interrupts (fst (run_steps sys_step S (Ec # cs))) =
      (case r of Interrupt (Some i) \<Rightarrow> i # later | _ \<Rightarrow> later)"
    using s Ec by (auto simp: later_def split: prod.splits sys_reply.splits option.splits)
  show ?case
  proof (cases "\<exists>i. r = Interrupt (Some i)")
    case True
    then obtain i where i: "r = Interrupt (Some i)" by blast
    from i have new: "next_irq ?G \<le> i \<and> i < next_irq ?G1 \<and> i < T \<or> i = next_gsi ?G \<and> i < next_gsi ?G1"
      using G1 by blast
    have "i \<notin> set later"
    proof
      assume "i \<in> set later"
      from IH(2) [OF this] new T show False by (elim disjE conjE) order+
    qed
    moreover have "next_irq ?G \<le> j \<and> j < T \<or> next_gsi ?G \<le> j" if "j \<in> set later" for j
      using IH(2) [OF that] G1 by (blast intro: order_trans)
    ultimately show ?thesis using new IH(1) unfolding all by (auto simp: i)
  next
    case False
    then have "interrupts (fst (run_steps sys_step S (Ec # cs))) = later"
      unfolding all by (auto split: sys_reply.splits option.splits)
    then show ?thesis using G1 IH by (auto intro: order_trans)
  qed
qed simp

lemma gsi_of_sys_new:
  "sys_new io_base io_size p_base p_size h_base h_size as = Some S \<Longrightarrow> gsi_allocator S = gsi_new as"
  by (auto simp: sys_new_def split: option.splits)

text \<open>C18. Over any sequence of calls on a new system allocator, whatever its
  APICs, no interrupt number (IRQ or GSI) is handed out twice.\<close>

theorem interrupts_distinct:
  assumes "sys_new io_base io_size p_base p_size h_base h_size as = Some S"
  shows "distinct (interrupts (fst (run_steps sys_step S cs)))"
proof -
  have "irqs_below (next_gsi (gsi_new as)) (gsi_allocator S)"
    using gsi_new_below gsi_of_sys_new [OF assms] by simp
  from interrupts_fresh [OF this] show ?thesis by blast
qed

definition demo_sys_ops :: "(u64 \<times> sys_op) list" where
  "demo_sys_ops = map (Pair 0x1000) [AllocateIrq, AllocateGsi, AllocatePlatform None 0x1000 (Some 0x1000),
     AllocateIrq, AllocateHole None 0x3000 None, AllocateIo (Some 0x3f8) 8 None, AllocateGsi, FreePlatform 0x1ffff000 0x1000]"

theorem interrupts_distinct_witness:
  "\<exists>S. sys_new 0 0x10000 0x10000000 0x10000000 0x20000000 0x100000 [\<lparr>apic_base = 5, apic_irqs = 19\<rparr>] = Some S \<and>
     interrupts (fst (run_steps sys_step S demo_sys_ops)) = [5, 24, 6, 25] \<and>
     distinct (interrupts (fst (run_steps sys_step S demo_sys_ops)))"
proof -
  let ?new = "sys_new 0 0x10000 0x10000000 0x10000000 0x20000000 0x100000 [\<lparr>apic_base = 5, apic_irqs = 19\<rparr>]"
  have "case ?new of None \<Rightarrow> False | Some S \<Rightarrow> interrupts (fst (run_steps sys_step S demo_sys_ops)) = [5, 24, 6, 25]"
    by code_simp
  from some_case_ex [OF this] obtain S where
    new: "?new = Some S" "interrupts (fst (run_steps sys_step S demo_sys_ops)) = [5, 24, 6, 25]" by blast
  show ?thesis using new interrupts_distinct [OF new(1)] by blast
qed

section \<open>Address spaces\<close>

fun region_ok :: "nat \<times> nat \<Rightarrow> AddressAllocator \<Rightarrow> bool" where
  "region_ok (lo, hi) A \<longleftrightarrow> aa_ok A \<and> unat (aa_base A) = lo \<and> unat (aa_end A) + 1 = hi"

lemma region_new:
  "\<lbrakk>aa_new base sz = Some A; unat base + unat sz \<le> 2 ^ 63\<rbrakk> \<Longrightarrow> region_ok (unat base, unat base + unat sz) A"
  using aa_new_ok by simp

lemma region_allocate:
  assumes "region_ok R A" "aa_allocate A a n al = (r, A')" shows "region_ok R A'"
proof (cases R)
  case (Pair lo hi)
  have "aa_base A' = aa_base A" "aa_end A' = aa_end A"
    using assms(2) by (auto simp: aa_allocate_def Let_def split: if_splits option.splits)
  moreover have "aa_ok A'" using alloc_step_ok [of "()" "Allocate a n al" A] assms Pair by simp
  ultimately show ?thesis using assms(1) Pair by simp
qed

lemma region_free: "\<lbrakk>region_ok R A; n \<noteq> 0\<rbrakk> \<Longrightarrow> region_ok R (aa_free A a n)"
  using free_ok [of A n a] by (cases R) auto

lemma region_bounds:
  assumes "region_ok (lo, hi) A" "(a, n) \<in> set (in_use A)"
  shows "lo \<le> unat a" "0 < n" "unat a + unat n \<le> hi"
    "r \<in> set (in_use A) \<Longrightarrow> r = (a, n) \<or> clear_of (unat a) (unat n) r"
proof -
  have "laid_out lo (in_use A) hi" using assms(1) by (auto simp: aa_ok_def)
  from laid_out_bounds [OF this assms(2)] laid_out_pairwise [OF this assms(2)]
  show "lo \<le> unat a" "0 < n" "unat a + unat n \<le> hi"
    "r \<in> set (in_use A) \<Longrightarrow> r = (a, n) \<or> clear_of (unat a) (unat n) r" by blast+
qed

lemma regions_clear:
  assumes "region_ok (lo, hi) A" "region_ok (lo', hi') B" "hi \<le> lo' \<or> hi' \<le> lo"
    and "(a, n) \<in> set (in_use A)" "r \<in> set (in_use B)"
  shows "clear_of (unat a) (unat n) r"
proof -
  obtain b m where r: "r = (b, m)" by (cases r)
  have "lo \<le> unat a" "unat a + unat n \<le> hi" "lo' \<le> unat b" "unat b + unat m \<le> hi'"
    using region_bounds(1,3) [OF assms(1,4)] region_bounds(1,3) [OF assms(2), of b m] assms(5) r by simp_all
  then show ?thesis using assms(3) by (auto simp: r clear_of_def)
qed

fun sys_ok :: "(nat \<times> nat) \<times> (nat \<times> nat) \<times> (nat \<times> nat) \<Rightarrow> SystemAllocator \<Rightarrow> bool" where
  "sys_ok (io, platform, hole) S \<longleftrightarrow> region_ok io (io_address_space S) \<and>
     region_ok platform (platform_mmio_address_space S) \<and> region_ok hole (mmio_hole_address_space S)"

fun sys_call :: "u64 \<Rightarrow> sys_op \<Rightarrow> bool" where
  "sys_call _ (FreeIo _ n) \<longleftrightarrow> n \<noteq> 0"
| "sys_call _ (FreePlatform _ n) \<longleftrightarrow> n \<noteq> 0"
| "sys_call _ (FreeHole _ n) \<longleftrightarrow> n \<noteq> 0"
| "sys_call _ _ \<longleftrightarrow> True"

lemma sys_new_ok:
  assumes "sys_new io_base io_size p_base p_size h_base h_size as = Some S"
    and "unat io_base + unat io_size \<le> 2 ^ 63" "unat p_base + unat p_size \<le> 2 ^ 63" "unat h_base + unat h_size \<le> 2 ^ 63"
  shows "sys_ok ((unat io_base, unat io_base + unat io_size), (unat p_base, unat p_base + unat p_size),
     (unat h_base, unat h_base + unat h_size)) S"
proof -
  obtain io p h where new: "aa_new io_base io_size = Some io" "aa_new p_base p_size = Some p" "aa_new h_base h_size = Some h"
    and S: "S = \<lparr>io_address_space = io, platform_mmio_address_space = p, mmio_hole_address_space = h, gsi_allocator = gsi_new as\<rparr>"
    using assms(1) by (auto simp: sys_new_def split: option.splits)
  show ?thesis
    using region_new [OF new(1) assms(2)] region_new [OF new(2) assms(3)] region_new [OF new(3) assms(4)]
    by (simp only: sys_ok.simps S SystemAllocator.simps)
qed

interpretation system: invariant_steps sys_step sys_call "sys_ok R" for R
proof
  fix E c S
  assume "sys_call E c" "sys_ok R S"
  then show "sys_ok R (snd (sys_step E S c))"
    by (cases c; cases R) (auto simp: sys_allocate_irq_def sys_allocate_gsi_def allocate_io_addresses_def
      allocate_platform_mmio_addresses_def allocate_mmio_hole_addresses_def free_io_addresses_def
      free_platform_mmio_addresses_def free_mmio_hole_addresses_def region_free
      dest: region_allocate split: prod.splits simp del: region_ok.simps)
qed

text \<open>C19. With the platform MMIO region and the MMIO hole disjoint and
  every region below \<open>2 ^ 63\<close>, after any sequence of allocations and (non-empty) frees the MMIO
  ranges in use are pairwise disjoint across both regions, and every range in use lies in the region
  it was taken from.\<close>

theorem system_ranges_disjoint:
  assumes "sys_new io_base io_size p_base p_size h_base h_size as = Some S"
    and "unat io_base + unat io_size \<le> 2 ^ 63" "unat p_base + unat p_size \<le> 2 ^ 63" "unat h_base + unat h_size \<le> 2 ^ 63"
    and "unat p_base + unat p_size \<le> unat h_base \<or> unat h_base + unat h_size \<le> unat p_base"
    and "list_all (\<lambda>(E, c). sys_call E c) cs"
  defines "S' \<equiv> snd (run_steps sys_step S cs)"
  defines "mmio \<equiv> in_use (platform_mmio_address_space S') @ in_use (mmio_hole_address_space S')"
  shows "(\<forall>(a, n) \<in> set mmio. \<forall>r \<in> set mmio. r = (a, n) \<or> clear_of (unat a) (unat n) r) \<and>
    (\<forall>(a, n) \<in> set (in_use (io_address_space S')). unat io_base \<le> unat a \<and> unat a + unat n \<le> unat io_base + unat io_size) \<and>
    (\<forall>(a, n) \<in> set (in_use (platform_mmio_address_space S')). unat p_base \<le> unat a \<and> unat a + unat n \<le> unat p_base + unat p_size) \<and>
    (\<forall>(a, n) \<in> set (in_use (mmio_hole_address_space S')). unat h_base \<le> unat a \<and> unat a + unat n \<le> unat h_base + unat h_size)"
proof -
  define R where "R = ((unat io_base, unat io_base + unat io_size), (unat p_base, unat p_base + unat p_size),
     (unat h_base, unat h_base + unat h_size))"
  have "sys_ok R S" unfolding R_def by (rule sys_new_ok [OF assms(1-4)])
  then have "sys_ok R S'" using system.run_inv [of cs R S] assms(6) by (simp add: S'_def list_all_iff)
  then have r: "region_ok (unat io_base, unat io_base + unat io_size) (io_address_space S')"
    "region_ok (unat p_base, unat p_base + unat p_size) (platform_mmio_address_space S')"
    "region_ok (unat h_base, unat h_base + unat h_size) (mmio_hole_address_space S')"
    by (simp_all add: R_def)
  have apart: "unat h_base + unat h_size \<le> unat p_base \<or> unat p_base + unat p_size \<le> unat h_base"
    using assms(5) by blast
  have "\<forall>r \<in> set mmio. r = (a, n) \<or> clear_of (unat a) (unat n) r" if "(a, n) \<in> set mmio" for a n
  proof
    fix r assume "r \<in> set mmio"
    then show "r = (a, n) \<or> clear_of (unat a) (unat n) r"
      using that region_bounds(4) [OF r(2), of a n r] region_bounds(4) [OF r(3), of a n r]
        regions_clear [OF r(2,3) assms(5), of a n r] regions_clear [OF r(3,2) apart, of a n r]
      unfolding mmio_def set_append Un_iff by blast
  qed
  moreover note region_bounds(1,3) [OF r(1)] region_bounds(1,3) [OF r(2)] region_bounds(1,3) [OF r(3)]
  ultimately show ?thesis by (intro conjI ballI) (simp_all only: split_paired_all prod.case)
qed

theorem system_ranges_disjoint_witness:
  "\<exists>S. sys_new 0 0x10000 0x10000000 0x10000000 0x20000000 0x100000 [\<lparr>apic_base = 5, apic_irqs = 19\<rparr>] = Some S \<and>
     in_use (mmio_hole_address_space (snd (run_steps sys_step S demo_sys_ops))) = [(0x200FD000, 0x3000)] \<and>
     in_use (io_address_space (snd (run_steps sys_step S demo_sys_ops))) = [(0x3f8, 8)] \<and>
     (0x3f8 :: nat) + 8 \<le> 0x10000"
proof -
  let ?new = "sys_new 0 0x10000 0x10000000 0x10000000 0x20000000 0x100000 [\<lparr>apic_base = 5, apic_irqs = 19\<rparr>]"
  have "case ?new of None \<Rightarrow> False | Some S \<Rightarrow>
      in_use (mmio_hole_address_space (snd (run_steps sys_step S demo_sys_ops))) = [(0x200FD000, 0x3000)] \<and>
      in_use (io_address_space (snd (run_steps sys_step S demo_sys_ops))) = [(0x3f8, 8)]"
    by code_simp
  from some_case_ex [OF this] obtain S where new: "?new = Some S"
    "in_use (mmio_hole_address_space (snd (run_steps sys_step S demo_sys_ops))) = [(0x200FD000, 0x3000)]"
    "in_use (io_address_space (snd (run_steps sys_step S demo_sys_ops))) = [(0x3f8, 8)]" by blast
  have c: "list_all (\<lambda>(E, c). sys_call E c) demo_sys_ops" by code_simp
  have "(0x3f8 :: nat) + 8 \<le> 0x10000"
    using system_ranges_disjoint [OF new(1) _ _ _ _ c, unfolded new(3)] by simp
  then show ?thesis using new by blast
qed

section \<open>A single IOAPIC\<close>

lemma allocate_irq_single:
  assumes "apics G = [(b, k)]" "0 < b" "unat b + unat k < 2 ^ 32" "unat (next_irq G) = unat b + min j (unat k)"
  shows "allocate_irq G = (if j < unat k then Some (b + word_of_nat j) else None,
    G\<lparr>next_irq := b + word_of_nat (min (Suc j) (unat k))\<rparr>)"
proof -
  have sum: "unat (b + word_of_nat i) = unat b + i" if "i \<le> unat k" for i
    using that assms(3) by (simp add: unat_word_ariths unat_of_nat)
  have bk: "unat (b + k) = unat b + unat k" using assms(3) by (simp add: unat_word_ariths)
  have n: "next_irq G = b + word_of_nat (min j (unat k))"
    using assms(4) sum [of "min j (unat k)"] by (simp add: word_unat_eq_iff)
  show ?thesis
  proof (cases "j < unat k")
    case True
    then have "b \<le> next_irq G" "next_irq G < b + k" "next_irq G \<noteq> 0"
      using assms(2,4) bk by (auto simp: word_le_nat_alt word_less_nat_alt unat_eq_0 unat_gt_0)
    then show ?thesis using True n by (simp add: allocate_irq_def assms(1) algebra_simps min_def)
  next
    case False
    then have "\<not> next_irq G < b + k" using assms(4) bk by (simp add: word_less_nat_alt)
    then show ?thesis using False n by (simp add: allocate_irq_def assms(1) min_def)
  qed
qed

lemma single_ioapic_run:
  assumes "0 < b" "unat b + unat k < 2 ^ 32"
  shows "\<lbrakk>apics (gsi_allocator S) = [(b, k)]; unat (next_irq (gsi_allocator S)) = unat b + min j (unat k)\<rbrakk> \<Longrightarrow>
    fst (run_steps sys_step S (replicate n (E, AllocateIrq))) =
      map (\<lambda>i. Interrupt (if i < unat k then Some (b + word_of_nat i) else None)) [j..<j + n]"
proof (induction n arbitrary: S j)
  case (Suc n)
  define S1 where "S1 = S\<lparr>gsi_allocator := (gsi_allocator S)\<lparr>next_irq := b + word_of_nat (min (Suc j) (unat k))\<rparr>\<rparr>"
  have step: "sys_step E S AllocateIrq = (Interrupt (if j < unat k then Some (b + word_of_nat j) else None), S1)"
    using allocate_irq_single [OF Suc.prems(1) assms Suc.prems(2)] by (simp add: sys_allocate_irq_def S1_def)
  have "unat (b + word_of_nat (min (Suc j) (unat k))) = unat b + min (Suc j) (unat k)"
    using assms(2) by (simp add: unat_word_ariths unat_of_nat min_def)
  then have "fst (run_steps sys_step S1 (replicate n (E, AllocateIrq))) =
      map (\<lambda>i. Interrupt (if i < unat k then Some (b + word_of_nat i) else None)) [Suc j..<Suc j + n]"
    using Suc.prems(1) by (intro Suc.IH) (simp_all add: S1_def)
  moreover have "[j..<j + Suc n] = j # [Suc j..<Suc j + n]" by (simp add: upt_conv_Cons)
  ultimately show ?case using step by (simp add: split_beta del: sys_step.simps upt_Suc)
qed simp

text \<open>C20. With one IOAPIC whose interrupts start at \<open>b > 0\<close> (the configuration the VMM uses), successive
  requests are answered with its \<open>k\<close> interrupts in order, each once, and then refused.\<close>

theorem single_ioapic_irqs:
  assumes "sys_new io_base io_size p_base p_size h_base h_size [\<lparr>apic_base = b, apic_irqs = k\<rparr>] = Some S"
    and "0 < b" "unat b + unat k < 2 ^ 32"
  shows "fst (run_steps sys_step S (replicate n (E, AllocateIrq))) =
    map (\<lambda>i. Interrupt (if i < unat k then Some (b + word_of_nat i) else None)) [0..<n]"
proof -
  have "unat b \<le> 4294967295" using unat_u32_less [of b] by linarith
  then have "b \<le> 0xffffffff" by (simp add: word_le_nat_alt)
  then have "next_irq (gsi_allocator S) = b"
    using gsi_of_sys_new [OF assms(1)] by (auto simp: gsi_new_def gsi_add_apic_def Let_def)
  moreover have "apics (gsi_allocator S) = [(b, k)]"
    using gsi_of_sys_new [OF assms(1)] by (simp add: gsi_new_def gsi_add_apic_def Let_def)
  ultimately show ?thesis using single_ioapic_run [OF assms(2,3), of S 0 n E] by simp
qed

theorem single_ioapic_irqs_witness:
  "\<exists>S. sys_new 0 0x10000 0x10000000 0x10000000 0x20000000 0x100000 [\<lparr>apic_base = 5, apic_irqs = 2\<rparr>] = Some S \<and>
     fst (run_steps sys_step S (replicate 3 (0x1000, AllocateIrq))) =
       [Interrupt (Some 5), Interrupt (Some 6), Interrupt None]"
proof -
  let ?new = "sys_new 0 0x10000 0x10000000 0x10000000 0x20000000 0x100000 [\<lparr>apic_base = 5, apic_irqs = 2\<rparr>]"
  have "case ?new of None \<Rightarrow> False | Some S \<Rightarrow> True" by code_simp
  from some_case_ex [OF this] obtain S where S: "?new = Some S" by blast
  have r: "[0..<3] = [0, 1, 2 :: nat]" by (simp add: upt_rec)
  show ?thesis using S single_ioapic_irqs [OF S, of 3 "0x1000", unfolded r] by simp
qed

text \<open>An IOAPIC whose interrupts start at 0 loses its first one, and adjacent IOAPICs lose an
  interrupt at the border.\<close>

lemma irq_zero_lost:
  "fst (allocate_irq (gsi_new [\<lparr>apic_base = 0, apic_irqs = 24\<rparr>])) = None \<and>
   fst (allocate_irq (snd (allocate_irq (gsi_new [\<lparr>apic_base = 0, apic_irqs = 24\<rparr>])))) = Some 1"
  by code_simp

lemma border_irq_lost:
  "fst (allocate_irq (gsi_new [\<lparr>apic_base = 5, apic_irqs = 1\<rparr>, \<lparr>apic_base = 6, apic_irqs = 2\<rparr>])) = Some 6"
  by code_simp

end
