(* ===== verification/Io_Bus.thy ===== *)
theory Io_Bus
  imports Runs Address_Ranges
begin

text \<open>
  The device bus (\<^verbatim>\<open>hypervisor/vm-device/src/bus.rs\<close>), which routes port I/O and MMIO accesses to
  devices. A \<^verbatim>\<open>BusRange\<close> is compared by its base only, so the map is keyed by the base and
  keeps the length beside the device. A device is the identity of its allocation; the map holds
  weak references, and \<open>up\<close> says which devices are still alive. The devices themselves are a
  store of states with the two operations of the trait \<^verbatim>\<open>BusDevice\<close> as parameters.
\<close>

section \<open>The bus\<close>

datatype BusError = Overlap | ZeroSizedRange | MissingAddressRange

type_synonym Bus = "(u64, u64 \<times> nat) btree"

definition overlaps :: "u64 \<Rightarrow> u64 \<Rightarrow> u64 \<Rightarrow> u64 \<Rightarrow> bool" where
  "overlaps self_base self_len base len \<longleftrightarrow> self_base < base + len \<and> base < self_base + self_len"

definition bus_new :: Bus where
  "bus_new = []"

text \<open>The last entry of an ordered map at or below a key.\<close>

fun bt_last_le :: "'k::linorder \<Rightarrow> ('k, 'v) btree \<Rightarrow> ('k \<times> 'v) option" where
  "bt_last_le k [] = None"
| "bt_last_le k ((k', v) # m) = (if k' \<le> k
     then (case bt_last_le k m of None \<Rightarrow> Some (k', v) | Some kv \<Rightarrow> Some kv) else None)"

definition first_before :: "(nat \<Rightarrow> bool) \<Rightarrow> Bus \<Rightarrow> u64 \<Rightarrow> (u64 \<times> u64 \<times> nat) option" where
  "first_before up B addr = (case bt_last_le addr B of
     None \<Rightarrow> None
   | Some (base, len, dev) \<Rightarrow> if up dev then Some (base, len, dev) else None)"

definition resolve :: "(nat \<Rightarrow> bool) \<Rightarrow> Bus \<Rightarrow> u64 \<Rightarrow> (u64 \<times> u64 \<times> nat) option" where
  "resolve up B addr = (case first_before up B addr of
     None \<Rightarrow> None
   | Some (base, len, dev) \<Rightarrow>
       (let offset = addr - base in if offset < len then Some (base, offset, dev) else None))"

text \<open>Inserting under an existing key keeps the key (and with it the old length), replaces the
  device, and is reported as an overlap.\<close>

definition bus_insert :: "Bus \<Rightarrow> nat \<Rightarrow> u64 \<Rightarrow> u64 \<Rightarrow> (BusError + unit) \<times> Bus" where
  "bus_insert B device base len =
    (if len = 0 then (Inl ZeroSizedRange, B)
     else if list_ex (\<lambda>(b, l, _). overlaps b l base len) B then (Inl Overlap, B)
     else case map_of B base of
       Some (old_len, _) \<Rightarrow> (Inl Overlap, bt_insert base (old_len, device) B)
     | None \<Rightarrow> (Inr (), bt_insert base (len, device) B))"

definition bus_remove :: "Bus \<Rightarrow> u64 \<Rightarrow> u64 \<Rightarrow> (BusError + unit) \<times> Bus" where
  "bus_remove B base len =
    (if len = 0 then (Inl ZeroSizedRange, B)
     else if map_of B base = None then (Inl MissingAddressRange, B)
     else (Inr (), bt_remove base B))"

text \<open>A dead entry anywhere on the bus makes \<^verbatim>\<open>upgrade().unwrap()\<close> panic: no result.\<close>

definition remove_by_device :: "(nat \<Rightarrow> bool) \<Rightarrow> Bus \<Rightarrow> nat \<Rightarrow> ((BusError + unit) \<times> Bus) option" where
  "remove_by_device up B device =
    (if list_all (\<lambda>(_, _, d). up d) B
     then let remove_key_list = map fst (filter (\<lambda>(_, _, d). d = device) B)
          in Some (Inr (), fold bt_remove remove_key_list B)
     else None)"

definition update_range :: "(nat \<Rightarrow> bool) \<Rightarrow> Bus \<Rightarrow> u64 \<Rightarrow> u64 \<Rightarrow> u64 \<Rightarrow> u64 \<Rightarrow> (BusError + unit) \<times> Bus" where
  "update_range up B old_base old_len new_base new_len =
    (case resolve up B old_base of
       None \<Rightarrow> (Inl MissingAddressRange, B)
     | Some (_, _, device) \<Rightarrow>
         (case bus_remove B old_base old_len of
            (Inl e, B1) \<Rightarrow> (Inl e, B1)
          | (Inr _, B1) \<Rightarrow> bus_insert B1 device new_base new_len))"

text \<open>Accesses: the device's state is looked up in (and put back into) the store.\<close>

definition bus_read :: "('d \<Rightarrow> u64 \<Rightarrow> u64 \<Rightarrow> u8 list \<Rightarrow> 'd \<times> u8 list) \<Rightarrow> (nat \<Rightarrow> 'd option) \<Rightarrow> Bus \<Rightarrow> u64 \<Rightarrow> u8 list
    \<Rightarrow> (BusError + u8 list) \<times> (nat \<Rightarrow> 'd option)" where
  "bus_read rd store B addr data =
    (case resolve (\<lambda>d. store d \<noteq> None) B addr of
       None \<Rightarrow> (Inl MissingAddressRange, store)
     | Some (base, offset, dev) \<Rightarrow>
         (case rd (the (store dev)) base offset data of (s, data') \<Rightarrow> (Inr data', store(dev \<mapsto> s))))"

definition bus_write :: "('d \<Rightarrow> u64 \<Rightarrow> u64 \<Rightarrow> u8 list \<Rightarrow> 'd \<times> 'barrier option) \<Rightarrow> (nat \<Rightarrow> 'd option) \<Rightarrow> Bus \<Rightarrow> u64
    \<Rightarrow> u8 list \<Rightarrow> (BusError + 'barrier option) \<times> (nat \<Rightarrow> 'd option)" where
  "bus_write wr store B addr data =
    (case resolve (\<lambda>d. store d \<noteq> None) B addr of
       None \<Rightarrow> (Inl MissingAddressRange, store)
     | Some (base, offset, dev) \<Rightarrow>
         (case wr (the (store dev)) base offset data of (s, r) \<Rightarrow> (Inr r, store(dev \<mapsto> s))))"

section \<open>What a bus maps\<close>

definition covers :: "u64 \<times> u64 \<times> nat \<Rightarrow> u64 \<Rightarrow> bool" where
  "covers e a \<longleftrightarrow> unat (fst e) \<le> unat a \<and> unat a < unat (fst e) + unat (fst (snd e))"

definition bus_map :: "Bus \<Rightarrow> u64 \<Rightarrow> (u64 \<times> u64 \<times> nat) option" where
  "bus_map B a = find (\<lambda>e. covers e a) B"

text \<open>The entries are in order, of positive size, disjoint and end below the top of the address
  space, and their devices are among \<open>L\<close>.\<close>

definition bus_ok :: "nat set \<Rightarrow> Bus \<Rightarrow> bool" where
  "bus_ok L B \<longleftrightarrow> laid_out 0 (map (apsnd fst) B) (2 ^ 64 - 1) \<and> (\<forall>(b, l, d) \<in> set B. d \<in> L)"

lemma bus_okD:
  assumes "bus_ok L B" "(b, l, d) \<in> set B"
  shows "0 < l" "unat b + unat l < 2 ^ 64" "d \<in> L"
    "\<lbrakk>e \<in> set B; covers e a; covers (b, l, d) a\<rbrakk> \<Longrightarrow> e = (b, l, d)"
    "\<lbrakk>e \<in> set B; fst e = b\<rbrakk> \<Longrightarrow> e = (b, l, d)"
proof -
  have out: "laid_out 0 (map (apsnd fst) B) (2 ^ 64 - 1)" using assms(1) by (simp add: bus_ok_def)
  have m: "(b, l) \<in> set (map (apsnd fst) B)" using assms(2) by force
  from laid_out_bounds [OF out m] show "0 < l" "unat b + unat l < 2 ^ 64" by simp_all
  show "d \<in> L" using assms by (auto simp: bus_ok_def)
  have "distinct (map fst (map (apsnd fst) B))" by (rule laid_out_distinct [OF out])
  then have dist: "distinct (map fst B)" by (simp add: comp_def)
  show same: "e = (b, l, d)" if "e \<in> set B" "fst e = b"
  proof -
    have "(b, snd e) \<in> set B" using that by (metis prod.collapse)
    from map_of_is_SomeI [OF dist this] map_of_is_SomeI [OF dist assms(2)] show ?thesis using that by (cases e) simp
  qed
  show "e = (b, l, d)" if e: "e \<in> set B" "covers e a" "covers (b, l, d) a"
  proof -
    obtain b' l' d' where [simp]: "e = (b', l', d')" by (cases e)
    have "(b', l') \<in> set (map (apsnd fst) B)" using e(1) by force
    from laid_out_pairwise [OF out m this] have "(b', l') = (b, l)" using e by (auto simp: clear_of_def covers_def)
    then show ?thesis using same e(1) by auto
  qed
qed

lemma bus_map_None: "bus_map B a = None \<longleftrightarrow> (\<forall>e \<in> set B. \<not> covers e a)"
  unfolding bus_map_def find_None_iff by blast

lemma bus_map_SomeD: "bus_map B a = Some e \<Longrightarrow> e \<in> set B \<and> covers e a"
  by (auto simp: bus_map_def find_Some_iff)

lemma bus_map_iff:
  assumes "bus_ok L B" shows "bus_map B a = Some e \<longleftrightarrow> e \<in> set B \<and> covers e a"
proof
  assume e: "e \<in> set B \<and> covers e a"
  then obtain e' where e': "bus_map B a = Some e'" using bus_map_None [of B a] by blast
  then have "e' \<in> set B \<and> covers e' a" by (rule bus_map_SomeD)
  then have "e' = e" using bus_okD(4) [OF assms, of "fst e" "fst (snd e)" "snd (snd e)" e' a] e by simp
  then show "bus_map B a = Some e" using e' by simp
qed (rule bus_map_SomeD)

lemma bus_map_eqI:
  assumes "bus_ok L B" "\<And>a e. m a = Some e \<longleftrightarrow> e \<in> set B \<and> covers e a"
  shows "bus_map B = m"
proof
  fix a show "bus_map B a = m a"
    using assms(2) [of a] bus_map_iff [OF assms(1), of a]
    by (metis (no_types) not_None_eq)
qed

section \<open>Resolution\<close>

lemma set_bt_remove_eq: "bt_ok m \<Longrightarrow> set (bt_remove k m) = {kv \<in> set m. fst kv \<noteq> k}"
proof (induction k m rule: bt_remove.induct)
  case (2 k k' v' m)
  then have "\<forall>kv \<in> set m. fst kv \<noteq> k'" by (auto simp: bt_ok_Cons)
  then show ?case using 2 by (auto simp: bt_ok_Cons)
qed simp

lemma bt_last_le_None:
  assumes "bt_ok m" "bt_last_le k m = None" "x \<in> fst ` set m" shows "k < x"
proof (cases m)
  case (Cons kv m')
  obtain a b where kv: "kv = (a, b)" by (cases kv)
  have "k < a" using assms(2) Cons kv by (auto split: if_splits option.splits)
  moreover have "x = a \<or> a < x" using assms(1,3) Cons kv by (auto simp: bt_ok_Cons)
  ultimately show ?thesis by (auto intro: less_trans)
qed (use assms in simp)

lemma bt_last_le_Some:
  "\<lbrakk>bt_ok m; bt_last_le k m = Some (k', v)\<rbrakk> \<Longrightarrow> (k', v) \<in> set m \<and> k' \<le> k \<and> (\<forall>x \<in> fst ` set m. x \<le> k \<longrightarrow> x \<le> k')"
proof (induction k m rule: bt_last_le.induct)
  case (2 k k0 v0 m)
  show ?case
  proof (cases "bt_last_le k m")
    case None
    have "\<forall>x \<in> fst ` set m. k < x"
      using bt_last_le_None [OF _ None] 2(2) by (simp add: bt_ok_Cons)
    then show ?thesis using 2(3) None by (auto split: if_splits)
  next
    case (Some kv)
    then show ?thesis using 2 by (auto simp: bt_ok_Cons split: if_splits)
  qed
qed simp

lemma bus_ok_bt: "bus_ok L B \<Longrightarrow> bt_ok B"
proof -
  have "laid_out lo (map (apsnd fst) B) hi \<Longrightarrow> bt_ok B" for lo hi
  proof (induction B arbitrary: lo)
    case (Cons e B)
    obtain b l d where e: "e = (b, l, d)" by (cases e)
    have out: "laid_out (unat b + unat l) (map (apsnd fst) B) hi" and "0 < unat l"
      using Cons.prems e by (simp_all add: word_less_nat_alt)
    have "b < b'" if b': "b' \<in> fst ` set B" for b'
    proof -
      obtain l' where "(b', l') \<in> set (map (apsnd fst) B)" using b' by force
      from laid_out_bounds [OF out this] show ?thesis using \<open>0 < unat l\<close> by (simp add: word_less_nat_alt)
    qed
    then show ?case using Cons.IH [OF out] e by (simp add: bt_ok_Cons)
  qed simp
  then show "bus_ok L B \<Longrightarrow> bt_ok B" by (auto simp: bus_ok_def)
qed

lemma resolve_eq:
  assumes "bus_ok L B" "\<forall>d\<in>L. up d"
  shows "resolve up B a = map_option (\<lambda>(b, l, d). (b, a - b, d)) (bus_map B a)"
proof (cases "bt_last_le a B")
  case None
  have "\<not> covers e a" if "e \<in> set B" for e
    using bt_last_le_None [OF bus_ok_bt [OF assms(1)] None, of "fst e"] that
    by (auto simp: covers_def word_less_nat_alt)
  then show ?thesis using None bus_map_None [of B a] by (simp add: resolve_def first_before_def)
next
  case (Some e)
  obtain b l d where e: "e = (b, l, d)" by (cases e)
  note s = bt_last_le_Some [OF bus_ok_bt [OF assms(1)] Some [unfolded e]]
  have inB: "(b, l, d) \<in> set B" and ba: "b \<le> a" using s by simp_all
  note ok = bus_okD [OF assms(1) inB]
  have off: "a - b < l \<longleftrightarrow> covers (b, l, d) a"
    using ba by (auto simp: covers_def word_less_nat_alt word_le_nat_alt unat_sub)
  have "up d" using ok(3) assms(2) by blast
  then have r: "resolve up B a = (if covers (b, l, d) a then Some (b, a - b, d) else None)"
    using Some e off by (simp add: resolve_def first_before_def Let_def)
  show ?thesis
  proof (cases "bus_map B a")
    case None
    then show ?thesis using r inB bus_map_None by fastforce
  next
    case (Some e')
    then have e': "e' \<in> set B" "covers e' a" using bus_map_SomeD by blast+
    obtain b' l' d' where x: "e' = (b', l', d')" by (cases e')
    have "b' \<le> b" using s e' x by (force simp: covers_def word_le_nat_alt)
    have "covers (b, l, d) a"
    proof (rule ccontr)
      assume "\<not> covers (b, l, d) a"
      then have ne: "(b, l) \<noteq> (b', l')" using e' x bus_okD(5) [OF assms(1) inB, of e'] by auto
      have "clear_of (unat b') (unat l') (b, l)"
        using laid_out_pairwise [of 0 "map (apsnd fst) B" "2 ^ 64 - 1" b' l' "(b, l)"] assms(1) inB e'(1) x ne
        by (force simp: bus_ok_def)
      then show False using e' x ba \<open>b' \<le> b\<close> ok(1) \<open>\<not> covers (b, l, d) a\<close>
        by (auto simp: clear_of_def covers_def word_le_nat_alt word_less_nat_alt)
    qed
    then have "e' = (b, l, d)" using ok(4) e' by blast
    then show ?thesis using r \<open>covers (b, l, d) a\<close> Some by simp
  qed
qed

section \<open>The operations on the address map\<close>

type_synonym amap = "u64 \<Rightarrow> (u64 \<times> u64 \<times> nat) option"

definition amap_insert :: "amap \<Rightarrow> nat \<Rightarrow> u64 \<Rightarrow> u64 \<Rightarrow> (BusError + unit) \<times> amap" where
  "amap_insert m d b l =
    (if l = 0 then (Inl ZeroSizedRange, m)
     else if \<exists>a. covers (b, l, d) a \<and> m a \<noteq> None then (Inl Overlap, m)
     else (Inr (), \<lambda>a. if covers (b, l, d) a then Some (b, l, d) else m a))"

text \<open>A removal names the base of an entry; the length it passes is not compared.\<close>

definition amap_remove :: "amap \<Rightarrow> u64 \<Rightarrow> u64 \<Rightarrow> (BusError + unit) \<times> amap" where
  "amap_remove m b l =
    (if l = 0 then (Inl ZeroSizedRange, m)
     else if map_option fst (m b) = Some b then (Inr (), \<lambda>a. if m a = m b then None else m a)
     else (Inl MissingAddressRange, m))"

definition amap_remove_device :: "amap \<Rightarrow> nat \<Rightarrow> amap" where
  "amap_remove_device m d = (\<lambda>a. case m a of Some (b, l, e) \<Rightarrow> if e = d then None else m a | None \<Rightarrow> None)"

lemma covers_base: "bus_ok L B \<Longrightarrow> (b, l, d) \<in> set B \<Longrightarrow> covers (b, l, d) b"
  using bus_okD(1) by (fastforce simp: covers_def word_less_nat_alt)

lemma map_of_bus:
  assumes "bus_ok L B" shows "map_of B b = Some (l, d) \<longleftrightarrow> (b, l, d) \<in> set B"
  using distinct_bt [OF bus_ok_bt [OF assms]] by simp

lemma bus_map_base:
  assumes "bus_ok L B"
  shows "map_option fst (bus_map B b) = Some b \<longleftrightarrow> map_of B b \<noteq> None"
proof
  assume "map_option fst (bus_map B b) = Some b"
  then obtain l d where "bus_map B b = Some (b, l, d)" by auto
  then show "map_of B b \<noteq> None" using bus_map_SomeD map_of_bus [OF assms] by fastforce
next
  assume "map_of B b \<noteq> None"
  then obtain l d where "(b, l, d) \<in> set B" using map_of_bus [OF assms] by fastforce
  then show "map_option fst (bus_map B b) = Some b"
    using bus_map_iff [OF assms, of b "(b, l, d)"] covers_base [OF assms] by simp
qed

lemma overlaps_iff:
  assumes "bus_ok L B" "(b', l', d') \<in> set B" "unat b + unat l < 2 ^ 64" "0 < l"
  shows "overlaps b' l' b l \<longleftrightarrow> (\<exists>a. covers (b, l, d) a \<and> covers (b', l', d') a)"
    and "overlaps b' l' b l \<longleftrightarrow> \<not> clear_of (unat b) (unat l) (b', l')"
proof -
  note ok = bus_okD [OF assms(1,2)]
  have u: "unat (b + l) = unat b + unat l" "unat (b' + l') = unat b' + unat l'"
    using unat_add_no_wrap [of b l] unat_add_no_wrap [of b' l'] assms(3) ok(2) by simp_all
  have p: "0 < unat l" "0 < unat l'" using assms(4) ok(1) by (simp_all add: word_less_nat_alt)
  have o: "overlaps b' l' b l \<longleftrightarrow> unat b' < unat b + unat l \<and> unat b < unat b' + unat l'"
    by (simp add: overlaps_def word_less_nat_alt u)
  then show "overlaps b' l' b l \<longleftrightarrow> \<not> clear_of (unat b) (unat l) (b', l')" by (auto simp: clear_of_def)
  have "covers (b, l, d) (if b \<le> b' then b' else b) \<and> covers (b', l', d') (if b \<le> b' then b' else b)"
    if "overlaps b' l' b l"
    using that p unfolding o by (auto simp: covers_def word_le_nat_alt)
  then show "overlaps b' l' b l \<longleftrightarrow> (\<exists>a. covers (b, l, d) a \<and> covers (b', l', d') a)"
    using o by (auto simp: covers_def)
qed

lemma bus_hit_iff:
  assumes "bus_ok L B" "unat b + unat l < 2 ^ 64" "0 < l"
  shows "list_ex (\<lambda>(b', l', _). overlaps b' l' b l) B \<longleftrightarrow> (\<exists>a. covers (b, l, d) a \<and> bus_map B a \<noteq> None)"
proof
  assume "list_ex (\<lambda>(b', l', _). overlaps b' l' b l) B"
  then obtain b' l' d' where e: "(b', l', d') \<in> set B" "overlaps b' l' b l" by (auto simp: list_ex_iff)
  then obtain a where "covers (b, l, d) a" "covers (b', l', d') a"
    using overlaps_iff(1) [OF assms(1) e(1) assms(2,3)] by blast
  then show "\<exists>a. covers (b, l, d) a \<and> bus_map B a \<noteq> None" using e(1) bus_map_None by blast
next
  assume "\<exists>a. covers (b, l, d) a \<and> bus_map B a \<noteq> None"
  then obtain a e where a: "covers (b, l, d) a" "e \<in> set B" "covers e a" using bus_map_SomeD by blast
  obtain b' l' d' where e: "e = (b', l', d')" by (cases e)
  have "overlaps b' l' b l" using overlaps_iff(1) [OF assms(1) a(2) [unfolded e] assms(2,3)] a e by blast
  then show "list_ex (\<lambda>(b', l', _). overlaps b' l' b l) B" using a(2) e by (auto simp: list_ex_iff)
qed

lemma bus_insert_new:
  assumes "bus_ok L B" "unat b + unat l < 2 ^ 64" "0 < l" "d \<in> L"
    and miss: "\<not> list_ex (\<lambda>(b', l', _). overlaps b' l' b l) B"
  shows "bus_insert B d b l = (Inr (), bt_insert b (l, d) B)" "bus_ok L (bt_insert b (l, d) B)"
    "set (bt_insert b (l, d) B) = insert (b, l, d) (set B)"
proof -
  have cl: "clear_of (unat b) (unat l) (b', l')" if "(b', l', d') \<in> set B" for b' l' d'
    using overlaps_iff(2) [OF assms(1) that assms(2,3)] miss that by (auto simp: list_ex_iff)
  have b: "b \<notin> fst ` set B"
  proof
    assume "b \<in> fst ` set B"
    then obtain l' d' where "(b, l', d') \<in> set B" by force
    then show False using cl bus_okD(1) [OF assms(1), of b l' d'] assms(3)
      by (force simp: clear_of_def word_less_nat_alt)
  qed
  then have "map_of B b = None" by (simp add: map_of_eq_None_iff)
  then show "bus_insert B d b l = (Inr (), bt_insert b (l, d) B)"
    using miss assms(3) by (simp add: bus_insert_def word_gt_0)
  show set: "set (bt_insert b (l, d) B) = insert (b, l, d) (set B)" by (rule set_bt_insert_new [OF b])
  have "room 0 (map (apsnd fst) B) (2 ^ 64 - 1) (unat b) (unat l)"
    using cl assms(2) by (auto simp: room_def list_all_iff)
  then have "laid_out 0 (bt_insert b l (map (apsnd fst) B)) (2 ^ 64 - 1)"
    using laid_out_insert assms(1,3) by (simp add: bus_ok_def)
  then show "bus_ok L (bt_insert b (l, d) B)"
    using assms(1,4) set by (auto simp: bus_ok_def map_bt_insert)
qed

lemma bus_insert_refines:
  assumes "bus_ok L B" "unat b + unat l < 2 ^ 64" "d \<in> L"
  shows "bus_ok L (snd (bus_insert B d b l))"
    "amap_insert (bus_map B) d b l = apsnd bus_map (bus_insert B d b l)"
proof (atomize (full), cases "l = 0")
  case False
  then have l: "0 < l" by (simp add: word_gt_0)
  note hit = bus_hit_iff [OF assms(1,2) l, of d]
  show "bus_ok L (snd (bus_insert B d b l)) \<and> amap_insert (bus_map B) d b l = apsnd bus_map (bus_insert B d b l)"
  proof (cases "list_ex (\<lambda>(b', l', _). overlaps b' l' b l) B")
    case True
    then show ?thesis using assms(1) False hit by (simp add: bus_insert_def amap_insert_def)
  next
    case miss: False
    note new = bus_insert_new [OF assms(1,2) l assms(3) miss]
    have "bus_map (bt_insert b (l, d) B) = (\<lambda>a. if covers (b, l, d) a then Some (b, l, d) else bus_map B a)"
    proof (rule bus_map_eqI [OF new(2)])
      fix a e
      have "\<not> covers e a" if "e \<in> set B" "covers (b, l, d) a"
        using hit miss that bus_map_None [of B a] by blast
      then show "((if covers (b, l, d) a then Some (b, l, d) else bus_map B a) = Some e) \<longleftrightarrow>
          e \<in> set (bt_insert b (l, d) B) \<and> covers e a"
        unfolding new(3) using bus_map_iff [OF assms(1), of a e] by auto
    qed
    then show ?thesis using new False hit miss by (simp add: amap_insert_def)
  qed
qed (use assms in \<open>simp add: bus_insert_def amap_insert_def\<close>)

text \<open>Removing the entry at a base.\<close>

lemma bus_remove_at:
  assumes "bus_ok L B"
  shows "bus_ok L (bt_remove b B)" "set (bt_remove b B) = {e \<in> set B. fst e \<noteq> b}"
proof -
  have out: "laid_out 0 (map (apsnd fst) B) (2 ^ 64 - 1)" using assms by (simp add: bus_ok_def)
  show "bus_ok L (bt_remove b B)"
    using laid_out_remove [OF out] set_bt_remove [of b B] assms unfolding bus_ok_def map_bt_remove by blast
  show "set (bt_remove b B) = {e \<in> set B. fst e \<noteq> b}"
    by (rule set_bt_remove_eq [OF bus_ok_bt [OF assms]])
qed

lemma bus_remove_refines:
  assumes "bus_ok L B"
  shows "bus_ok L (snd (bus_remove B b l))"
    "amap_remove (bus_map B) b l = apsnd bus_map (bus_remove B b l)"
proof (atomize (full), cases "l \<noteq> 0 \<and> map_of B b \<noteq> None")
  case True
  then obtain l' d where e: "(b, l', d) \<in> set B" using map_of_bus [OF assms] by fastforce
  then have mb: "bus_map B b = Some (b, l', d)" using bus_map_iff [OF assms] covers_base [OF assms] by blast
  note rem = bus_remove_at [OF assms, of b]
  have "bus_map (bt_remove b B) = (\<lambda>a. if bus_map B a = bus_map B b then None else bus_map B a)"
  proof (rule bus_map_eqI [OF rem(1)])
    fix a x
    have "fst x = b \<longleftrightarrow> x = (b, l', d)" if "x \<in> set B" using bus_okD(5) [OF assms e that] by auto
    then show "((if bus_map B a = bus_map B b then None else bus_map B a) = Some x) \<longleftrightarrow>
        x \<in> set (bt_remove b B) \<and> covers x a"
      unfolding rem(2) mb using bus_map_iff [OF assms, of a x] by auto
  qed
  then show "bus_ok L (snd (bus_remove B b l)) \<and> amap_remove (bus_map B) b l = apsnd bus_map (bus_remove B b l)"
    using rem(1) True mb by (simp add: bus_remove_def amap_remove_def)
next
  case False
  then show "bus_ok L (snd (bus_remove B b l)) \<and> amap_remove (bus_map B) b l = apsnd bus_map (bus_remove B b l)"
    using assms bus_map_base [OF assms, of b] by (auto simp: bus_remove_def amap_remove_def)
qed

lemma bus_remove_keys:
  assumes "bus_ok L B"
  shows "bus_ok L (fold bt_remove ks B) \<and> set (fold bt_remove ks B) = {e \<in> set B. fst e \<notin> set ks}"
  using assms
proof (induction ks arbitrary: B)
  case (Cons k ks)
  then show ?case using bus_remove_at [OF Cons.prems, of k] by auto
qed simp

lemma remove_by_device_refines:
  assumes "bus_ok L B" "\<forall>d\<in>L. up d"
  shows "\<exists>B'. remove_by_device up B d = Some (Inr (), B') \<and> bus_ok L B' \<and> bus_map B' = amap_remove_device (bus_map B) d"
proof -
  define ks where "ks = map fst (filter (\<lambda>(_, _, e). e = d) B)"
  note rem = bus_remove_keys [OF assms(1), of ks]
  have keys: "fst e \<in> set ks \<longleftrightarrow> snd (snd e) = d" if e: "e \<in> set B" for e
  proof
    assume "fst e \<in> set ks"
    then obtain l where "(fst e, l, d) \<in> set B" by (auto simp: ks_def)
    from bus_okD(5) [OF assms(1) this e] show "snd (snd e) = d" by (metis snd_conv)
  qed (use e in \<open>force simp: ks_def\<close>)
  have "list_all (\<lambda>(_, _, d). up d) B" using assms by (auto simp: list_all_iff bus_ok_def)
  then have "remove_by_device up B d = Some (Inr (), fold bt_remove ks B)"
    by (simp add: remove_by_device_def ks_def)
  moreover have "bus_map (fold bt_remove ks B) = amap_remove_device (bus_map B) d"
  proof (rule bus_map_eqI)
    show "bus_ok L (fold bt_remove ks B)" using rem by simp
    fix a e
    have "amap_remove_device (bus_map B) d a = Some e \<longleftrightarrow> bus_map B a = Some e \<and> snd (snd e) \<noteq> d"
      by (cases "bus_map B a") (auto simp: amap_remove_device_def split: prod.splits)
    then show "amap_remove_device (bus_map B) d a = Some e \<longleftrightarrow> e \<in> set (fold bt_remove ks B) \<and> covers e a"
      using rem keys [of e] unfolding bus_map_iff [OF assms(1)] by blast
  qed
  ultimately show ?thesis using rem by blast
qed

section \<open>The contract over sequences of calls\<close>

datatype bus_op = Insert nat u64 u64 | Remove u64 u64 | RemoveByDevice nat | UpdateRange u64 u64 u64 u64 | Resolve u64

datatype bus_reply = Answer "BusError + unit" | Place "(u64 \<times> u64 \<times> nat) option" | Panicked

fun bus_step :: "(nat \<Rightarrow> bool) \<Rightarrow> Bus \<Rightarrow> bus_op \<Rightarrow> bus_reply \<times> Bus" where
  "bus_step up B (Insert d b l) = apfst Answer (bus_insert B d b l)"
| "bus_step up B (Remove b l) = apfst Answer (bus_remove B b l)"
| "bus_step up B (RemoveByDevice d) =
    (case remove_by_device up B d of None \<Rightarrow> (Panicked, B) | Some rB \<Rightarrow> apfst Answer rB)"
| "bus_step up B (UpdateRange ob ol nb nl) = apfst Answer (update_range up B ob ol nb nl)"
| "bus_step up B (Resolve a) = (Place (resolve up B a), B)"

text \<open>The specification acts on the map from addresses to the entry that covers them. An update
  that cannot place the new range has removed the old one.\<close>

fun amap_step :: "amap \<Rightarrow> bus_op \<Rightarrow> bus_reply \<times> amap" where
  "amap_step m (Insert d b l) = apfst Answer (amap_insert m d b l)"
| "amap_step m (Remove b l) = apfst Answer (amap_remove m b l)"
| "amap_step m (RemoveByDevice d) = (Answer (Inr ()), amap_remove_device m d)"
| "amap_step m (UpdateRange ob ol nb nl) = apfst Answer (case m ob of
      None \<Rightarrow> (Inl MissingAddressRange, m)
    | Some (_, _, d) \<Rightarrow> (case amap_remove m ob ol of
         (Inl e, m1) \<Rightarrow> (Inl e, m1) | (Inr _, m1) \<Rightarrow> amap_insert m1 d nb nl))"
| "amap_step m (Resolve a) = (Place (map_option (\<lambda>(b, l, d). (b, a - b, d)) (m a)), m)"

text \<open>The calls the contract is about: the devices of \<open>L\<close> stay alive, only they are inserted, and a
  range ends below the top of the address space.\<close>

fun bus_call :: "nat set \<Rightarrow> (nat \<Rightarrow> bool) \<Rightarrow> bus_op \<Rightarrow> bool" where
  "bus_call L up (Insert d b l) \<longleftrightarrow> (\<forall>e\<in>L. up e) \<and> d \<in> L \<and> unat b + unat l < 2 ^ 64"
| "bus_call L up (UpdateRange ob ol nb nl) \<longleftrightarrow> (\<forall>e\<in>L. up e) \<and> unat nb + unat nl < 2 ^ 64"
| "bus_call L up _ \<longleftrightarrow> (\<forall>e\<in>L. up e)"

lemma update_range_refines:
  assumes "bus_ok L B" "\<forall>d\<in>L. up d" "unat nb + unat nl < 2 ^ 64"
  shows "bus_ok L (snd (update_range up B ob ol nb nl)) \<and>
    amap_step (bus_map B) (UpdateRange ob ol nb nl) = apsnd bus_map (apfst Answer (update_range up B ob ol nb nl))"
proof (cases "bus_map B ob")
  case None
  then show ?thesis using assms(1) resolve_eq [OF assms(1,2), of ob] by (simp add: update_range_def)
next
  case (Some e)
  obtain b l d where e: "e = (b, l, d)" by (cases e)
  have d: "d \<in> L" using bus_map_SomeD [OF Some] bus_okD(3) [OF assms(1)] e by blast
  have r: "resolve up B ob = Some (b, ob - b, d)" using resolve_eq [OF assms(1,2), of ob] Some e by simp
  obtain q B1 where B1: "bus_remove B ob ol = (q, B1)" by (cases "bus_remove B ob ol")
  note rem = bus_remove_refines [OF assms(1), of ob ol, unfolded B1]
  have ok1: "bus_ok L B1" using rem(1) by simp
  show ?thesis
  proof (cases q)
    case (Inl x)
    then show ?thesis using r Some e B1 rem ok1 by (simp add: update_range_def)
  next
    case (Inr x)
    then show ?thesis using r Some e B1 rem bus_insert_refines [OF ok1 assms(3) d]
      by (cases "bus_insert B1 d nb nl") (simp add: update_range_def)
  qed
qed

interpretation bus: simulates bus_step "bus_call L" "bus_ok L" amap_step bus_map for L
proof
  fix up c B
  assume call: "bus_call L up c" and B: "bus_ok L B"
  have up: "\<forall>d\<in>L. up d" using call by (cases c) auto
  have "bus_ok L (snd (bus_step up B c)) \<and> amap_step (bus_map B) c = apsnd bus_map (bus_step up B c)"
  proof (cases c)
    case (Insert d b l)
    then show ?thesis using call bus_insert_refines [OF B, of b l d]
      by (cases "bus_insert B d b l") simp
  next
    case (Remove b l)
    then show ?thesis using bus_remove_refines [OF B, of b l] by (cases "bus_remove B b l") simp
  next
    case (RemoveByDevice d)
    then show ?thesis using remove_by_device_refines [OF B up, of d] by fastforce
  next
    case (UpdateRange ob ol nb nl)
    then show ?thesis using call update_range_refines [OF B up, of nb nl ob ol]
      by (cases "update_range up B ob ol nb nl") (simp del: amap_step.simps)
  next
    case (Resolve a)
    then show ?thesis using resolve_eq [OF B up] B by simp
  qed
  then show "bus_ok L (snd (bus_step up B c))" "amap_step (bus_map B) c = apsnd bus_map (bus_step up B c)" by blast+
qed

text \<open>C21. The bus implements a map from addresses to devices: while the devices stay alive, every
  sequence of insertions, removals, removals by device, range updates and resolutions on a new bus,
  in which every range inserted and every new range of an update ends below 2^64, answers as the
  specification on that map does, errors included, and ends in the same map. A range that reaches
  2^64 or wraps past it is not covered (see \<open>top_range_overlaps_nothing\<close>).\<close>

theorem bus_implements_map:
  assumes "\<forall>(up, c) \<in> set cs. bus_call L up c"
  shows "sim_run amap_step (\<lambda>_. None) (map snd cs) = apsnd bus_map (run_steps bus_step bus_new cs)"
proof -
  have new: "bus_ok L bus_new" "bus_map bus_new = (\<lambda>_. None)"
    by (simp_all add: bus_new_def bus_ok_def bus_map_def fun_eq_iff)
  from bus.run_simulates [OF assms new(1)] show ?thesis unfolding new(2) .
qed

definition demo_bus_ops :: "((nat \<Rightarrow> bool) \<times> bus_op) list" where
  "demo_bus_ops = map (Pair (\<lambda>d. d < 3)) [Insert 0 0x10 0x10, Insert 1 0x1f 4, Insert 1 0x20 4, Insert 2 0x30 0,
     Resolve 0x1f, Resolve 0x24, UpdateRange 0x20 4 0x100 8, Remove 0x11 1, Resolve 0x104, RemoveByDevice 0, Resolve 0x10]"

theorem bus_implements_map_witness:
  "fst (sim_run amap_step (\<lambda>_. None) (map snd demo_bus_ops)) =
     [Answer (Inr ()), Answer (Inl Overlap), Answer (Inr ()), Answer (Inl ZeroSizedRange), Place (Some (0x10, 0xf, 0)),
      Place None, Answer (Inr ()), Answer (Inl MissingAddressRange), Place (Some (0x100, 4, 1)), Answer (Inr ()), Place None]"
proof -
  have c: "\<forall>(up, c) \<in> set demo_bus_ops. bus_call {0, 1, 2} up c" by (simp add: demo_bus_ops_def)
  show ?thesis unfolding bus_implements_map [OF c] fst_apsnd by code_simp
qed

text \<open>C22. On a well-formed bus whose devices are alive, a read or write reaches exactly the device whose range covers the address, with the base
  of its range and the offset into it, changes the state of no other device, and is refused when no
  range covers the address.\<close>

theorem bus_access_reaches_owner:
  assumes "bus_ok L B" "\<forall>d\<in>L. store d \<noteq> None"
  shows "bus_read rd store B a data = (case bus_map B a of
      None \<Rightarrow> (Inl MissingAddressRange, store)
    | Some (b, l, d) \<Rightarrow> (let r = rd (the (store d)) b (a - b) data in (Inr (snd r), store(d \<mapsto> fst r)))) \<and>
    bus_write wr store B a data = (case bus_map B a of
      None \<Rightarrow> (Inl MissingAddressRange, store)
    | Some (b, l, d) \<Rightarrow> (let r = wr (the (store d)) b (a - b) data in (Inr (snd r), store(d \<mapsto> fst r))))"
  using resolve_eq [OF assms, of a]
  by (simp add: bus_read_def bus_write_def Let_def split_beta split: option.splits)

definition demo_bus :: Bus where
  "demo_bus = [(0x10, 0x10, 0), (0x20, 0x10, 1)]"

theorem bus_access_reaches_owner_witness:
  "bus_map demo_bus 0x23 = Some (0x20, 0x10, 1) \<and>
   bus_write (\<lambda>s b off data. (s @ map (Pair off) data, None :: unit option)) [0 \<mapsto> [], 1 \<mapsto> []] demo_bus 0x23 [7] =
     (Inr None, [0 \<mapsto> [], 1 \<mapsto> [], 1 \<mapsto> [(3, 7)]])"
proof -
  define store where "store = [0 :: nat \<mapsto> [] :: (u64 \<times> u8) list, 1 \<mapsto> []]"
  have ok: "bus_ok {0, 1} demo_bus" by (simp add: bus_ok_def demo_bus_def)
  have m: "bus_map demo_bus 0x23 = Some (0x20, 0x10, 1)" by code_simp
  have alive: "\<forall>d\<in>{0, 1}. store d \<noteq> None" and "store 1 = Some []" by (simp_all add: store_def)
  with bus_access_reaches_owner [OF ok alive, where a = "0x23" and data = "[7]" and
      wr = "\<lambda>s b off data. (s @ map (Pair off) data, None :: unit option)"] show ?thesis
    unfolding m store_def [symmetric] by (simp add: Let_def)
qed

section \<open>Corners\<close>

text \<open>A range update that cannot place the new range drops the device from the bus.\<close>

lemma update_range_loses_device:
  "update_range (\<lambda>_. True) demo_bus 0x20 0x10 0x18 0x10 = (Inl Overlap, [(0x10, 0x10, 0)])"
  by code_simp

text \<open>A removal with the wrong length removes the entry at the base.\<close>

lemma remove_ignores_length: "bus_remove demo_bus 0x20 1 = (Inr (), [(0x10, 0x10, 0)])"
  by code_simp

text \<open>A range that ends at the top of the address space overlaps nothing: a second device is accepted
  inside it, and an insertion at its own base fails but has replaced the device.\<close>

lemma top_range_overlaps_nothing:
  "fst (bus_insert [(0xFFFFFFFFFFFFFF00, 0x100, 0)] 1 0xFFFFFFFFFFFFFF80 0x10) = Inr () \<and>
   bus_insert [(0xFFFFFFFFFFFFFF00, 0x100, 0)] 1 0xFFFFFFFFFFFFFF00 0x100 = (Inl Overlap, [(0xFFFFFFFFFFFFFF00, 0x100, 1)])"
  by code_simp

text \<open>Removing a live device panics while any other device of the bus has been dropped.\<close>

lemma dead_device_panics: "remove_by_device (\<lambda>d. d \<noteq> 0) demo_bus 1 = None"
  by code_simp

end
