(* ===== verification/Rate_Limiter.thy ===== *)
theory Rate_Limiter
  imports Runs "HOL-Library.Log_Nat"
begin

text \<open>
  The I/O rate limiter of the hypervisor (\<^verbatim>\<open>hypervisor/rate_limiter/src/lib.rs\<close>): token buckets for
  bytes and operations and the timer that blocks the limiter. Times are nanoseconds of a monotonic
  clock; a call gets the clock readings it makes, in order. The amount of over-consumption is a
  double: doubles are rational numbers rounded to 53 significant bits (ties to even), which is what
  the operations of the code on positive values of this size do.
\<close>

section \<open>Double precision\<close>

definition round_even :: "rat \<Rightarrow> int" where
  "round_even q = (let n = \<lfloor>q\<rfloor>; d = q - of_int n in
     if d < 1 / 2 then n else if d > 1 / 2 then n + 1 else if even n then n else n + 1)"

definition binary_exponent :: "rat \<Rightarrow> int" where
  "binary_exponent q = (case quotient_of q of (a, b) \<Rightarrow>
     (let k = int (floorlog 2 (nat a)) - int (floorlog 2 (nat b)) in if 2 powi k \<le> q then k else k - 1))"

definition f64_round :: "rat \<Rightarrow> rat" where
  "f64_round q = (if q \<le> 0 then 0 else
     let e = binary_exponent q - 52 in of_int (round_even (q / 2 powi e)) * 2 powi e)"

definition f64_of_u64 :: "u64 \<Rightarrow> rat" where
  "f64_of_u64 x = f64_round (of_nat (unat x))"

definition f64_div :: "rat \<Rightarrow> rat \<Rightarrow> rat" where
  "f64_div x y = f64_round (x / y)"

definition f64_mul :: "rat \<Rightarrow> rat \<Rightarrow> rat" where
  "f64_mul x y = f64_round (x * y)"

text \<open>The cast to \<^verbatim>\<open>u64\<close> truncates and saturates.\<close>

definition u64_of_f64 :: "rat \<Rightarrow> u64" where
  "u64_of_f64 x = word_of_nat (min (nat \<lfloor>x\<rfloor>) (2 ^ 64 - 1))"

section \<open>Token buckets\<close>

definition NANOSEC_IN_ONE_MILLISEC :: u64 where
  "NANOSEC_IN_ONE_MILLISEC = 1000000"

function gcd_loop :: "u64 \<Rightarrow> u64 \<Rightarrow> u64" where
  "gcd_loop x y = (if y \<noteq> 0 then gcd_loop y (x mod y) else x)"
  by pat_completeness auto
termination
proof (relation "measure (\<lambda>(x, y). unat y)")
  fix x y :: u64
  assume "y \<noteq> 0"
  then show "((y, x mod y), (x, y)) \<in> measure (\<lambda>(x, y). unat y)"
    by (simp add: unat_mod unat_gt_0)
qed simp

declare gcd_loop.simps [simp del]

datatype BucketReduction = Failure | Success | OverConsumption rat

record TokenBucket =
  tb_size :: u64
  one_time_burst :: u64
  refill_time :: u64
  budget :: u64
  last_update :: nat
  processed_capacity :: u64
  processed_refill_time :: u64

definition tb_new :: "nat \<Rightarrow> u64 \<Rightarrow> u64 \<Rightarrow> u64 \<Rightarrow> TokenBucket option" where
  "tb_new now sz burst complete_refill_time_ms =
    (if sz = 0 \<or> complete_refill_time_ms = 0 then None
     else let complete_refill_time_ns = complete_refill_time_ms * NANOSEC_IN_ONE_MILLISEC;
              common_factor = gcd_loop sz complete_refill_time_ns
          in Some \<lparr>tb_size = sz, one_time_burst = burst, refill_time = complete_refill_time_ms, budget = sz,
               last_update = now, processed_capacity = sz div common_factor,
               processed_refill_time = complete_refill_time_ns div common_factor\<rparr>)"

text \<open>The refill and the consumption that follow the burst. \<open>t1\<close> is the reading of \<^verbatim>\<open>elapsed\<close> and
  \<open>t2\<close> the one stored; dividing by a processed refill time of 0 panics (\<open>None\<close>).\<close>

definition tb_refill :: "TokenBucket \<Rightarrow> nat \<Rightarrow> nat \<Rightarrow> TokenBucket option" where
  "tb_refill T t1 t2 =
    (if processed_refill_time T = 0 then None
     else let time_delta = word_of_nat (t1 - last_update T) :: u64;
              b = budget T + (time_delta * processed_capacity T) div processed_refill_time T
          in Some (T\<lparr>last_update := t2, budget := (if b \<ge> tb_size T then tb_size T else b)\<rparr>))"

definition tb_take :: "TokenBucket \<Rightarrow> u64 \<Rightarrow> BucketReduction \<times> TokenBucket" where
  "tb_take T tokens =
    (if tokens > budget T
     then if tokens > tb_size T
          then (OverConsumption (f64_div (f64_of_u64 (tokens - budget T)) (f64_of_u64 (tb_size T))), T\<lparr>budget := 0\<rparr>)
          else (Failure, T)
     else (Success, T\<lparr>budget := budget T - tokens\<rparr>))"

definition reduce :: "TokenBucket \<Rightarrow> nat \<times> nat \<Rightarrow> u64 \<Rightarrow> (BucketReduction \<times> TokenBucket) option" where
  "reduce T clock tokens =
    (if one_time_burst T > 0 \<and> one_time_burst T \<ge> tokens
     then Some (Success, T\<lparr>one_time_burst := one_time_burst T - tokens, last_update := fst clock\<rparr>)
     else let rest = (if one_time_burst T > 0 then tokens - one_time_burst T else tokens)
          in map_option (\<lambda>T1. tb_take T1 rest) (tb_refill (T\<lparr>one_time_burst := 0\<rparr>) (fst clock) (snd clock)))"

definition replenish :: "TokenBucket \<Rightarrow> u64 \<Rightarrow> TokenBucket" where
  "replenish T tokens =
    (if one_time_burst T > 0 then T\<lparr>one_time_burst := one_time_burst T + tokens\<rparr>
     else T\<lparr>budget := min (budget T + tokens) (tb_size T)\<rparr>)"

section \<open>The limiter\<close>

datatype TokenType = Bytes | Ops

datatype BucketUpdate = NoUpdate | Disabled | Update TokenBucket

text \<open>The timer file descriptor is the duration it was last armed with.\<close>

record RateLimiter =
  bandwidth :: "TokenBucket option"
  ops :: "TokenBucket option"
  timer_fd :: "u64 option"
  timer_active :: bool

definition TIMER_REFILL_DUR :: u64 where
  "TIMER_REFILL_DUR = 100"

text \<open>\<open>timer_ok\<close>: creating the timer and making it non-blocking succeed.\<close>

definition rl_new :: "bool \<Rightarrow> nat \<times> nat \<Rightarrow> u64 \<Rightarrow> u64 \<Rightarrow> u64 \<Rightarrow> u64 \<Rightarrow> u64 \<Rightarrow> u64 \<Rightarrow> RateLimiter option" where
  "rl_new timer_ok now bytes_total bytes_burst bytes_refill ops_total ops_burst ops_refill =
    (let bytes_token_bucket = tb_new (fst now) bytes_total bytes_burst bytes_refill;
         ops_token_bucket = tb_new (snd now) ops_total ops_burst ops_refill
     in if timer_ok then Some \<lparr>bandwidth = bytes_token_bucket, ops = ops_token_bucket, timer_fd = None, timer_active = False\<rparr>
        else None)"

text \<open>Arming the timer succeeds: the code panics when it does not.\<close>

definition activate_timer :: "RateLimiter \<Rightarrow> u64 \<Rightarrow> RateLimiter" where
  "activate_timer R dur = R\<lparr>timer_fd := Some dur, timer_active := True\<rparr>"

fun token_bucket :: "TokenType \<Rightarrow> RateLimiter \<Rightarrow> TokenBucket option" where
  "token_bucket Bytes R = bandwidth R"
| "token_bucket Ops R = ops R"

fun set_bucket :: "TokenType \<Rightarrow> TokenBucket \<Rightarrow> RateLimiter \<Rightarrow> RateLimiter" where
  "set_bucket Bytes T R = R\<lparr>bandwidth := Some T\<rparr>"
| "set_bucket Ops T R = R\<lparr>ops := Some T\<rparr>"

definition consume :: "RateLimiter \<Rightarrow> nat \<times> nat \<Rightarrow> u64 \<Rightarrow> TokenType \<Rightarrow> (BucketReduction \<times> RateLimiter) option" where
  "consume R clock tokens ty =
    (if timer_active R then Some (Failure, R)
     else case token_bucket ty R of
       None \<Rightarrow> Some (Success, R)
     | Some bucket \<Rightarrow> (case reduce bucket clock tokens of
           None \<Rightarrow> None
         | Some (Failure, T) \<Rightarrow> (let R1 = set_bucket ty T R in
             Some (Failure, if \<not> timer_active R1 then activate_timer R1 TIMER_REFILL_DUR else R1))
         | Some (Success, T) \<Rightarrow> Some (Success, set_bucket ty T R)
         | Some (OverConsumption ratio, T) \<Rightarrow>
             Some (OverConsumption ratio, activate_timer (set_bucket ty T R)
               (u64_of_f64 (f64_mul ratio (f64_of_u64 (refill_time bucket)))))))"

definition manual_replenish :: "RateLimiter \<Rightarrow> u64 \<Rightarrow> TokenType \<Rightarrow> RateLimiter" where
  "manual_replenish R tokens ty = (case token_bucket ty R of
     None \<Rightarrow> R | Some bucket \<Rightarrow> set_bucket ty (replenish bucket tokens) R)"

text \<open>The answers of the non-blocking wait on the timer. A handler that is only ever interrupted does
  not return (\<open>None\<close>).\<close>

datatype wait_result = Expired | Interrupted | WouldBlock | WaitFailed

datatype LimiterError = SpuriousRateLimiterEvent | TimerFdWaitError

fun event_handler :: "RateLimiter \<Rightarrow> wait_result list \<Rightarrow> ((LimiterError + unit) \<times> RateLimiter) option" where
  "event_handler R [] = None"
| "event_handler R (Interrupted # ws) = event_handler R ws"
| "event_handler R (WouldBlock # ws) = Some (Inl SpuriousRateLimiterEvent, R)"
| "event_handler R (WaitFailed # ws) = Some (Inl TimerFdWaitError, R)"
| "event_handler R (Expired # ws) = Some (Inr (), R\<lparr>timer_active := False\<rparr>)"

definition update_buckets :: "RateLimiter \<Rightarrow> BucketUpdate \<Rightarrow> BucketUpdate \<Rightarrow> RateLimiter" where
  "update_buckets R bytes opsu =
    (let R1 = (case bytes of Disabled \<Rightarrow> R\<lparr>bandwidth := None\<rparr> | Update tb \<Rightarrow> R\<lparr>bandwidth := Some tb\<rparr> | NoUpdate \<Rightarrow> R)
     in case opsu of Disabled \<Rightarrow> R1\<lparr>ops := None\<rparr> | Update tb \<Rightarrow> R1\<lparr>ops := Some tb\<rparr> | NoUpdate \<Rightarrow> R1)"

section \<open>The simplified fraction\<close>

lemma gcd_loop_gcd: "unat (gcd_loop x y) = gcd (unat x) (unat y)"
proof (induction x y rule: gcd_loop.induct)
  case (1 x y)
  show ?case
  proof (cases "y = 0")
    case False
    then have "unat (gcd_loop x y) = gcd (unat y) (unat x mod unat y)"
      using 1 gcd_loop.simps [of x y] by (simp add: unat_mod)
    then show ?thesis by (simp add: gcd.commute gcd_red_nat [symmetric])
  qed (simp add: gcd_loop.simps)
qed

text \<open>The invariant of a bucket: it holds at most its size, and the processed fraction is the fraction
  of the size and the refill time in nanoseconds (as the code computes it, with wrap-around).\<close>

definition tb_ok :: "TokenBucket \<Rightarrow> bool" where
  "tb_ok T \<longleftrightarrow> budget T \<le> tb_size T \<and> 0 < tb_size T \<and>
     unat (processed_capacity T) * unat (refill_time T * NANOSEC_IN_ONE_MILLISEC) =
     unat (tb_size T) * unat (processed_refill_time T) \<and> 0 < processed_capacity T \<and> 0 < refill_time T"

lemma tb_new_ok:
  assumes "tb_new now sz burst ms = Some T"
  shows "tb_ok T" "tb_size T = sz" "one_time_burst T = burst" "refill_time T = ms" "budget T = sz" "last_update T = now"
proof -
  define ns where "ns = ms * NANOSEC_IN_ONE_MILLISEC"
  define g where "g = gcd_loop sz ns"
  have sz: "sz \<noteq> 0" "ms \<noteq> 0" and T: "T = \<lparr>tb_size = sz, one_time_burst = burst, refill_time = ms, budget = sz, last_update = now,
      processed_capacity = sz div g, processed_refill_time = ns div g\<rparr>"
    using assms by (auto simp: tb_new_def Let_def g_def ns_def split: if_splits)
  have g: "unat g = gcd (unat sz) (unat ns)" by (simp add: g_def gcd_loop_gcd)
  have "unat sz div unat g * unat ns = unat sz * (unat ns div unat g)"
    by (simp add: g div_mult_swap dvd_div_mult)
  moreover have "0 < unat sz div unat g" using sz g by (simp add: unat_gt_0 div_greater_zero_iff gcd_le1_nat unsigned_eq_0_iff)
  ultimately show "tb_ok T" using sz by (simp add: tb_ok_def T ns_def [symmetric] unat_div unat_gt_0 word_less_nat_alt)
  show "tb_size T = sz" "one_time_burst T = burst" "refill_time T = ms" "budget T = sz" "last_update T = now"
    by (simp_all add: T)
qed

lemma refill_ns:
  assumes "unat ms * 1000000 < 2 ^ 64" shows "unat (ms * NANOSEC_IN_ONE_MILLISEC) = unat ms * 1000000"
  using assms by (simp add: NANOSEC_IN_ONE_MILLISEC_def unat_word_ariths)

lemma processed_fraction:
  assumes "tb_ok T" "unat (refill_time T) * 1000000 < 2 ^ 64"
  shows "delta * unat (processed_capacity T) div unat (processed_refill_time T) =
    delta * unat (tb_size T) div (unat (refill_time T) * 1000000)"
proof -
  have eq: "unat (processed_capacity T) * (unat (refill_time T) * 1000000) = unat (tb_size T) * unat (processed_refill_time T)"
    using assms(1) refill_ns [OF assms(2)] by (simp add: tb_ok_def)
  have pos: "0 < unat (processed_capacity T)" using assms(1) by (simp add: tb_ok_def word_less_nat_alt)
  have "delta * unat (processed_capacity T) div unat (processed_refill_time T) =
      unat (tb_size T) * (delta * unat (processed_capacity T)) div (unat (tb_size T) * unat (processed_refill_time T))"
    using assms(1) by (intro div_mult_mult1 [symmetric]) (simp add: tb_ok_def word_less_nat_alt)
  also have "\<dots> = unat (processed_capacity T) * (delta * unat (tb_size T)) div
      (unat (processed_capacity T) * (unat (refill_time T) * 1000000))"
    unfolding eq [symmetric] by (simp only: ac_simps)
  also have "\<dots> = delta * unat (tb_size T) div (unat (refill_time T) * 1000000)" using pos by (intro div_mult_mult1) simp
  finally show ?thesis .
qed

text \<open>C23. A refill adds the documented amount: a bucket whose invariant holds (every new bucket, and
  every bucket of a limiter after any calls), refilled \<open>t1 - last_update\<close> nanoseconds after its last
  update, holds afterwards \<open>elapsed * size / (refill_time * 10^6)\<close> tokens more, rounded down, and at
  most its size; nothing else of it changes but the time of the update. This is for numbers that
  fit: the refill time in nanoseconds, the elapsed time times the simplified capacity, and the
  budget with the amount added are below 2^64 (\<open>long_idle_refills_nothing\<close> and
  \<open>refill_time_wraps_to_zero\<close> show what happens otherwise).\<close>

theorem refill_exact:
  assumes ok: "tb_ok T" and ms: "unat (refill_time T) * 1000000 < 2 ^ 64"
    and fits: "(t1 - last_update T) * unat (processed_capacity T) < 2 ^ 64"
      "unat (budget T) + (t1 - last_update T) * unat (tb_size T) div (unat (refill_time T) * 1000000) < 2 ^ 64"
  shows "tb_refill T t1 t2 = Some (T\<lparr>last_update := t2, budget := word_of_nat (min (unat (tb_size T))
    (unat (budget T) + (t1 - last_update T) * unat (tb_size T) div (unat (refill_time T) * 1000000)))\<rparr>)"
proof -
  define d where "d = t1 - last_update T"
  define add where "add = (word_of_nat d * processed_capacity T) div processed_refill_time T"
  have ns: "0 < unat (refill_time T) * 1000000" using ok by (simp add: tb_ok_def word_less_nat_alt)
  have eq: "unat (processed_capacity T) * (unat (refill_time T) * 1000000) = unat (tb_size T) * unat (processed_refill_time T)"
    and pos: "0 < unat (processed_capacity T)"
    using ok refill_ns [OF ms] by (simp_all add: tb_ok_def word_less_nat_alt)
  then have "0 < unat (tb_size T) * unat (processed_refill_time T)" using ns by (metis nat_0_less_mult_iff)
  with pos have pos: "0 < unat (processed_capacity T)" "0 < unat (processed_refill_time T)" by auto
  have "d \<le> d * unat (processed_capacity T)" using pos(1) by simp
  then have "d < 2 ^ 64" using fits(1) by (simp only: d_def [symmetric])
  then have d: "unat (word_of_nat d :: u64) = d" by (simp add: unat_of_nat)
  have "unat (word_of_nat d * processed_capacity T) = d * unat (processed_capacity T)"
    using fits(1) d by (simp add: unat_word_ariths d_def)
  then have a: "unat add = d * unat (tb_size T) div (unat (refill_time T) * 1000000)"
    unfolding add_def unat_div using processed_fraction [OF ok ms, of d] by simp
  then have b: "unat (budget T + add) = unat (budget T) + unat add"
    using fits(2) by (intro unat_add_no_wrap) (simp add: d_def)
  have r: "tb_refill T t1 t2 = Some (T\<lparr>last_update := t2,
      budget := (if budget T + add \<ge> tb_size T then tb_size T else budget T + add)\<rparr>)"
    using pos(2) by (simp add: tb_refill_def Let_def d_def add_def unat_gt_0)
  have "(if budget T + add \<ge> tb_size T then tb_size T else budget T + add) =
      word_of_nat (min (unat (tb_size T)) (unat (budget T) + unat add))"
    using b by (auto simp: word_le_nat_alt min_def b [symmetric])
  then show ?thesis unfolding r a d_def by (rule arg_cong)
qed

text \<open>C23, applied: a bucket of 1500 tokens per second that is empty, 5 ms after its last update.\<close>

theorem refill_exact_witness:
  "\<exists>T. tb_new 0 1500 10 1000 = Some T \<and> tb_refill (T\<lparr>budget := 0\<rparr>) 5000000 5000001 =
     Some (T\<lparr>budget := 7, last_update := 5000001\<rparr>)"
proof -
  have "case tb_new 0 1500 10 1000 of None \<Rightarrow> False | Some T \<Rightarrow> processed_capacity T = 3" by code_simp
  from some_case_ex [OF this] obtain T where T: "tb_new 0 1500 10 1000 = Some T" "processed_capacity T = 3" by blast
  note new = tb_new_ok [OF T(1)]
  have "tb_ok (T\<lparr>budget := 0\<rparr>)" using new(1) by (simp add: tb_ok_def)
  from refill_exact [OF this, of 5000000 5000001] T show ?thesis by (simp add: new)
qed

section \<open>One reduction\<close>

definition held :: "TokenBucket \<Rightarrow> nat" where
  "held T = unat (one_time_burst T) + unat (budget T)"

lemma unat_add_le: "unat (a + b) \<le> unat a + unat (b :: u64)"
  by (simp add: unat_word_ariths)

lemma unat_mult_le: "unat (a * b) \<le> unat a * unat (b :: u64)"
  by (simp add: unat_word_ariths)

lemma unat_word_of_nat_le: "unat (word_of_nat n :: u64) \<le> n"
  by (simp add: unat_of_nat)

text \<open>A refill adds at most the elapsed share; nothing it computes can wrap upwards.\<close>

lemma tb_refill_bound:
  assumes "tb_refill T t1 t2 = Some T'" "tb_ok T"
  shows "tb_ok T'" "last_update T' = t2" "tb_size T' = tb_size T" "one_time_burst T' = one_time_burst T"
    "processed_capacity T' = processed_capacity T" "processed_refill_time T' = processed_refill_time T"
    "unat (budget T') * unat (processed_refill_time T) \<le>
     unat (budget T) * unat (processed_refill_time T) + (t1 - last_update T) * unat (processed_capacity T)"
proof -
  define p where "p = processed_refill_time T"
  define add where "add = (word_of_nat (t1 - last_update T) * processed_capacity T) div p"
  define b where "b = (if budget T + add \<ge> tb_size T then tb_size T else budget T + add)"
  have T': "T' = T\<lparr>last_update := t2, budget := b\<rparr>"
    using assms(1) by (auto simp: tb_refill_def Let_def b_def add_def p_def split: if_splits)
  show "tb_ok T'" using assms(2) by (auto simp: T' tb_ok_def b_def)
  show "last_update T' = t2" "tb_size T' = tb_size T" "one_time_burst T' = one_time_burst T"
    "processed_capacity T' = processed_capacity T" "processed_refill_time T' = processed_refill_time T"
    by (simp_all add: T')
  have "unat add * unat p \<le> unat (word_of_nat (t1 - last_update T) * processed_capacity T)"
    by (simp add: add_def unat_div)
  also have "\<dots> \<le> unat (word_of_nat (t1 - last_update T) :: u64) * unat (processed_capacity T)" by (rule unat_mult_le)
  also have "\<dots> \<le> (t1 - last_update T) * unat (processed_capacity T)"
    by (intro mult_right_mono unat_word_of_nat_le) simp
  finally have a: "unat add * unat p \<le> (t1 - last_update T) * unat (processed_capacity T)" .
  have "unat b \<le> unat (budget T + add)" by (auto simp: b_def word_le_nat_alt)
  also have "\<dots> \<le> unat (budget T) + unat add" by (rule unat_add_le)
  finally have "unat b * unat p \<le> (unat (budget T) + unat add) * unat p" by (rule mult_right_mono) simp
  then show "unat (budget T') * unat (processed_refill_time T) \<le>
     unat (budget T) * unat (processed_refill_time T) + (t1 - last_update T) * unat (processed_capacity T)"
    using a by (simp add: T' p_def [symmetric] algebra_simps)
qed

lemma tb_take_bound:
  assumes "tb_take T tokens = (r, T')" "tb_ok T" "tokens \<le> tb_size T"
  shows "tb_ok T'" "last_update T' = last_update T" "tb_size T' = tb_size T" "one_time_burst T' = one_time_burst T"
    "processed_capacity T' = processed_capacity T" "processed_refill_time T' = processed_refill_time T"
    "r = Success \<or> r = Failure"
    "unat (budget T') + (if r = Success then unat tokens else 0) = unat (budget T)"
proof -
  have c: "(r, T') = (if tokens > budget T then (Failure, T) else (Success, T\<lparr>budget := budget T - tokens\<rparr>))"
    using assms(1,3) by (simp add: tb_take_def split: if_splits)
  have "budget T - tokens \<le> tb_size T" if "tokens \<le> budget T"
    using that assms(2) by (simp add: tb_ok_def word_le_nat_alt unat_sub le_diff_conv)
  then show "tb_ok T'" using c assms(2) by (auto simp: tb_ok_def not_less split: if_splits)
  show "last_update T' = last_update T" "tb_size T' = tb_size T" "one_time_burst T' = one_time_burst T"
    "processed_capacity T' = processed_capacity T" "processed_refill_time T' = processed_refill_time T"
    "r = Success \<or> r = Failure"
    using c by (auto split: if_splits)
  show "unat (budget T') + (if r = Success then unat tokens else 0) = unat (budget T)"
    using c by (auto simp: not_less unat_sub word_le_nat_alt split: if_splits)
qed

lemma reduce_bound:
  assumes "reduce T (t1, t2) tokens = Some (r, T')" "tb_ok T" "tokens \<le> tb_size T" "t1 \<le> t2"
  shows "tb_ok T' \<and> tb_size T' = tb_size T \<and> (last_update T' = t1 \<or> last_update T' = t2) \<and> (r = Success \<or> r = Failure) \<and>
    processed_capacity T' = processed_capacity T \<and> processed_refill_time T' = processed_refill_time T \<and>
    (held T' + (if r = Success then unat tokens else 0)) * unat (processed_refill_time T) \<le>
     held T * unat (processed_refill_time T) + (t1 - last_update T) * unat (processed_capacity T)"
proof (cases "one_time_burst T > 0 \<and> one_time_burst T \<ge> tokens")
  case True
  then have c: "r = Success" "T' = T\<lparr>one_time_burst := one_time_burst T - tokens, last_update := t1\<rparr>"
    using assms(1) by (auto simp: reduce_def)
  have "held T' + unat tokens = held T" using True by (simp add: c held_def unat_sub word_le_nat_alt)
  then show ?thesis
    using assms(2) c by (simp add: tb_ok_def)
next
  case False
  define rest where "rest = (if one_time_burst T > 0 then tokens - one_time_burst T else tokens)"
  have rest: "unat rest + unat (one_time_burst T) = unat tokens"
    if "one_time_burst T > 0" using False that by (simp add: rest_def unat_sub word_le_nat_alt)
  have z: "rest = tokens" "unat (one_time_burst T) = 0" if "\<not> one_time_burst T > 0" using that by (simp_all add: rest_def word_gt_0)
  have le: "unat tokens \<le> unat (one_time_burst T) + unat rest" "unat rest \<le> unat tokens"
    using rest z by (cases "one_time_burst T > 0"; simp)+
  obtain T1 where T1: "tb_refill (T\<lparr>one_time_burst := 0\<rparr>) t1 t2 = Some T1" "tb_take T1 rest = (r, T')"
    using assms(1) False by (auto simp: reduce_def Let_def rest_def)
  note re = tb_refill_bound [OF T1(1)]
  have ok1: "tb_ok T1" using assms(2) by (intro re(1)) (simp add: tb_ok_def)
  have "tb_ok (T\<lparr>one_time_burst := 0\<rparr>)" using assms(2) by (simp add: tb_ok_def)
  note re = tb_refill_bound [OF T1(1) this]
  have "rest \<le> tb_size T1" using le(2) assms(3) re(3) by (simp add: word_le_nat_alt)
  note tk = tb_take_bound [OF T1(2) ok1 this]
  have "held T' + (if r = Success then unat tokens else 0) \<le> unat (one_time_burst T) + unat (budget T1)"
    using tk(8) tk(4) re(4) le(1) by (auto simp: held_def split: if_splits)
  then have "(held T' + (if r = Success then unat tokens else 0)) * unat (processed_refill_time T) \<le>
      (unat (one_time_burst T) + unat (budget T1)) * unat (processed_refill_time T)" by (rule mult_right_mono) simp
  then show ?thesis
    using re tk by (simp add: held_def algebra_simps)
qed

section \<open>Sequences of calls\<close>

datatype limiter_op = Consume u64 TokenType | Event "wait_result list" | ManualReplenish u64 TokenType
  | UpdateBuckets BucketUpdate BucketUpdate

datatype limiter_reply = Reduced BucketReduction | Handled "LimiterError + unit" | Done | NoReturn

fun limiter_step :: "nat \<times> nat \<Rightarrow> RateLimiter \<Rightarrow> limiter_op \<Rightarrow> limiter_reply \<times> RateLimiter" where
  "limiter_step clock R (Consume tokens ty) =
    (case consume R clock tokens ty of None \<Rightarrow> (NoReturn, R) | Some (r, R1) \<Rightarrow> (Reduced r, R1))"
| "limiter_step clock R (Event ws) =
    (case event_handler R ws of None \<Rightarrow> (NoReturn, R) | Some (r, R1) \<Rightarrow> (Handled r, R1))"
| "limiter_step clock R (ManualReplenish tokens ty) = (Done, manual_replenish R tokens ty)"
| "limiter_step clock R (UpdateBuckets b u) = (Done, update_buckets R b u)"

text \<open>The tokens of one type that a run lets through.\<close>

fun admitted :: "TokenType \<Rightarrow> limiter_reply list \<Rightarrow> limiter_op list \<Rightarrow> nat" where
  "admitted ty (r # rs) (Consume tokens ty' # cs) =
    (if ty' = ty \<and> r = Reduced Success then unat tokens else 0) + admitted ty rs cs"
| "admitted ty (r # rs) (c # cs) = admitted ty rs cs"
| "admitted ty _ _ = 0"

text \<open>The clock does not run backwards, and the last reading of a run.\<close>

fun clock_ok :: "nat \<Rightarrow> ((nat \<times> nat) \<times> limiter_op) list \<Rightarrow> bool" where
  "clock_ok t [] \<longleftrightarrow> True"
| "clock_ok t (((t1, t2), c) # cs) \<longleftrightarrow> t \<le> t1 \<and> t1 \<le> t2 \<and> clock_ok t2 cs"

fun clock_end :: "nat \<Rightarrow> ((nat \<times> nat) \<times> limiter_op) list \<Rightarrow> nat" where
  "clock_end t [] = t"
| "clock_end t (((t1, t2), c) # cs) = clock_end t2 cs"

text \<open>Runs without manual changes, whose requests of a type are at most a bucket's size.\<close>

fun plain_call :: "TokenType \<Rightarrow> u64 \<Rightarrow> limiter_op \<Rightarrow> bool" where
  "plain_call ty sz (Consume tokens ty') \<longleftrightarrow> ty' = ty \<longrightarrow> tokens \<le> sz"
| "plain_call ty sz (Event _) \<longleftrightarrow> True"
| "plain_call ty sz _ \<longleftrightarrow> False"

lemma clock_end_le: "clock_ok t cs \<Longrightarrow> t \<le> clock_end t cs"
  by (induction t cs rule: clock_ok.induct) auto

lemma event_handler_bucket: "event_handler R ws = Some (r, R1) \<Longrightarrow> token_bucket ty R1 = token_bucket ty R"
  by (induction R ws rule: event_handler.induct; cases ty) auto

lemma token_bucket_simps [simp]:
  "token_bucket ty (set_bucket ty T R) = Some T"
  "ty \<noteq> ty' \<Longrightarrow> token_bucket ty (set_bucket ty' T R) = token_bucket ty R"
  "token_bucket ty (activate_timer R d) = token_bucket ty R"
  by (cases ty; cases ty'; simp add: activate_timer_def)+

text \<open>One step: what the bucket of a type holds and lets through.\<close>

lemma limiter_step_bound:
  assumes "limiter_step (t1, t2) R c = (r, R1)" "plain_call ty (tb_size T) c" "token_bucket ty R = Some T" "tb_ok T" "t1 \<le> t2"
    "last_update T \<le> t1"
  shows "\<exists>T1. token_bucket ty R1 = Some T1 \<and> tb_ok T1 \<and> tb_size T1 = tb_size T \<and> last_update T1 \<le> t2 \<and>
    processed_capacity T1 = processed_capacity T \<and> processed_refill_time T1 = processed_refill_time T \<and>
    last_update T \<le> last_update T1 \<and>
    (held T1 + admitted ty [r] [c]) * unat (processed_refill_time T) \<le>
     held T * unat (processed_refill_time T) + (last_update T1 - last_update T) * unat (processed_capacity T)"
proof -
  have same: ?thesis if "token_bucket ty R1 = Some T" "admitted ty [r] [c] = 0"
    using that assms(4-6) by auto
  show ?thesis
  proof (cases c)
    case (Event ws)
    have "token_bucket ty R1 = Some T"
      using assms(1,3) Event event_handler_bucket [of R ws _ _ ty] by (auto split: option.splits)
    then show ?thesis using same Event by simp
  next
    case (Consume tokens ty')
    show ?thesis
    proof (cases "timer_active R \<or> ty' \<noteq> ty \<or> reduce T (t1, t2) tokens = None")
      case True
      have "token_bucket ty R1 = Some T \<and> (ty' = ty \<longrightarrow> r \<noteq> Reduced Success)"
        using True assms(1,3) Consume
        by (cases "ty' = ty") (auto simp: consume_def Let_def split: option.splits prod.splits BucketReduction.splits if_splits)
      then have "token_bucket ty R1 = Some T" "admitted ty [r] [c] = 0" using Consume by auto
      then show ?thesis by (rule same)
    next
      case False
      then obtain q T1 where q: "reduce T (t1, t2) tokens = Some (q, T1)" "\<not> timer_active R" "ty' = ty" by auto
      have "tokens \<le> tb_size T" using assms(2) Consume q(3) by simp
      note b = reduce_bound [OF q(1) assms(4) this assms(5)]
      have R1: "token_bucket ty R1 = Some T1" "r = Reduced q"
        using assms(1,3) Consume q b
        by (auto simp: consume_def Let_def split: BucketReduction.splits if_splits)
      have le: "(t1 - last_update T) * unat (processed_capacity T) \<le>
          (last_update T1 - last_update T) * unat (processed_capacity T)"
        using b assms(5) by (intro mult_right_mono) auto
      have adm: "admitted ty [Reduced q] [c] = (if q = Success then unat tokens else 0)"
        using Consume q(3) by simp
      have "(held T1 + admitted ty [r] [c]) * unat (processed_refill_time T) \<le>
          held T * unat (processed_refill_time T) + (last_update T1 - last_update T) * unat (processed_capacity T)"
        unfolding R1(2) adm using b le by (elim conjE) linarith
      moreover have "last_update T \<le> last_update T1" "last_update T1 \<le> t2" using b assms(5,6) by auto
      ultimately show ?thesis using b R1(1) by blast
    qed
  qed (use assms(2) in auto)
qed

lemma admitted_Cons: "admitted ty (r # rs) (c # cs) = admitted ty [r] [c] + admitted ty rs cs"
  by (cases c) auto

lemma limiter_run_bound:
  "\<lbrakk>token_bucket ty R = Some T; tb_ok T; last_update T \<le> t; clock_ok t cs;
     list_all (\<lambda>(E, c). plain_call ty (tb_size T) c) cs\<rbrakk> \<Longrightarrow>
   admitted ty (fst (run_steps limiter_step R cs)) (map snd cs) * unat (processed_refill_time T) \<le>
     held T * unat (processed_refill_time T) + (clock_end t cs - last_update T) * unat (processed_capacity T)"
proof (induction cs arbitrary: R T t)
  case (Cons Ec cs)
  obtain t1 t2 c where Ec: "Ec = ((t1, t2), c)" by (cases Ec) auto
  obtain r R1 where s: "limiter_step (t1, t2) R c = (r, R1)" by fastforce
  have t: "t \<le> t1" "t1 \<le> t2" "clock_ok t2 cs" "plain_call ty (tb_size T) c" "last_update T \<le> t1"
    using Cons.prems Ec by auto
  obtain T1 where T1: "token_bucket ty R1 = Some T1" "tb_ok T1" "tb_size T1 = tb_size T" "last_update T1 \<le> t2"
      "processed_capacity T1 = processed_capacity T" "processed_refill_time T1 = processed_refill_time T"
      "last_update T \<le> last_update T1"
    and b: "(held T1 + admitted ty [r] [c]) * unat (processed_refill_time T) \<le>
     held T * unat (processed_refill_time T) + (last_update T1 - last_update T) * unat (processed_capacity T)"
    using limiter_step_bound [OF s t(4) Cons.prems(1,2) t(2,5)] by blast
  define later where "later = admitted ty (fst (run_steps limiter_step R1 cs)) (map snd cs)"
  have "later * unat (processed_refill_time T) \<le>
      held T1 * unat (processed_refill_time T) + (clock_end t2 cs - last_update T1) * unat (processed_capacity T)"
    using Cons.IH [OF T1(1,2,4) t(3)] Cons.prems(5) T1(3,5,6) by (simp add: later_def)
  moreover have "(clock_end t2 cs - last_update T1) * unat (processed_capacity T) +
      (last_update T1 - last_update T) * unat (processed_capacity T) =
      (clock_end t2 cs - last_update T) * unat (processed_capacity T)"
    using T1(4,7) clock_end_le [OF t(3)] by (simp add: add_mult_distrib [symmetric])
  moreover have "admitted ty (fst (run_steps limiter_step R (Ec # cs))) (map snd (Ec # cs)) = admitted ty [r] [c] + later"
    unfolding later_def using s Ec admitted_Cons [of ty r "fst (run_steps limiter_step R1 cs)" c "map snd cs"]
    by (simp add: split_beta del: limiter_step.simps admitted.simps)
  ultimately show ?case using b Ec by (simp add: add_mult_distrib)
qed simp

text \<open>C24. The rate limit: over any run of consume calls and timer events in which no request exceeds the
  bucket's size, the tokens let through are at most the initial burst and size plus the share of the
  elapsed time, \<open>elapsed * size / refill_time\<close>. The refill time of the bucket, in nanoseconds, must be
  below 2^64: when that product wraps the bucket refills faster. The refills themselves may
  overflow, however long the gaps are, since what wraps there only lowers the budget.\<close>

theorem rate_is_limited:
  assumes "token_bucket ty R = Some T" "tb_new now sz burst ms = Some T" "unat ms * 1000000 < 2 ^ 64"
    and "clock_ok now cs" "list_all (\<lambda>(E, c). plain_call ty sz c) cs"
  defines "ns \<equiv> unat ms * 1000000"
  shows "admitted ty (fst (run_steps limiter_step R cs)) (map snd cs) * ns \<le>
    (unat burst + unat sz) * ns + (clock_end now cs - now) * unat sz"
proof -
  note new = tb_new_ok [OF assms(2)]
  define p where "p = unat (processed_refill_time T)"
  define k where "k = unat (processed_capacity T)"
  define A where "A = admitted ty (fst (run_steps limiter_step R cs)) (map snd cs)"
  have eq: "k * ns = unat sz * p" using new(1,2,4) refill_ns [OF assms(3)] by (simp add: tb_ok_def k_def p_def ns_def)
  have k: "0 < k" using new(1) by (simp add: tb_ok_def k_def word_less_nat_alt)
  have "A * p \<le> (unat burst + unat sz) * p + (clock_end now cs - now) * k"
    using limiter_run_bound [OF assms(1) new(1), of now cs] assms(4,5) new
    by (simp add: A_def p_def k_def held_def)
  then have "unat sz * (A * p) \<le> unat sz * ((unat burst + unat sz) * p + (clock_end now cs - now) * k)"
    by (rule mult_left_mono) simp
  then have "A * (unat sz * p) \<le> (unat burst + unat sz) * (unat sz * p) + (clock_end now cs - now) * (unat sz * k)"
    by (simp only: distrib_left ac_simps)
  then have "k * (A * ns) \<le> k * ((unat burst + unat sz) * ns + (clock_end now cs - now) * unat sz)"
    unfolding eq [symmetric] by (simp only: distrib_left ac_simps)
  then show ?thesis using k by (simp add: A_def [symmetric])
qed

definition demo_limiter_ops :: "((nat \<times> nat) \<times> limiter_op) list" where
  "demo_limiter_ops = [((10, 11), Consume 999990 Bytes), ((20, 21), Consume 30 Bytes), ((22, 22), Consume 1 Ops),
     ((35, 35), Event [Interrupted, Expired]), ((40, 41), Consume 30 Bytes)]"

theorem rate_is_limited_witness:
  "\<exists>R T. rl_new True (0, 0) 1000000 0 1 0 0 0 = Some R \<and> token_bucket Bytes R = Some T \<and>
     fst (run_steps limiter_step R demo_limiter_ops) =
       [Reduced Success, Reduced Failure, Reduced Failure, Handled (Inr ()), Reduced Success] \<and>
     (999990 + 30 :: nat) * 1000000 \<le> 1000000 * 1000000 + 41 * 1000000"
proof -
  have "case tb_new 0 1000000 0 1 of None \<Rightarrow> False | Some T \<Rightarrow>
      (case rl_new True (0, 0) 1000000 0 1 0 0 0 of None \<Rightarrow> False | Some R \<Rightarrow> token_bucket Bytes R = Some T \<and>
      fst (run_steps limiter_step R demo_limiter_ops) =
       [Reduced Success, Reduced Failure, Reduced Failure, Handled (Inr ()), Reduced Success])" by code_simp
  from some_case_ex [OF this] obtain T where T: "tb_new 0 1000000 0 1 = Some T"
    "case rl_new True (0, 0) 1000000 0 1 0 0 0 of None \<Rightarrow> False | Some R \<Rightarrow> token_bucket Bytes R = Some T \<and>
      fst (run_steps limiter_step R demo_limiter_ops) =
       [Reduced Success, Reduced Failure, Reduced Failure, Handled (Inr ()), Reduced Success]" by blast
  from some_case_ex [OF T(2)] obtain R where R: "rl_new True (0, 0) 1000000 0 1 0 0 0 = Some R" "token_bucket Bytes R = Some T" and
    r: "fst (run_steps limiter_step R demo_limiter_ops) =
       [Reduced Success, Reduced Failure, Reduced Failure, Handled (Inr ()), Reduced Success]" by blast
  have c: "clock_ok 0 demo_limiter_ops" "list_all (\<lambda>(E, c). plain_call Bytes 1000000 c) demo_limiter_ops"
    "clock_end 0 demo_limiter_ops = 41" "map snd demo_limiter_ops = [Consume 999990 Bytes, Consume 30 Bytes, Consume 1 Ops,
     Event [Interrupted, Expired], Consume 30 Bytes]" by (simp_all add: demo_limiter_ops_def)
  have "(999990 + 30 :: nat) * 1000000 \<le> 1000000 * 1000000 + 41 * 1000000"
    using rate_is_limited [OF R(2) T(1) _ c(1,2)] unfolding r c(3,4) by simp
  then show ?thesis using R r by blast
qed

text \<open>C25. A request of at most the bucket's size is not refused for ever: once the burst is used up and
  a refill time has passed since the last update, it succeeds, from a full bucket. The product of the
  elapsed time and the processed capacity and the bucket's size are below 2^63, and the refill time
  in nanoseconds is below 2^64.\<close>

theorem refill_admits:
  assumes "tb_ok T" "one_time_burst T = 0" "tokens \<le> tb_size T"
    and "unat (refill_time T) * 1000000 < 2 ^ 64" "unat (refill_time T) * 1000000 \<le> t1 - last_update T"
    and "(t1 - last_update T) * unat (processed_capacity T) < 2 ^ 63" "unat (tb_size T) < 2 ^ 63"
  shows "\<exists>T'. reduce T (t1, t2) tokens = Some (Success, T') \<and> budget T' = tb_size T - tokens"
proof -
  define d where "d = t1 - last_update T"
  define p where "p = unat (processed_refill_time T)"
  define k where "k = unat (processed_capacity T)"
  define sz where "sz = unat (tb_size T)"
  note ok = assms(1) [unfolded tb_ok_def refill_ns [OF assms(4)], folded p_def k_def sz_def]
  have pos: "0 < k" "0 < sz" "0 < unat (refill_time T) * 1000000" using ok by (simp_all add: k_def sz_def word_less_nat_alt)
  have eq: "k * (unat (refill_time T) * 1000000) = sz * p" using ok by blast
  then have p: "0 < p" using pos by (metis gr0I mult_eq_0_iff not_gr_zero)
  have "d \<le> d * k" using pos(1) by simp
  from this assms(6) [folded d_def k_def] have d: "d < 2 ^ 63" by (rule le_less_trans)
  have "unat (word_of_nat d :: u64) = d" using d by (simp add: unat_of_nat)
  then have mul: "unat (word_of_nat d * processed_capacity T) = d * k"
    using assms(6) by (simp add: unat_word_ariths d_def k_def)
  have "sz * p \<le> d * k" using eq assms(5) by (metis d_def mult.commute mult_le_mono1)
  then have ge: "sz \<le> d * k div p" using p by (simp add: less_eq_div_iff_mult_less_eq)
  have "d * k div p < 2 ^ 63"
    by (rule le_less_trans [OF div_le_dividend assms(6) [folded d_def k_def]])
  moreover have "unat (budget T) \<le> sz" using ok by (simp add: sz_def word_le_nat_alt)
  moreover have "sz < 2 ^ 63" using assms(7) by (simp add: sz_def)
  moreover have "(2 :: nat) ^ 64 = 2 ^ 63 + 2 ^ 63" by simp
  ultimately have lt: "unat (budget T) + d * k div p < 2 ^ 64" by linarith
  have "unat (budget T + word_of_nat d * processed_capacity T div processed_refill_time T) = unat (budget T) + d * k div p"
    using lt by (simp add: unat_word_ariths(1) unat_div mul p_def [symmetric])
  then have "tb_size T \<le> budget T + word_of_nat d * processed_capacity T div processed_refill_time T"
    using ge by (simp add: word_le_nat_alt sz_def)
  moreover have "processed_refill_time T \<noteq> 0" using p by (auto simp: p_def)
  ultimately have "tb_refill (T\<lparr>one_time_burst := 0\<rparr>) t1 t2 = Some (T\<lparr>one_time_burst := 0, last_update := t2, budget := tb_size T\<rparr>)"
    by (simp add: tb_refill_def Let_def d_def)
  then show ?thesis using assms(2,3) by (simp add: reduce_def tb_take_def not_less)
qed

theorem refill_admits_witness:
  "\<exists>T. tb_new 0 1000 0 1 = Some T \<and>
    (\<exists>T'. reduce (T\<lparr>budget := 0\<rparr>) (2000000, 2000001) 700 = Some (Success, T') \<and> budget T' = 300)"
proof -
  have "case tb_new 0 1000 0 1 of None \<Rightarrow> False | Some T \<Rightarrow> processed_capacity T = 1" by code_simp
  from some_case_ex [OF this] obtain T where T: "tb_new 0 1000 0 1 = Some T" "processed_capacity T = 1" by blast
  note new = tb_new_ok [OF T(1)]
  have ok: "tb_ok (T\<lparr>budget := 0\<rparr>)" using new(1) by (simp add: tb_ok_def)
  from refill_admits [OF ok, of 700 2000000 2000001] new T show ?thesis by auto
qed

section \<open>The buckets' invariant\<close>

definition rl_ok :: "RateLimiter \<Rightarrow> bool" where
  "rl_ok R \<longleftrightarrow> (\<forall>T. bandwidth R = Some T \<longrightarrow> tb_ok T) \<and> (\<forall>T. ops R = Some T \<longrightarrow> tb_ok T)"

lemma reduce_ok:
  assumes "reduce T clock tokens = Some (r, T')" "tb_ok T" shows "tb_ok T'"
proof (cases "one_time_burst T > 0 \<and> one_time_burst T \<ge> tokens")
  case True
  then show ?thesis using assms by (auto simp: reduce_def tb_ok_def)
next
  case False
  then obtain T1 x where T1: "tb_refill (T\<lparr>one_time_burst := 0\<rparr>) (fst clock) (snd clock) = Some T1" "tb_take T1 x = (r, T')"
    using assms(1) by (auto simp: reduce_def Let_def)
  have "tb_ok T1" using tb_refill_bound(1) [OF T1(1)] assms(2) by (simp add: tb_ok_def)
  moreover have "budget T1 - x \<le> tb_size T1" if "x \<le> budget T1" "budget T1 \<le> tb_size T1"
    using that by (simp add: word_le_nat_alt unat_sub le_diff_conv)
  ultimately show ?thesis using T1(2) by (auto simp: tb_take_def tb_ok_def not_less split: if_splits)
qed

lemma token_bucket_ok: "rl_ok R \<longleftrightarrow> (\<forall>ty T. token_bucket ty R = Some T \<longrightarrow> tb_ok T)"
proof (intro iffI allI impI)
  fix ty T assume "rl_ok R" "token_bucket ty R = Some T"
  then show "tb_ok T" by (cases ty) (simp_all add: rl_ok_def)
next
  assume ok: "\<forall>ty T. token_bucket ty R = Some T \<longrightarrow> tb_ok T"
  show "rl_ok R" using ok [rule_format, of Bytes] ok [rule_format, of Ops] by (simp add: rl_ok_def)
qed

lemma set_bucket_ok: "\<lbrakk>rl_ok R; tb_ok T\<rbrakk> \<Longrightarrow> rl_ok (set_bucket ty T R)"
  by (cases ty) (simp_all add: rl_ok_def)

lemma activate_timer_ok [simp]: "rl_ok (activate_timer R d) = rl_ok R"
  by (simp add: rl_ok_def activate_timer_def)

lemma consume_cases:
  assumes "consume R clock tokens ty = Some (r, R')"
  obtains "R' = R"
  | T T' d where "token_bucket ty R = Some T" "reduce T clock tokens = Some (r, T')"
      "R' = set_bucket ty T' R \<or> R' = activate_timer (set_bucket ty T' R) d"
proof (cases "timer_active R \<or> token_bucket ty R = None")
  case True
  then show ?thesis using assms that(1) by (auto simp: consume_def split: if_splits)
next
  case False
  then obtain T where T: "token_bucket ty R = Some T" by blast
  obtain q T' where q: "reduce T clock tokens = Some (q, T')"
    using assms False T by (cases "reduce T clock tokens") (auto simp: consume_def)
  have "q = r \<and> (\<exists>d. R' = set_bucket ty T' R \<or> R' = activate_timer (set_bucket ty T' R) d)"
    using assms False T q by (cases q) (auto simp: consume_def Let_def split: if_splits)
  then show ?thesis using that(2) [OF T] q by blast
qed

lemma consume_ok:
  assumes "consume R clock tokens ty = Some (r, R')" "rl_ok R" shows "rl_ok R'"
  using assms(1)
proof (cases rule: consume_cases)
  case (2 T T' d)
  have "tb_ok T" using 2(1) assms(2) by (simp add: token_bucket_ok)
  then have "rl_ok (set_bucket ty T' R)" using set_bucket_ok [OF assms(2)] reduce_ok [OF 2(2)] by blast
  then show ?thesis using 2(3) by auto
qed (use assms in simp)

lemma replenish_ok: "tb_ok T \<Longrightarrow> tb_ok (replenish T tokens)"
  by (auto simp: replenish_def tb_ok_def)

lemma event_handler_ok: "event_handler R ws = Some (r, R') \<Longrightarrow> rl_ok R \<Longrightarrow> rl_ok R'"
  using event_handler_bucket [of R ws r R'] unfolding token_bucket_ok by simp

fun limiter_call :: "nat \<times> nat \<Rightarrow> limiter_op \<Rightarrow> bool" where
  "limiter_call _ (UpdateBuckets b u) \<longleftrightarrow> (\<forall>T. b = Update T \<or> u = Update T \<longrightarrow> tb_ok T)"
| "limiter_call _ _ \<longleftrightarrow> True"

interpretation limiter: invariant_steps limiter_step limiter_call rl_ok
proof
  fix E c R
  assume c: "limiter_call E c" and R: "rl_ok R"
  show "rl_ok (snd (limiter_step E R c))"
  proof (cases c)
    case (Consume tokens ty)
    then show ?thesis using R consume_ok [OF _ R] by (auto split: option.splits)
  next
    case (Event ws)
    then show ?thesis using R event_handler_ok [OF _ R] by (auto split: option.splits)
  next
    case (ManualReplenish tokens ty)
    then show ?thesis using R set_bucket_ok [OF R replenish_ok] token_bucket_ok [of R]
      by (auto simp: manual_replenish_def split: option.splits)
  next
    case (UpdateBuckets b u)
    then show ?thesis using R c by (auto simp: update_buckets_def rl_ok_def Let_def split: BucketUpdate.splits)
  qed
qed

text \<open>C26. Whatever is called on a new limiter, in any order and with any clock, each bucket holds at
  most its size and keeps the fraction it is refilled by. Buckets that replace others hold at most
  their size and have a new bucket's fraction.\<close>

theorem limiter_keeps_buckets:
  assumes "rl_new True now bt bb br ot ob orf = Some R" "\<forall>(E, c) \<in> set cs. limiter_call E c"
    and "token_bucket ty (snd (run_steps limiter_step R cs)) = Some T"
  shows "budget T \<le> tb_size T \<and>
    unat (processed_capacity T) * unat (refill_time T * NANOSEC_IN_ONE_MILLISEC) =
    unat (tb_size T) * unat (processed_refill_time T)"
proof -
  have "rl_ok R" using assms(1) tb_new_ok(1) by (auto simp: rl_new_def rl_ok_def Let_def)
  then have "rl_ok (snd (run_steps limiter_step R cs))" by (rule limiter.run_inv [OF assms(2)])
  then have "tb_ok T" using assms(3) token_bucket_ok by blast
  then show ?thesis by (simp add: tb_ok_def)
qed

theorem limiter_keeps_buckets_witness:
  "\<exists>R T. rl_new True (0, 0) 1000000 0 1 0 0 0 = Some R \<and>
     token_bucket Bytes (snd (run_steps limiter_step R (((1, 1), ManualReplenish 5 Bytes) # demo_limiter_ops))) = Some T \<and>
     budget T \<le> tb_size T"
proof -
  let ?cs = "((1, 1), ManualReplenish 5 Bytes) # demo_limiter_ops"
  have "case rl_new True (0, 0) 1000000 0 1 0 0 0 of None \<Rightarrow> False | Some R \<Rightarrow>
     (case token_bucket Bytes (snd (run_steps limiter_step R ?cs)) of None \<Rightarrow> False | Some T \<Rightarrow> True)" by code_simp
  from some_case_ex [OF this] obtain R where R: "rl_new True (0, 0) 1000000 0 1 0 0 0 = Some R"
    "case token_bucket Bytes (snd (run_steps limiter_step R ?cs)) of None \<Rightarrow> False | Some T \<Rightarrow> True" by blast
  from some_case_ex [OF R(2)] obtain T where T: "token_bucket Bytes (snd (run_steps limiter_step R ?cs)) = Some T" by blast
  have c: "\<forall>(E, c) \<in> set ?cs. limiter_call E c" by (simp add: demo_limiter_ops_def)
  show ?thesis using limiter_keeps_buckets [OF R(1) c T] R(1) T by blast
qed

section \<open>Corners\<close>

text \<open>After a long idle time the product of elapsed time and capacity wraps: 2.44 hours after its last
  update an empty bucket of \<open>2 ^ 30\<close> tokens per second gets nothing.\<close>

lemma long_idle_refills_nothing:
  "reduce \<lparr>tb_size = 0x40000000, one_time_burst = 0, refill_time = 1000, budget = 0, last_update = 0,
      processed_capacity = 0x200000, processed_refill_time = 1953125\<rparr> (8796093022208, 8796093022208) 1 =
    Some (Failure, \<lparr>tb_size = 0x40000000, one_time_burst = 0, refill_time = 1000, budget = 0, last_update = 8796093022208,
      processed_capacity = 0x200000, processed_refill_time = 1953125\<rparr>)"
  by (simp add: reduce_def tb_refill_def tb_take_def)

text \<open>A refill time whose nanoseconds wrap to 0 makes the first refill divide by 0.\<close>

lemma refill_time_wraps_to_zero:
  "case tb_new 0 1000 0 0x400000000000000 of None \<Rightarrow> False | Some T \<Rightarrow> reduce T (0, 0) 1 = None"
  by code_simp

end
