(* ===== verification/Vsock_TxBuf.thy ===== *)
theory Vsock_TxBuf
  imports Runs
begin

text \<open>
  The buffer for data on its way from the guest to a host stream
  (\<^verbatim>\<open>hypervisor/virtio-devices/src/vsock/csm/txbuf.rs\<close>): a ring of 64 KiB whose head and tail are wrapping
  32-bit counters. A stream answers each write with an error or the number of bytes it takes; the
  answers of the stream are a list, after which it would block.
\<close>

section \<open>The buffer\<close>

definition CONN_TX_BUF_SIZE :: u32 where
  "CONN_TX_BUF_SIZE = 64 * 1024"

definition TX_SIZE :: nat where
  "TX_SIZE = unat CONN_TX_BUF_SIZE"

datatype io_kind = WouldBlock | OtherKind

text \<open>\<open>UnwrapNone\<close> stands for the panic of \<^verbatim>\<open>data.as_ref().unwrap()\<close>.\<close>

datatype CsmError = TxBufFull | TxBufFlush io_kind | StreamWrite io_kind | UnwrapNone

type_synonym answers = "(io_kind + nat) list"

record TxBuf =
  tx_data :: "u8 list option"
  tx_head :: u32
  tx_tail :: u32

definition txbuf_new :: TxBuf where
  "txbuf_new = \<lparr>tx_data = None, tx_head = 0, tx_tail = 0\<rparr>"

definition txbuf_len :: "TxBuf \<Rightarrow> nat" where
  "txbuf_len B = unat (tx_head B - tx_tail B)"

definition txbuf_is_empty :: "TxBuf \<Rightarrow> bool" where
  "txbuf_is_empty B \<longleftrightarrow> txbuf_len B = 0"

text \<open>\<^verbatim>\<open>data[ofs..ofs + src.len()].copy_from_slice(src)\<close>\<close>

definition copy_at :: "'a list \<Rightarrow> nat \<Rightarrow> 'a list \<Rightarrow> 'a list" where
  "copy_at data ofs src = take ofs data @ src @ drop (ofs + length src) data"

definition txbuf_push :: "TxBuf \<Rightarrow> u8 list \<Rightarrow> (CsmError + unit) \<times> TxBuf" where
  "txbuf_push B src =
    (if txbuf_len B + length src > TX_SIZE then (Inl TxBufFull, B)
     else let data = (case tx_data B of None \<Rightarrow> replicate TX_SIZE 0 | Some d \<Rightarrow> d);
              head_ofs = unat (tx_head B) mod TX_SIZE;
              len = min (TX_SIZE - head_ofs) (length src);
              data1 = copy_at data head_ofs (take len src);
              data2 = (if len < length src then copy_at data1 0 (drop len src) else data1)
          in (Inr (), B\<lparr>tx_data := Some data2, tx_head := tx_head B + word_of_nat (length src)\<rparr>))"

text \<open>One write to a stream: the answer, the bytes it takes, the answers left.\<close>

fun stream_write :: "answers \<Rightarrow> u8 list \<Rightarrow> (io_kind + nat) \<times> u8 list \<times> answers" where
  "stream_write [] buf = (Inl WouldBlock, [], [])"
| "stream_write (Inl e # ws) buf = (Inl e, [], ws)"
| "stream_write (Inr n # ws) buf = (Inr (min n (length buf)), take n buf, ws)"

lemma stream_write_less: "stream_write ws buf = (Inr n, out, ws') \<Longrightarrow> length ws' < length ws"
  by (cases "(ws, buf)" rule: stream_write.cases) auto

text \<open>The result, the bytes written, the buffer and the answers left.\<close>

function flush_to :: "answers \<Rightarrow> TxBuf \<Rightarrow> (CsmError + nat) \<times> u8 list \<times> TxBuf \<times> answers" where
  "flush_to ws B =
    (if txbuf_is_empty B then (Inr 0, [], B, ws)
     else let tail_ofs = unat (tx_tail B) mod TX_SIZE;
              len_to_write = min (TX_SIZE - tail_ofs) (txbuf_len B)
          in case tx_data B of
               None \<Rightarrow> (Inl UnwrapNone, [], B, ws)
             | Some data \<Rightarrow> (case stream_write ws (take len_to_write (drop tail_ofs data)) of
                 (Inl e, _, ws1) \<Rightarrow> (Inl (TxBufFlush e), [], B, ws1)
               | (Inr written, out, ws1) \<Rightarrow>
                   (let B1 = B\<lparr>tx_tail := tx_tail B + word_of_nat written\<rparr>
                    in if written < len_to_write then (Inr written, out, B1, ws1)
                       else case flush_to ws1 B1 of (r, rest, B2, ws2) \<Rightarrow>
                         (Inr (written + (case r of Inr n \<Rightarrow> n | Inl _ \<Rightarrow> 0)), out @ rest, B2, ws2))))"
  by pat_completeness auto
termination
  by (relation "measure (\<lambda>(ws, B). length ws)") (auto dest: stream_write_less [OF sym])

declare flush_to.simps [simp del]

section \<open>The ring\<close>

definition txbuf_ok :: "TxBuf \<Rightarrow> bool" where
  "txbuf_ok B \<longleftrightarrow> txbuf_len B \<le> TX_SIZE \<and>
    (case tx_data B of None \<Rightarrow> txbuf_len B = 0 | Some d \<Rightarrow> length d = TX_SIZE)"

text \<open>The bytes in the buffer, in the order they were pushed.\<close>

definition buffered :: "TxBuf \<Rightarrow> u8 list" where
  "buffered B = (case tx_data B of None \<Rightarrow> []
    | Some d \<Rightarrow> map (\<lambda>i. d ! ((unat (tx_tail B) + i) mod TX_SIZE)) [0..<txbuf_len B])"

lemma TX_SIZE_eq: "TX_SIZE = 65536"
  by (simp add: TX_SIZE_def CONN_TX_BUF_SIZE_def)

lemma TX_SIZE_pos [simp]: "0 < TX_SIZE"
  by (simp add: TX_SIZE_eq)

lemma length_buffered: "txbuf_ok B \<Longrightarrow> length (buffered B) = txbuf_len B"
  by (simp add: buffered_def txbuf_ok_def split: option.splits)

lemma length_copy_at: "ofs + length src \<le> length data \<Longrightarrow> length (copy_at data ofs src) = length data"
  by (simp add: copy_at_def)

lemma nth_copy_at:
  "\<lbrakk>ofs + length src \<le> length data; k < length data\<rbrakk> \<Longrightarrow>
    copy_at data ofs src ! k = (if ofs \<le> k \<and> k < ofs + length src then src ! (k - ofs) else data ! k)"
  by (auto simp: copy_at_def nth_append)

text \<open>Writing at most a ring's size into it, in one or two copies.\<close>

lemma ring_write:
  assumes "length data = N" "h < N" "length src \<le> N"
  defines "len \<equiv> min (N - h) (length src)"
  defines "r \<equiv> (if len < length src then copy_at (copy_at data h (take len src)) 0 (drop len src) else copy_at data h (take len src))"
  shows "length r = N" "j < length src \<Longrightarrow> r ! ((h + j) mod N) = src ! j"
    "\<lbrakk>k < N; \<forall>j < length src. k \<noteq> (h + j) mod N\<rbrakk> \<Longrightarrow> r ! k = data ! k"
proof -
  have l: "len \<le> length src" "h + len \<le> N" "length src - len \<le> h" using assms(2,3) by (auto simp: len_def)
  have n1: "copy_at data h (take len src) ! k = (if h \<le> k \<and> k < h + len then src ! (k - h) else data ! k)"
    if "k < N" for k using nth_copy_at [of h "take len src" data k] that l assms(1) by auto
  have len1: "length (copy_at data h (take len src)) = N" using l assms(1) by (simp add: length_copy_at)
  have n2: "copy_at (copy_at data h (take len src)) 0 (drop len src) ! k =
      (if k < length src - len then src ! (len + k) else if h \<le> k \<and> k < h + len then src ! (k - h) else data ! k)"
    if "k < N" for k
    using nth_copy_at [of 0 "drop len src" "copy_at data h (take len src)" k] that l n1 [OF that] len1 assms(3) by auto
  have r: "r ! k = (if k < length src - len then src ! (len + k) else if h \<le> k \<and> k < h + len then src ! (k - h) else data ! k)"
    if "k < N" for k using n1 [OF that] n2 [OF that] l by (auto simp: r_def)
  show "length r = N"
    using len1 length_copy_at [of 0 "drop len src" "copy_at data h (take len src)"] assms(3) unfolding r_def
    by (simp del: take_all take_all_iff)
  show "r ! ((h + j) mod N) = src ! j" if "j < length src"
  proof (cases "j < len")
    case True
    then have "(h + j) mod N = h + j" using l(2) by simp
    then show ?thesis using r [of "h + j"] True l by simp
  next
    case False
    then have "len = N - h" using that by (simp add: len_def min_def split: if_splits)
    moreover from this have "(h + j) mod N = h + j - N" using False assms(2,3) that by (simp add: le_mod_geq)
    ultimately have "(h + j) mod N = j - len" using assms(2) by simp
    moreover have "j - len < length src - len" "j - len < N" using False that assms(3) by linarith+
    ultimately show ?thesis using r [of "j - len"] False that by simp
  qed
  show "r ! k = data ! k" if k: "k < N" "\<forall>j < length src. k \<noteq> (h + j) mod N"
  proof -
    have "\<not> k < length src - len"
    proof
      assume "k < length src - len"
      then have "len + k < length src" "h + len = N" using assms(2) by (auto simp: len_def min_def split: if_splits)
      moreover have "(h + (len + k)) mod N = k" using \<open>h + len = N\<close> k(1) by (simp add: add.assoc [symmetric])
      ultimately show False using k(2) by metis
    qed
    moreover have "\<not> (h \<le> k \<and> k < h + len)"
    proof
      assume "h \<le> k \<and> k < h + len"
      then have "k - h < length src" "(h + (k - h)) mod N = k" using l(1) k(1) by auto
      then show False using k(2) by metis
    qed
    ultimately show ?thesis using r [OF k(1)] by auto
  qed
qed

text \<open>The counters wrap at a multiple of the ring's size.\<close>

lemma unat_plus_mod: "unat (a + word_of_nat n :: u32) mod TX_SIZE = (unat a + n) mod TX_SIZE"
proof -
  have "unat (a + word_of_nat n :: u32) = (unat a + n) mod 2 ^ 32" by (simp add: unat_word_ariths unat_of_nat mod_simps)
  moreover have "(x mod 2 ^ 32) mod TX_SIZE = x mod TX_SIZE" for x :: nat
    by (rule mod_mod_cancel) (simp add: TX_SIZE_eq)
  ultimately show ?thesis by simp
qed

lemma head_ofs: "unat (tx_head B) mod TX_SIZE = (unat (tx_tail B) + txbuf_len B) mod TX_SIZE"
proof -
  have "tx_head B = tx_tail B + word_of_nat (txbuf_len B)" by (simp add: txbuf_len_def)
  then show ?thesis using unat_plus_mod by metis
qed

lemma txbuf_len_advance:
  assumes "txbuf_len B + n \<le> TX_SIZE"
  shows "txbuf_len (B\<lparr>tx_data := d, tx_head := tx_head B + word_of_nat n\<rparr>) = txbuf_len B + n"
proof -
  have "unat (tx_head B - tx_tail B + word_of_nat n) = unat (tx_head B - tx_tail B) + n"
    using assms by (simp add: unat_word_ariths(1) unat_of_nat txbuf_len_def TX_SIZE_eq)
  then show ?thesis by (simp add: txbuf_len_def algebra_simps)
qed

lemma txbuf_len_consume:
  assumes "n \<le> txbuf_len B" "txbuf_len B \<le> TX_SIZE"
  shows "txbuf_len (B\<lparr>tx_tail := tx_tail B + word_of_nat n\<rparr>) = txbuf_len B - n"
proof -
  have n: "unat (word_of_nat n :: u32) = n" using assms by (simp add: unat_of_nat TX_SIZE_eq)
  then have "word_of_nat n \<le> tx_head B - tx_tail B" using assms(1) by (simp add: word_le_nat_alt txbuf_len_def)
  then show ?thesis using n by (simp add: txbuf_len_def diff_diff_add [symmetric] unat_sub)
qed

lemma mod_add_distinct:
  fixes a :: nat
  assumes "i < N" "j < N" "(a + i) mod N = (a + j) mod N" shows "i = j"
proof (cases "i \<le> j")
  case True
  then have "N dvd j - i" using assms(3) mod_eq_dvd_iff_nat [of "a + i" "a + j" N] by simp
  then show ?thesis using True assms(2) by (auto dest: dvd_imp_le)
next
  case False
  then have "N dvd i - j" using assms(3) mod_eq_dvd_iff_nat [of "a + j" "a + i" N] by simp
  then show ?thesis using False assms(1) by (auto dest: dvd_imp_le)
qed

lemma txbuf_push_spec:
  assumes "txbuf_ok B"
  shows "if length (buffered B) + length src \<le> TX_SIZE
    then \<exists>B'. txbuf_push B src = (Inr (), B') \<and> txbuf_ok B' \<and> buffered B' = buffered B @ src
    else txbuf_push B src = (Inl TxBufFull, B)"
proof (cases "length (buffered B) + length src \<le> TX_SIZE")
  case True
  define d where "d = (case tx_data B of None \<Rightarrow> replicate TX_SIZE 0 | Some d \<Rightarrow> d)"
  define h where "h = unat (tx_head B) mod TX_SIZE"
  define len where "len = min (TX_SIZE - h) (length src)"
  define r where "r = (if len < length src then copy_at (copy_at d h (take len src)) 0 (drop len src) else copy_at d h (take len src))"
  define B' where "B' = B\<lparr>tx_data := Some r, tx_head := tx_head B + word_of_nat (length src)\<rparr>"
  note n = length_buffered [OF assms]
  have fit: "txbuf_len B + length src \<le> TX_SIZE" using True n by simp
  have d: "length d = TX_SIZE" using assms by (auto simp: d_def txbuf_ok_def split: option.splits)
  have hN: "h < TX_SIZE" by (simp add: h_def)
  have "length src \<le> TX_SIZE" using fit by simp
  note w = ring_write [OF d hN this, folded len_def, folded r_def]
  have hj: "(h + j) mod TX_SIZE = (unat (tx_tail B) + (txbuf_len B + j)) mod TX_SIZE" for j
    using head_ofs [of B] by (simp add: h_def mod_simps add.assoc)
  have push: "txbuf_push B src = (Inr (), B')"
    using fit by (simp add: txbuf_push_def Let_def B'_def r_def len_def h_def d_def)
  have len': "txbuf_len B' = txbuf_len B + length src" using txbuf_len_advance [OF fit] by (simp add: B'_def)
  have ok: "txbuf_ok B'" using fit len' w(1) by (simp add: txbuf_ok_def B'_def)
  have "buffered B' = buffered B @ src"
  proof (rule nth_equalityI)
    show "length (buffered B') = length (buffered B @ src)" using length_buffered [OF ok] len' n by simp
    fix i assume "i < length (buffered B')"
    then have i: "i < txbuf_len B + length src" using length_buffered [OF ok] len' by simp
    have b: "buffered B' ! i = r ! ((unat (tx_tail B) + i) mod TX_SIZE)"
      using i len' by (simp add: buffered_def B'_def)
    show "buffered B' ! i = (buffered B @ src) ! i"
    proof (cases "i < txbuf_len B")
      case False
      then have "(h + (i - txbuf_len B)) mod TX_SIZE = (unat (tx_tail B) + i) mod TX_SIZE" unfolding hj by simp
      then have "buffered B' ! i = r ! ((h + (i - txbuf_len B)) mod TX_SIZE)" using b by (simp only:)
      then show ?thesis using w(2) [of "i - txbuf_len B"] False i n by (simp add: nth_append)
    next
      case old: True
      then obtain d0 where d0: "tx_data B = Some d0" using assms by (cases "tx_data B") (auto simp: txbuf_ok_def)
      have "\<forall>j < length src. (unat (tx_tail B) + i) mod TX_SIZE \<noteq> (h + j) mod TX_SIZE"
      proof (intro allI impI notI)
        fix j assume j: "j < length src" "(unat (tx_tail B) + i) mod TX_SIZE = (h + j) mod TX_SIZE"
        then have "i = txbuf_len B + j"
          using mod_add_distinct [of i TX_SIZE "txbuf_len B + j" "unat (tx_tail B)"] old fit unfolding hj by linarith
        then show False using old by simp
      qed
      then have "buffered B' ! i = d0 ! ((unat (tx_tail B) + i) mod TX_SIZE)"
        using b w(3) d0 by (simp add: d_def)
      then show ?thesis using old n d0 by (simp add: buffered_def nth_append)
    qed
  qed
  then show ?thesis using True push ok by simp
next
  case False
  then show ?thesis using length_buffered [OF assms] by (simp add: txbuf_push_def)
qed

text \<open>C28. The ring is a first-in first-out queue of at most 64 KiB: a push that fits appends exactly its
  bytes to what is buffered and one that does not fit changes nothing.\<close>

theorem txbuf_push_appends:
  assumes "txbuf_ok B"
  shows "if length (buffered B) + length src \<le> TX_SIZE
    then \<exists>B'. txbuf_push B src = (Inr (), B') \<and> txbuf_ok B' \<and> buffered B' = buffered B @ src
    else txbuf_push B src = (Inl TxBufFull, B)"
  by (rule txbuf_push_spec [OF assms])

theorem txbuf_push_appends_witness:
  "\<exists>B. txbuf_push txbuf_new [1, 2, 3] = (Inr (), B) \<and> buffered B = [1, 2, 3]"
proof -
  have new: "txbuf_ok txbuf_new" "buffered txbuf_new = []"
    by (simp_all add: txbuf_new_def txbuf_ok_def txbuf_len_def buffered_def)
  then have "length (buffered txbuf_new) + length [1, 2, 3 :: u8] \<le> TX_SIZE" by (simp add: TX_SIZE_eq)
  from txbuf_push_appends [OF new(1), of "[1, 2, 3]", unfolded if_P [OF this]] show ?thesis
    unfolding new(2) append_Nil by blast
qed

section \<open>Flushing\<close>

lemma buffered_consume:
  assumes "txbuf_ok B" "n \<le> txbuf_len B"
  shows "txbuf_ok (B\<lparr>tx_tail := tx_tail B + word_of_nat n\<rparr>)"
    "buffered (B\<lparr>tx_tail := tx_tail B + word_of_nat n\<rparr>) = drop n (buffered B)"
proof -
  let ?B = "B\<lparr>tx_tail := tx_tail B + word_of_nat n\<rparr>"
  have len: "txbuf_len ?B = txbuf_len B - n" using txbuf_len_consume assms by (simp add: txbuf_ok_def)
  then show ok: "txbuf_ok ?B" using assms(1) by (auto simp: txbuf_ok_def split: option.splits)
  show "buffered ?B = drop n (buffered B)"
  proof (rule nth_equalityI)
    show "length (buffered ?B) = length (drop n (buffered B))"
      using length_buffered [OF ok] length_buffered [OF assms(1)] len by simp
    fix i assume "i < length (buffered ?B)"
    then have i: "i < txbuf_len B - n" using length_buffered [OF ok] len by simp
    have m: "(unat (tx_tail B + word_of_nat n) + i) mod TX_SIZE = (unat (tx_tail B) + (n + i)) mod TX_SIZE"
      using unat_plus_mod [of "tx_tail B" n] by (metis add.assoc mod_add_left_eq)
    have "n + i < txbuf_len B" using i by simp
    then show "buffered ?B ! i = drop n (buffered B) ! i"
      using i len m by (simp add: buffered_def split: option.splits)
  qed
qed

lemma chunk_buffered:
  assumes "txbuf_ok B" "tx_data B = Some d"
  defines "t \<equiv> unat (tx_tail B) mod TX_SIZE"
  defines "l \<equiv> min (TX_SIZE - t) (txbuf_len B)"
  shows "take l (drop t d) = take l (buffered B)"
proof (rule nth_equalityI)
  have d: "length d = TX_SIZE" using assms(1,2) by (simp add: txbuf_ok_def)
  note n = length_buffered [OF assms(1)]
  show "length (take l (drop t d)) = length (take l (buffered B))" using d n by (simp add: l_def)
  fix i assume "i < length (take l (drop t d))"
  then have i: "i < l" by simp
  then have "t + i < TX_SIZE" by (simp add: l_def less_diff_conv)
  then have "(unat (tx_tail B) + i) mod TX_SIZE = t + i"
    using mod_add_left_eq [of "unat (tx_tail B)" TX_SIZE i, folded t_def] by simp
  then show "take l (drop t d) ! i = take l (buffered B) ! i"
    using i assms(2) d less_imp_le [OF mod_less_divisor [OF TX_SIZE_pos, of "unat (tx_tail B)"]]
    by (simp add: buffered_def l_def t_def)
qed

lemma stream_write_spec:
  "stream_write ws buf = (r, out, ws') \<Longrightarrow> (case r of Inl _ \<Rightarrow> out = [] | Inr n \<Rightarrow> n \<le> length buf \<and> out = take n buf)"
  by (cases "(ws, buf)" rule: stream_write.cases) (auto simp: min_def)

lemma flush_to_spec:
  assumes "txbuf_ok B" "flush_to ws B = (r, out, B', ws')"
  shows "txbuf_ok B' \<and> buffered B = out @ buffered B' \<and>
    (case r of Inr n \<Rightarrow> n = length out | Inl e \<Rightarrow> out = [] \<and> e \<noteq> UnwrapNone)"
  using assms
proof (induction ws B arbitrary: r out B' ws' rule: flush_to.induct)
  case (1 ws B)
  define t where "t = unat (tx_tail B) mod TX_SIZE"
  define l where "l = min (TX_SIZE - t) (txbuf_len B)"
  show ?case
  proof (cases "txbuf_is_empty B")
    case True
    then show ?thesis using 1(2,3) by (subst (asm) flush_to.simps) auto
  next
    case False
    then obtain d where d: "tx_data B = Some d"
      using 1(2) by (cases "tx_data B") (auto simp: txbuf_ok_def txbuf_is_empty_def)
    obtain q o1 ws1 where w: "stream_write ws (take l (drop t d)) = (q, o1, ws1)" by (metis prod_cases3)
    note eq = 1(3) [unfolded flush_to.simps [of ws B]]
    show ?thesis
    proof (cases q)
      case (Inl e)
      then show ?thesis using eq 1(2) False d w stream_write_spec [OF w] by (auto simp: Let_def t_def l_def)
    next
      case (Inr n)
      define B1 where "B1 = B\<lparr>tx_tail := tx_tail B + word_of_nat n\<rparr>"
      have n: "n \<le> l" "o1 = take n (take l (drop t d))" using stream_write_spec [OF w] Inr by auto
      have o1: "o1 = take n (buffered B)"
        unfolding n(2) chunk_buffered [OF 1(2) d, folded t_def, folded l_def] using n(1) by simp
      have nl: "n \<le> txbuf_len B" using n(1) by (simp add: l_def)
      note B1 = buffered_consume [OF 1(2) nl, folded B1_def]
      have out1: "buffered B = o1 @ buffered B1" using o1 B1(2) by simp
      have len1: "length o1 = n" using o1 nl length_buffered [OF 1(2)] by simp
      show ?thesis
      proof (cases "n < l")
        case True
        then show ?thesis using eq False d w Inr B1(1) out1 len1 by (auto simp: Let_def t_def l_def B1_def)
      next
        case no: False
        obtain r2 o2 B2 ws2 where f: "flush_to ws1 B1 = (r2, o2, B2, ws2)" by (metis prod_cases4)
        have "txbuf_ok B2 \<and> buffered B1 = o2 @ buffered B2 \<and>
            (case r2 of Inr n \<Rightarrow> n = length o2 | Inl e \<Rightarrow> o2 = [] \<and> e \<noteq> UnwrapNone)"
          by (rule 1(1) [OF False t_def l_def d w [symmetric] Inr _ B1_def no B1(1) f]) simp
        then show ?thesis using eq False d w Inr no f out1 len1
          by (auto simp: Let_def t_def [symmetric] l_def [symmetric] B1_def [symmetric] split: sum.splits)
      qed
    qed
  qed
qed

text \<open>C29. Flushing hands over exactly a prefix of what is buffered and keeps the rest, whatever the
  stream answers; it reports the number of bytes handed over, and an error only when it handed over
  none. In particular it never reads an unallocated buffer.\<close>

theorem flush_to_hands_over_prefix:
  assumes "txbuf_ok B" "flush_to ws B = (r, out, B', ws')"
  shows "txbuf_ok B' \<and> buffered B = out @ buffered B' \<and>
    (case r of Inr n \<Rightarrow> n = length out | Inl e \<Rightarrow> out = [] \<and> e \<noteq> UnwrapNone)"
  by (rule flush_to_spec [OF assms])

theorem flush_to_hands_over_prefix_witness:
  "\<exists>B'. flush_to [Inr 5, Inr 1] \<lparr>tx_data = Some (replicate TX_SIZE 7), tx_head = 65538, tx_tail = 65535\<rparr> = (Inr 2, [7, 7], B', []) \<and>
     buffered \<lparr>tx_data = Some (replicate TX_SIZE 7), tx_head = 65538, tx_tail = 65535\<rparr> = [7, 7] @ buffered B'"
proof -
  let ?B = "\<lparr>tx_data = Some (replicate TX_SIZE 7), tx_head = 65538, tx_tail = 65535\<rparr>"
  let ?B' = "\<lparr>tx_data = Some (replicate TX_SIZE 7), tx_head = 65538, tx_tail = 65537\<rparr>"
  have ok: "txbuf_ok ?B" by (simp add: txbuf_ok_def txbuf_len_def TX_SIZE_eq)
  have f: "flush_to [Inr 5, Inr 1] ?B = (Inr 2, [7, 7], ?B', [])"
    by (simp add: flush_to.simps txbuf_is_empty_def txbuf_len_def TX_SIZE_eq)
  from flush_to_hands_over_prefix [OF ok f] show ?thesis using f by blast
qed

end
