(* ===== verification/Vsock_Packet.thy ===== *)
theory Vsock_Packet
  imports Bytes Vsock_TxBuf
begin

text \<open>
  Packets of the virtio socket device (\<^verbatim>\<open>hypervisor/virtio-devices/src/vsock/packet.rs\<close>): a header of 44
  bytes and a data buffer, both in guest memory. The descriptors that the virtqueue yields are a list;
  guest memory and the translation of addresses belong to other crates and are parameters. A packet
  holds the bytes its pointers refer to, so the guest changing them meanwhile is not modelled.
\<close>

section \<open>The header\<close>

definition VSOCK_OP_REQUEST :: u16 where "VSOCK_OP_REQUEST = 1"
definition VSOCK_OP_RESPONSE :: u16 where "VSOCK_OP_RESPONSE = 2"
definition VSOCK_OP_RST :: u16 where "VSOCK_OP_RST = 3"
definition VSOCK_OP_SHUTDOWN :: u16 where "VSOCK_OP_SHUTDOWN = 4"
definition VSOCK_OP_RW :: u16 where "VSOCK_OP_RW = 5"
definition VSOCK_OP_CREDIT_UPDATE :: u16 where "VSOCK_OP_CREDIT_UPDATE = 6"
definition VSOCK_OP_CREDIT_REQUEST :: u16 where "VSOCK_OP_CREDIT_REQUEST = 7"
definition VSOCK_FLAGS_SHUTDOWN_RCV :: u32 where "VSOCK_FLAGS_SHUTDOWN_RCV = 1"
definition VSOCK_FLAGS_SHUTDOWN_SEND :: u32 where "VSOCK_FLAGS_SHUTDOWN_SEND = 2"
definition VSOCK_TYPE_STREAM :: u16 where "VSOCK_TYPE_STREAM = 1"
definition VSOCK_HOST_CID :: u64 where "VSOCK_HOST_CID = 2"
definition MAX_PKT_BUF_SIZE :: nat where "MAX_PKT_BUF_SIZE = 64 * 1024"
definition VSOCK_PKT_HDR_SIZE :: nat where "VSOCK_PKT_HDR_SIZE = 44"

lemmas vsock_ops = VSOCK_OP_REQUEST_def VSOCK_OP_RESPONSE_def VSOCK_OP_RST_def VSOCK_OP_SHUTDOWN_def
  VSOCK_OP_RW_def VSOCK_OP_CREDIT_UPDATE_def VSOCK_OP_CREDIT_REQUEST_def

record VsockPacket =
  pkt_hdr :: "u8 list"
  pkt_buf :: "u8 list option"

text \<open>\<^verbatim>\<open>LittleEndian::read\<close> and \<^verbatim>\<open>write\<close> at an offset of the header.\<close>

definition hdr_read :: "nat \<Rightarrow> nat \<Rightarrow> VsockPacket \<Rightarrow> 'a::len word" where
  "hdr_read ofs n p = from_le_bytes (take n (drop ofs (pkt_hdr p)))"

definition hdr_write :: "nat \<Rightarrow> nat \<Rightarrow> 'a::len word \<Rightarrow> VsockPacket \<Rightarrow> VsockPacket" where
  "hdr_write ofs n v p = p\<lparr>pkt_hdr := copy_at (pkt_hdr p) ofs (to_le_bytes n v)\<rparr>"

definition src_cid :: "VsockPacket \<Rightarrow> u64" where "src_cid = hdr_read 0 8"
definition dst_cid :: "VsockPacket \<Rightarrow> u64" where "dst_cid = hdr_read 8 8"
definition src_port :: "VsockPacket \<Rightarrow> u32" where "src_port = hdr_read 16 4"
definition dst_port :: "VsockPacket \<Rightarrow> u32" where "dst_port = hdr_read 20 4"
definition pkt_len :: "VsockPacket \<Rightarrow> u32" where "pkt_len = hdr_read 24 4"
definition pkt_type :: "VsockPacket \<Rightarrow> u16" where "pkt_type = hdr_read 28 2"
definition pkt_op :: "VsockPacket \<Rightarrow> u16" where "pkt_op = hdr_read 30 2"
definition pkt_flags :: "VsockPacket \<Rightarrow> u32" where "pkt_flags = hdr_read 32 4"
definition buf_alloc :: "VsockPacket \<Rightarrow> u32" where "buf_alloc = hdr_read 36 4"
definition pkt_fwd_cnt :: "VsockPacket \<Rightarrow> u32" where "pkt_fwd_cnt = hdr_read 40 4"

definition set_src_cid :: "u64 \<Rightarrow> VsockPacket \<Rightarrow> VsockPacket" where "set_src_cid = hdr_write 0 8"
definition set_dst_cid :: "u64 \<Rightarrow> VsockPacket \<Rightarrow> VsockPacket" where "set_dst_cid = hdr_write 8 8"
definition set_src_port :: "u32 \<Rightarrow> VsockPacket \<Rightarrow> VsockPacket" where "set_src_port = hdr_write 16 4"
definition set_dst_port :: "u32 \<Rightarrow> VsockPacket \<Rightarrow> VsockPacket" where "set_dst_port = hdr_write 20 4"
definition set_len :: "u32 \<Rightarrow> VsockPacket \<Rightarrow> VsockPacket" where "set_len = hdr_write 24 4"
definition set_type :: "u16 \<Rightarrow> VsockPacket \<Rightarrow> VsockPacket" where "set_type = hdr_write 28 2"
definition set_op :: "u16 \<Rightarrow> VsockPacket \<Rightarrow> VsockPacket" where "set_op = hdr_write 30 2"
definition set_flags :: "u32 \<Rightarrow> VsockPacket \<Rightarrow> VsockPacket" where "set_flags = hdr_write 32 4"
definition set_buf_alloc :: "u32 \<Rightarrow> VsockPacket \<Rightarrow> VsockPacket" where "set_buf_alloc = hdr_write 36 4"
definition set_fwd_cnt :: "u32 \<Rightarrow> VsockPacket \<Rightarrow> VsockPacket" where "set_fwd_cnt = hdr_write 40 4"

definition set_flag :: "u32 \<Rightarrow> VsockPacket \<Rightarrow> VsockPacket" where
  "set_flag f p = set_flags (pkt_flags p OR f) p"

definition pkt_is_empty :: "VsockPacket \<Rightarrow> bool" where
  "pkt_is_empty p \<longleftrightarrow> pkt_len p = 0"

text \<open>The structure that the header is read as for logging.\<close>

record VirtioVsockHdr =
  vh_src_cid :: u64
  vh_dst_cid :: u64
  vh_src_port :: u32
  vh_dst_port :: u32
  vh_len :: u32
  vh_type_field :: u16
  vh_op :: u16
  vh_flags :: u32
  vh_buf_alloc :: u32
  vh_fwd_cnt :: u32

text \<open>The fields of the \<open>repr(C)\<close> structure lie one after the other, without padding between them.\<close>

definition hdr_from_slice :: "u8 list \<Rightarrow> VirtioVsockHdr" where
  "hdr_from_slice data =
    (let f = (\<lambda>ofs n. take n (drop ofs data)) in
     \<lparr>vh_src_cid = from_le_bytes (f 0 8), vh_dst_cid = from_le_bytes (f 8 8),
      vh_src_port = from_le_bytes (f 16 4), vh_dst_port = from_le_bytes (f 20 4),
      vh_len = from_le_bytes (f 24 4), vh_type_field = from_le_bytes (f 28 2),
      vh_op = from_le_bytes (f 30 2), vh_flags = from_le_bytes (f 32 4),
      vh_buf_alloc = from_le_bytes (f 36 4), vh_fwd_cnt = from_le_bytes (f 40 4)\<rparr>)"

definition hdr_ok :: "VsockPacket \<Rightarrow> bool" where
  "hdr_ok p \<longleftrightarrow> length (pkt_hdr p) = VSOCK_PKT_HDR_SIZE"

lemmas pkt_getters = src_cid_def dst_cid_def src_port_def dst_port_def pkt_len_def pkt_type_def pkt_op_def
  pkt_flags_def buf_alloc_def pkt_fwd_cnt_def
lemmas pkt_setters = set_src_cid_def set_dst_cid_def set_src_port_def set_dst_port_def set_len_def
  set_type_def set_op_def set_flags_def set_buf_alloc_def set_fwd_cnt_def

lemma slice_copy_at_same:
  "ofs + length src \<le> length data \<Longrightarrow> n = length src \<Longrightarrow> take n (drop ofs (copy_at data ofs src)) = src"
  by (simp add: copy_at_def)

lemma slice_copy_at_other:
  assumes "ofs + length src \<le> length data" "a + n \<le> ofs \<or> ofs + length src \<le> a" "a + n \<le> length data"
  shows "take n (drop a (copy_at data ofs src)) = take n (drop a data)"
  using assms by (intro nth_equalityI) (auto simp: length_copy_at nth_copy_at)

lemma hdr_read_write_same:
  "ofs + n \<le> length (pkt_hdr p) \<Longrightarrow> LENGTH('a) = 8 * n \<Longrightarrow> hdr_read ofs n (hdr_write ofs n (v :: 'a::len word) p) = v"
  by (simp add: hdr_read_def hdr_write_def slice_copy_at_same from_to_le_bytes)

lemma hdr_read_write_other:
  "ofs + n \<le> length (pkt_hdr p) \<Longrightarrow> a + m \<le> length (pkt_hdr p) \<Longrightarrow> a + m \<le> ofs \<or> ofs + n \<le> a \<Longrightarrow>
    hdr_read a m (hdr_write ofs n v p) = hdr_read a m p"
  by (simp add: hdr_read_def hdr_write_def slice_copy_at_other)

lemma hdr_write_keeps [simp]:
  "pkt_buf (hdr_write ofs n v p) = pkt_buf p"
  "ofs + n \<le> length (pkt_hdr p) \<Longrightarrow> length (pkt_hdr (hdr_write ofs n v p)) = length (pkt_hdr p)"
  by (simp_all add: hdr_write_def length_copy_at)

lemma hdr_ok_set [simp]:
  "hdr_ok p \<Longrightarrow> hdr_ok (set_src_cid a p)" "hdr_ok p \<Longrightarrow> hdr_ok (set_dst_cid a p)"
  "hdr_ok p \<Longrightarrow> hdr_ok (set_src_port b p)" "hdr_ok p \<Longrightarrow> hdr_ok (set_dst_port b p)"
  "hdr_ok p \<Longrightarrow> hdr_ok (set_len b p)" "hdr_ok p \<Longrightarrow> hdr_ok (set_type c p)"
  "hdr_ok p \<Longrightarrow> hdr_ok (set_op c p)" "hdr_ok p \<Longrightarrow> hdr_ok (set_flags b p)"
  "hdr_ok p \<Longrightarrow> hdr_ok (set_buf_alloc b p)" "hdr_ok p \<Longrightarrow> hdr_ok (set_fwd_cnt b p)"
  by (simp_all add: hdr_ok_def pkt_setters VSOCK_PKT_HDR_SIZE_def)

lemma pkt_buf_set [simp]:
  "pkt_buf (set_src_cid a p) = pkt_buf p" "pkt_buf (set_dst_cid a p) = pkt_buf p"
  "pkt_buf (set_src_port b p) = pkt_buf p" "pkt_buf (set_dst_port b p) = pkt_buf p"
  "pkt_buf (set_len b p) = pkt_buf p" "pkt_buf (set_type c p) = pkt_buf p"
  "pkt_buf (set_op c p) = pkt_buf p" "pkt_buf (set_flags b p) = pkt_buf p"
  "pkt_buf (set_buf_alloc b p) = pkt_buf p" "pkt_buf (set_fwd_cnt b p) = pkt_buf p"
  by (simp_all add: pkt_setters)

text \<open>The decoded header of a packet; the accessors read and update its fields.\<close>

definition pkt_header :: "VsockPacket \<Rightarrow> VirtioVsockHdr" where
  "pkt_header p = hdr_from_slice (pkt_hdr p)"

lemma pkt_header_fields:
  "pkt_header p = \<lparr>vh_src_cid = src_cid p, vh_dst_cid = dst_cid p, vh_src_port = src_port p,
     vh_dst_port = dst_port p, vh_len = pkt_len p, vh_type_field = pkt_type p, vh_op = pkt_op p,
     vh_flags = pkt_flags p, vh_buf_alloc = buf_alloc p, vh_fwd_cnt = pkt_fwd_cnt p\<rparr>"
  by (simp add: pkt_header_def hdr_from_slice_def pkt_getters hdr_read_def Let_def)

lemma pkt_header_set:
  assumes "hdr_ok p"
  shows "pkt_header (set_src_cid a p) = pkt_header p\<lparr>vh_src_cid := a\<rparr>"
    "pkt_header (set_dst_cid a p) = pkt_header p\<lparr>vh_dst_cid := a\<rparr>"
    "pkt_header (set_src_port b p) = pkt_header p\<lparr>vh_src_port := b\<rparr>"
    "pkt_header (set_dst_port b p) = pkt_header p\<lparr>vh_dst_port := b\<rparr>"
    "pkt_header (set_len b p) = pkt_header p\<lparr>vh_len := b\<rparr>"
    "pkt_header (set_type c p) = pkt_header p\<lparr>vh_type_field := c\<rparr>"
    "pkt_header (set_op c p) = pkt_header p\<lparr>vh_op := c\<rparr>"
    "pkt_header (set_flags b p) = pkt_header p\<lparr>vh_flags := b\<rparr>"
    "pkt_header (set_buf_alloc b p) = pkt_header p\<lparr>vh_buf_alloc := b\<rparr>"
    "pkt_header (set_fwd_cnt b p) = pkt_header p\<lparr>vh_fwd_cnt := b\<rparr>"
  using assms
  by (simp_all add: pkt_header_fields pkt_getters pkt_setters hdr_ok_def VSOCK_PKT_HDR_SIZE_def
      hdr_read_write_same hdr_read_write_other)

lemma pkt_get_header:
  "src_cid p = vh_src_cid (pkt_header p)" "dst_cid p = vh_dst_cid (pkt_header p)"
  "src_port p = vh_src_port (pkt_header p)" "dst_port p = vh_dst_port (pkt_header p)"
  "pkt_len p = vh_len (pkt_header p)" "pkt_type p = vh_type_field (pkt_header p)"
  "pkt_op p = vh_op (pkt_header p)" "pkt_flags p = vh_flags (pkt_header p)"
  "buf_alloc p = vh_buf_alloc (pkt_header p)" "pkt_fwd_cnt p = vh_fwd_cnt (pkt_header p)"
  by (simp_all add: pkt_header_fields)

section \<open>Packets from descriptors\<close>

text \<open>\<open>VsockPanics\<close> stands for a panic: an \<^verbatim>\<open>unwrap\<close> of an error or a slice out of bounds.\<close>

datatype VsockError =
    BufDescTooSmall | BufDescMissing | GuestMemory | GuestMemoryBounds | HdrDescTooSmall u32
  | HdrDescMissing | InvalidPktLen u32 | NoData | PktBufMissing | UnreadableDescriptor
  | UnwritableDescriptor | VsockPanics

record Descriptor =
  d_addr :: u64
  d_len :: u32
  d_write_only :: bool
  d_has_next :: bool

text \<open>Guest memory: whether a range lies in it, and the bytes of a range (\<open>None\<close>: no host address).\<close>

record GuestMem =
  check_range :: "u64 \<Rightarrow> nat \<Rightarrow> bool"
  host_bytes :: "u64 \<Rightarrow> nat \<Rightarrow> u8 list option"

type_synonym access_platform = "(u64 \<Rightarrow> nat \<Rightarrow> u64 option) option"

definition get_host_address_range :: "GuestMem \<Rightarrow> u64 \<Rightarrow> nat \<Rightarrow> (VsockError + u8 list) option" where
  "get_host_address_range M a n =
    (if check_range M a n then Some (case host_bytes M a n of None \<Rightarrow> Inl VsockPanics | Some bs \<Rightarrow> Inr bs)
     else None)"

definition translate_gva :: "access_platform \<Rightarrow> u64 \<Rightarrow> nat \<Rightarrow> VsockError + u64" where
  "translate_gva P a n = (case P of None \<Rightarrow> Inr a
     | Some f \<Rightarrow> (case f a n of None \<Rightarrow> Inl VsockPanics | Some g \<Rightarrow> Inr g))"

text \<open>\<^verbatim>\<open>get_host_address_range(mem, addr.translate_gva(...), n).ok_or(VsockError::GuestMemory)?\<close>\<close>

definition guest_slice :: "GuestMem \<Rightarrow> access_platform \<Rightarrow> u64 \<Rightarrow> nat \<Rightarrow> VsockError + u8 list" where
  "guest_slice M P a n = result_bind (translate_gva P a n) (\<lambda>g.
     case get_host_address_range M g n of None \<Rightarrow> Inl GuestMemory | Some r \<Rightarrow> r)"

text \<open>The data that follows the header in the only descriptor (Linux 6.3 and later).\<close>

definition inline_slice :: "GuestMem \<Rightarrow> access_platform \<Rightarrow> Descriptor \<Rightarrow> VsockError + u8 list" where
  "inline_slice M P head =
    (case checked_add (d_addr head) (word_of_nat VSOCK_PKT_HDR_SIZE) of
       None \<Rightarrow> Inl VsockPanics
     | Some a \<Rightarrow> guest_slice M P a (unat (d_len head) - VSOCK_PKT_HDR_SIZE))"

fun from_tx_virtq_head :: "GuestMem \<Rightarrow> access_platform \<Rightarrow> Descriptor list \<Rightarrow> VsockError + VsockPacket" where
  "from_tx_virtq_head M P [] = Inl HdrDescMissing"
| "from_tx_virtq_head M P (head # ds) =
    (if d_write_only head then Inl UnreadableDescriptor
     else if d_len head < word_of_nat VSOCK_PKT_HDR_SIZE then Inl (HdrDescTooSmall (d_len head))
     else result_bind (guest_slice M P (d_addr head) VSOCK_PKT_HDR_SIZE) (\<lambda>h.
       let pkt = \<lparr>pkt_hdr = h, pkt_buf = None\<rparr> in
       if pkt_is_empty pkt then Inr pkt
       else if pkt_len pkt > word_of_nat MAX_PKT_BUF_SIZE then Inl (InvalidPktLen (pkt_len pkt))
       else if d_has_next head then
         (case ds of [] \<Rightarrow> Inl BufDescMissing
          | buf_desc # _ \<Rightarrow>
              if d_write_only buf_desc then Inl UnreadableDescriptor
              else if d_len buf_desc < pkt_len pkt then Inl BufDescTooSmall
              else result_bind (guest_slice M P (d_addr buf_desc) (unat (d_len buf_desc)))
                (\<lambda>b. Inr (pkt\<lparr>pkt_buf := Some b\<rparr>)))
       else result_bind (inline_slice M P head) (\<lambda>b. Inr (pkt\<lparr>pkt_buf := Some b\<rparr>))))"

fun from_rx_virtq_head :: "GuestMem \<Rightarrow> access_platform \<Rightarrow> Descriptor list \<Rightarrow> VsockError + VsockPacket" where
  "from_rx_virtq_head M P [] = Inl HdrDescMissing"
| "from_rx_virtq_head M P (head # ds) =
    (if \<not> d_write_only head then Inl UnwritableDescriptor
     else if d_len head < word_of_nat VSOCK_PKT_HDR_SIZE then Inl (HdrDescTooSmall (d_len head))
     else if d_has_next head then
       (case ds of [] \<Rightarrow> Inl BufDescMissing
        | buf_desc # _ \<Rightarrow>
            result_bind (guest_slice M P (d_addr head) VSOCK_PKT_HDR_SIZE) (\<lambda>h.
            result_bind (guest_slice M P (d_addr buf_desc) (unat (d_len buf_desc))) (\<lambda>b.
              Inr \<lparr>pkt_hdr = h, pkt_buf = Some b\<rparr>)))
     else result_bind (guest_slice M P (d_addr head) VSOCK_PKT_HDR_SIZE) (\<lambda>h.
       result_bind (inline_slice M P head) (\<lambda>b. Inr \<lparr>pkt_hdr = h, pkt_buf = Some b\<rparr>)))"

section \<open>Properties\<close>

text \<open>C30. Every setter changes exactly its own field of the header as \<^verbatim>\<open>VirtioVsockHdr::from_slice\<close>
  decodes it, and every getter reads that field.\<close>

theorem header_accessors:
  assumes "hdr_ok p"
  shows "pkt_header (set_src_cid a p) = pkt_header p\<lparr>vh_src_cid := a\<rparr> \<and>
    pkt_header (set_dst_cid a p) = pkt_header p\<lparr>vh_dst_cid := a\<rparr> \<and>
    pkt_header (set_src_port b p) = pkt_header p\<lparr>vh_src_port := b\<rparr> \<and>
    pkt_header (set_dst_port b p) = pkt_header p\<lparr>vh_dst_port := b\<rparr> \<and>
    pkt_header (set_len b p) = pkt_header p\<lparr>vh_len := b\<rparr> \<and>
    pkt_header (set_type c p) = pkt_header p\<lparr>vh_type_field := c\<rparr> \<and>
    pkt_header (set_op c p) = pkt_header p\<lparr>vh_op := c\<rparr> \<and>
    pkt_header (set_flags b p) = pkt_header p\<lparr>vh_flags := b\<rparr> \<and>
    pkt_header (set_flag b p) = pkt_header p\<lparr>vh_flags := pkt_flags p OR b\<rparr> \<and>
    pkt_header (set_buf_alloc b p) = pkt_header p\<lparr>vh_buf_alloc := b\<rparr> \<and>
    pkt_header (set_fwd_cnt b p) = pkt_header p\<lparr>vh_fwd_cnt := b\<rparr> \<and>
    pkt_header p = \<lparr>vh_src_cid = src_cid p, vh_dst_cid = dst_cid p, vh_src_port = src_port p,
      vh_dst_port = dst_port p, vh_len = pkt_len p, vh_type_field = pkt_type p, vh_op = pkt_op p,
      vh_flags = pkt_flags p, vh_buf_alloc = buf_alloc p, vh_fwd_cnt = pkt_fwd_cnt p\<rparr>"
  unfolding set_flag_def
  by (intro conjI pkt_header_set [OF assms] pkt_header_fields)

theorem header_accessors_witness:
  "pkt_header (set_op 5 \<lparr>pkt_hdr = replicate 44 0xFF, pkt_buf = None\<rparr>) =
     pkt_header \<lparr>pkt_hdr = replicate 44 0xFF, pkt_buf = None\<rparr>\<lparr>vh_op := 5\<rparr>"
proof -
  have "hdr_ok \<lparr>pkt_hdr = replicate 44 0xFF, pkt_buf = None\<rparr>" by (simp add: hdr_ok_def VSOCK_PKT_HDR_SIZE_def)
  from header_accessors [OF this] show ?thesis by blast
qed

text \<open>What the memory crate documents of a host range: it has the length asked for.\<close>

definition host_ranges :: "GuestMem \<Rightarrow> bool" where
  "host_ranges M \<longleftrightarrow> (\<forall>a n bs. host_bytes M a n = Some bs \<longrightarrow> length bs = n)"

lemma guest_slice_length:
  assumes "host_ranges M" "guest_slice M P a n = Inr bs"
  shows "length bs = n"
proof -
  from assms(2) obtain g where "host_bytes M g n = Some bs"
    by (auto simp: guest_slice_def result_bind_eq_Inr get_host_address_range_def split: if_splits option.splits)
  then show ?thesis using assms(1) by (simp add: host_ranges_def)
qed

lemma inline_slice_length:
  "\<lbrakk>host_ranges M; inline_slice M P head = Inr bs\<rbrakk> \<Longrightarrow>
    length bs = unat (d_len head) - VSOCK_PKT_HDR_SIZE"
  by (auto simp: inline_slice_def guest_slice_length split: option.splits)

lemma pkt_len_buf [simp]: "pkt_len (p\<lparr>pkt_buf := b\<rparr>) = pkt_len p" "hdr_ok (p\<lparr>pkt_buf := b\<rparr>) = hdr_ok p"
  by (simp_all add: pkt_len_def hdr_read_def hdr_ok_def)

lemma pkt_len_bound: "\<not> pkt_len p > word_of_nat MAX_PKT_BUF_SIZE \<Longrightarrow> unat (pkt_len p) \<le> MAX_PKT_BUF_SIZE"
  by (simp add: MAX_PKT_BUF_SIZE_def word_le_nat_alt not_less)

text \<open>C31. The wrapper of a guest's packet has a header of 44 bytes and a length of at most 64 KiB; a
  buffer is present exactly when the length is not 0. When the data is in a descriptor of its own
  the length never exceeds the buffer.\<close>

theorem tx_packet_in_bounds:
  assumes "host_ranges M" and "from_tx_virtq_head M P (head # ds) = Inr pkt"
  shows "hdr_ok pkt \<and> unat (pkt_len pkt) \<le> MAX_PKT_BUF_SIZE \<and>
    (case pkt_buf pkt of None \<Rightarrow> pkt_len pkt = 0
     | Some b \<Rightarrow> pkt_len pkt \<noteq> 0 \<and>
         (if d_has_next head then length b = unat (d_len (hd ds)) \<and> unat (pkt_len pkt) \<le> length b
          else length b = unat (d_len head) - VSOCK_PKT_HDR_SIZE))"
proof -
  from assms(2) obtain h where h: "guest_slice M P (d_addr head) VSOCK_PKT_HDR_SIZE = Inr h"
    by (auto simp: result_bind_eq_Inr split: if_splits)
  define p where "p = \<lparr>pkt_hdr = h, pkt_buf = None\<rparr>"
  have ok: "hdr_ok p" using guest_slice_length [OF assms(1) h] by (simp add: hdr_ok_def p_def)
  have buf: "pkt_buf p = None" by (simp add: p_def)
  show ?thesis
  proof (cases "pkt_is_empty p")
    case True
    then have "pkt = p" using assms(2) h by (auto simp: p_def Let_def split: if_splits)
    then show ?thesis using True ok buf by (simp add: pkt_is_empty_def)
  next
    case False
    then have nz: "pkt_len p \<noteq> 0" by (simp add: pkt_is_empty_def)
    have len: "unat (pkt_len p) \<le> MAX_PKT_BUF_SIZE"
      using assms(2) h False by (intro pkt_len_bound) (auto simp: p_def Let_def split: if_splits)
    show ?thesis
    proof (cases "d_has_next head")
      case True
      then obtain d ds' b where d: "ds = d # ds'" "\<not> d_len d < pkt_len p"
        "guest_slice M P (d_addr d) (unat (d_len d)) = Inr b" "pkt = p\<lparr>pkt_buf := Some b\<rparr>"
        using assms(2) h False
        by (auto simp: p_def [symmetric] Let_def result_bind_eq_Inr split: if_splits list.splits)
      then show ?thesis using True ok nz len guest_slice_length [OF assms(1) d(3)]
        by (simp add: word_less_nat_alt)
    next
      case no: False
      then obtain b where "inline_slice M P head = Inr b" "pkt = p\<lparr>pkt_buf := Some b\<rparr>"
        using assms(2) h False by (auto simp: p_def [symmetric] Let_def result_bind_eq_Inr split: if_splits)
      then show ?thesis using no ok nz len inline_slice_length [OF assms(1)] by simp
    qed
  qed
qed

text \<open>A guest memory of 256 bytes in which a header at address 0 describes two bytes of data.\<close>

definition ex_mem :: GuestMem where
  "ex_mem = \<lparr>check_range = (\<lambda>a n. unat a + n \<le> 256),
    host_bytes = (\<lambda>a n. Some (map (\<lambda>i. if unat a + i = 24 then 2 else 0) [0..<n]))\<rparr>"

definition ex_hdr :: "u8 list" where
  "ex_hdr = replicate 24 0 @ [2] @ replicate 19 0"

lemma hdr_size_word: "(word_of_nat VSOCK_PKT_HDR_SIZE :: u32) = 44"
  by (simp add: VSOCK_PKT_HDR_SIZE_def)

lemma ex_packet:
  "pkt_len \<lparr>pkt_hdr = ex_hdr, pkt_buf = b\<rparr> = 2"
  "guest_slice ex_mem None 0 VSOCK_PKT_HDR_SIZE = Inr ex_hdr"
  "guest_slice ex_mem None 64 3 = Inr [0, 0, 0]" "guest_slice ex_mem None 44 1 = Inr [0]"
proof -
  have "pkt_len \<lparr>pkt_hdr = ex_hdr, pkt_buf = None\<rparr> = 2" by code_simp
  then show "pkt_len \<lparr>pkt_hdr = ex_hdr, pkt_buf = b\<rparr> = 2" by (simp add: pkt_len_def hdr_read_def)
qed (code_simp, code_simp, code_simp)

theorem tx_packet_in_bounds_witness:
  "\<exists>pkt. from_tx_virtq_head ex_mem None
      [\<lparr>d_addr = 0, d_len = 44, d_write_only = False, d_has_next = True\<rparr>,
       \<lparr>d_addr = 64, d_len = 3, d_write_only = False, d_has_next = False\<rparr>] = Inr pkt \<and>
    pkt_buf pkt = Some [0, 0, 0] \<and> pkt_len pkt = 2 \<and> hdr_ok pkt"
proof -
  let ?h = "\<lparr>d_addr = 0, d_len = 44, d_write_only = False, d_has_next = True\<rparr> :: Descriptor"
  let ?d = "\<lparr>d_addr = 64, d_len = 3, d_write_only = False, d_has_next = False\<rparr> :: Descriptor"
  have m: "host_ranges ex_mem" by (auto simp: host_ranges_def ex_mem_def)
  have f: "from_tx_virtq_head ex_mem None [?h, ?d] = Inr \<lparr>pkt_hdr = ex_hdr, pkt_buf = Some [0, 0, 0]\<rparr>"
    by (simp add: ex_packet pkt_is_empty_def MAX_PKT_BUF_SIZE_def hdr_size_word)
  show ?thesis using tx_packet_in_bounds [OF m f] f by (simp add: ex_packet)
qed

text \<open>With the data in the header's own descriptor the length is not checked: here one byte of
  buffer and a length of 2, and taking the data as a slice panics.\<close>

lemma single_descriptor_length_unchecked:
  "\<exists>pkt. from_tx_virtq_head ex_mem None [\<lparr>d_addr = 0, d_len = 45, d_write_only = False, d_has_next = False\<rparr>] = Inr pkt \<and>
     pkt_buf pkt = Some [0] \<and> pkt_len pkt = 2"
proof -
  have "inline_slice ex_mem None \<lparr>d_addr = 0, d_len = 45, d_write_only = False, d_has_next = False\<rparr> = Inr [0]"
    by code_simp
  then show ?thesis
    by (simp add: ex_packet pkt_is_empty_def MAX_PKT_BUF_SIZE_def hdr_size_word)
qed

text \<open>The data descriptor of a receive chain is not required to be writable.\<close>

lemma rx_data_descriptor_read_only:
  "is_ok (from_rx_virtq_head ex_mem None
      [\<lparr>d_addr = 0, d_len = 44, d_write_only = True, d_has_next = True\<rparr>,
       \<lparr>d_addr = 64, d_len = 3, d_write_only = False, d_has_next = False\<rparr>])"
  by (simp add: ex_packet hdr_size_word)

end
