(* ===== verification/Vsock_Connection.thy ===== *)
theory Vsock_Connection
  imports Vsock_Packet
begin

text \<open>
  The state machine of a vsock connection (\<^verbatim>\<open>hypervisor/virtio-devices/src/vsock/csm\<close>): packets between
  the guest and a stream on the host. The stream is the bytes it has taken so far; what it answers to
  reads and writes, and the clock (in nanoseconds), are the environment of a call.
\<close>

section \<open>States and pending indications\<close>

definition CONN_CREDIT_UPDATE_THRESHOLD :: u32 where "CONN_CREDIT_UPDATE_THRESHOLD = 4 * 1024"
definition CONN_REQUEST_TIMEOUT_MS :: u64 where "CONN_REQUEST_TIMEOUT_MS = 2000"
definition CONN_SHUTDOWN_TIMEOUT_MS :: u64 where "CONN_SHUTDOWN_TIMEOUT_MS = 2000"

datatype ConnState = LocalInit | PeerInit | Established | LocalClosed | PeerClosed bool bool | Killed

datatype PendingRx = Request | Response | Rst | Rw | CreditUpdate

text \<open>The discriminants, and the mask \<^verbatim>\<open>1 << self\<close>.\<close>

primrec rx_index :: "PendingRx \<Rightarrow> nat" where
  "rx_index Request = 0"
| "rx_index Response = 1"
| "rx_index Rst = 2"
| "rx_index Rw = 3"
| "rx_index CreditUpdate = 4"

definition into_mask :: "PendingRx \<Rightarrow> u16" where
  "into_mask it = push_bit (rx_index it) 1"

definition prx_insert :: "PendingRx \<Rightarrow> u16 \<Rightarrow> u16" where
  "prx_insert it d = d OR into_mask it"

definition prx_contains :: "PendingRx \<Rightarrow> u16 \<Rightarrow> bool" where
  "prx_contains it d \<longleftrightarrow> d AND into_mask it \<noteq> 0"

definition prx_remove :: "PendingRx \<Rightarrow> u16 \<Rightarrow> bool \<times> u16" where
  "prx_remove it d = (prx_contains it d, d AND NOT (into_mask it))"

definition prx_is_empty :: "u16 \<Rightarrow> bool" where
  "prx_is_empty d \<longleftrightarrow> d = 0"

definition prx_from :: "PendingRx \<Rightarrow> u16" where
  "prx_from it = into_mask it"

section \<open>The connection\<close>

datatype PassFdLabel = Stdin | Stdout | Stderr | StreamLabel | OtherLabel string

datatype StreamKind = UnixStream | PassFdStream PassFdLabel

text \<open>A stream: its descriptor, the bytes written to it, the bytes written to its control socket.\<close>

record VsockBackendStream =
  raw_fd :: int
  stream_kind :: StreamKind
  stream_out :: "u8 list"
  control_out :: "u8 list"

record VsockConnection =
  conn_state :: ConnState
  local_cid :: u64
  peer_cid :: u64
  local_port :: u32
  peer_port :: u32
  stream :: VsockBackendStream
  tx_buf :: TxBuf
  fwd_cnt :: u32
  peer_buf_alloc :: u32
  peer_fwd_cnt :: u32
  rx_cnt :: u32
  last_fwd_cnt_to_peer :: u32
  pending_rx :: u16
  expiry :: "int option"

text \<open>Of one call: the clock, the answers to writes, and what a read finds (an error or the bytes
  available; no bytes when the other end is closed).\<close>

record ConnEnv =
  now :: int
  writes :: answers
  reads :: "io_kind + u8 list"

definition from_millis :: "u64 \<Rightarrow> int" where
  "from_millis ms = uint ms * 1000000"

definition append_out :: "u8 list \<Rightarrow> VsockConnection \<Rightarrow> VsockConnection" where
  "append_out bs c = c\<lparr>stream := (stream c)\<lparr>stream_out := stream_out (stream c) @ bs\<rparr>\<rparr>"

definition new_peer_init :: "VsockBackendStream \<Rightarrow> u64 \<Rightarrow> u64 \<Rightarrow> u32 \<Rightarrow> u32 \<Rightarrow> u32 \<Rightarrow> VsockConnection" where
  "new_peer_init s lc pc lp pp alloc =
    \<lparr>conn_state = PeerInit, local_cid = lc, peer_cid = pc, local_port = lp, peer_port = pp, stream = s,
     tx_buf = txbuf_new, fwd_cnt = 0, peer_buf_alloc = alloc, peer_fwd_cnt = 0, rx_cnt = 0,
     last_fwd_cnt_to_peer = 0, pending_rx = prx_from Response, expiry = None\<rparr>"

definition new_local_init :: "VsockBackendStream \<Rightarrow> u64 \<Rightarrow> u64 \<Rightarrow> u32 \<Rightarrow> u32 \<Rightarrow> VsockConnection" where
  "new_local_init s lc pc lp pp =
    \<lparr>conn_state = LocalInit, local_cid = lc, peer_cid = pc, local_port = lp, peer_port = pp, stream = s,
     tx_buf = txbuf_new, fwd_cnt = 0, peer_buf_alloc = 0, peer_fwd_cnt = 0, rx_cnt = 0,
     last_fwd_cnt_to_peer = 0, pending_rx = prx_from Request, expiry = None\<rparr>"

definition will_expire :: "int \<Rightarrow> VsockConnection \<Rightarrow> bool" where
  "will_expire t c = (case expiry c of None \<Rightarrow> False | Some e \<Rightarrow> e > t)"

definition has_expired :: "int \<Rightarrow> VsockConnection \<Rightarrow> bool" where
  "has_expired t c = (case expiry c of None \<Rightarrow> False | Some e \<Rightarrow> e \<le> t)"

definition pend :: "PendingRx \<Rightarrow> VsockConnection \<Rightarrow> VsockConnection" where
  "pend it c = c\<lparr>pending_rx := prx_insert it (pending_rx c)\<rparr>"

definition unpend :: "PendingRx \<Rightarrow> VsockConnection \<Rightarrow> bool \<times> VsockConnection" where
  "unpend it c = (case prx_remove it (pending_rx c) of (r, d) \<Rightarrow> (r, c\<lparr>pending_rx := d\<rparr>))"

definition kill :: "VsockConnection \<Rightarrow> VsockConnection" where
  "kill c = pend Rst (c\<lparr>conn_state := Killed\<rparr>)"

definition has_pending_rx :: "VsockConnection \<Rightarrow> bool" where
  "has_pending_rx c \<longleftrightarrow> \<not> prx_is_empty (pending_rx c)"

definition peer_needs_credit_update :: "VsockConnection \<Rightarrow> bool" where
  "peer_needs_credit_update c \<longleftrightarrow>
    CONN_TX_BUF_SIZE - (fwd_cnt c - last_fwd_cnt_to_peer c) < CONN_CREDIT_UPDATE_THRESHOLD"

definition peer_avail_credit :: "VsockConnection \<Rightarrow> nat" where
  "peer_avail_credit c = unat (peer_buf_alloc c - (rx_cnt c - peer_fwd_cnt c))"

definition need_credit_update_from_peer :: "VsockConnection \<Rightarrow> bool" where
  "need_credit_update_from_peer c \<longleftrightarrow> peer_avail_credit c = 0"

definition init_pkt :: "VsockConnection \<Rightarrow> VsockPacket \<Rightarrow> VsockPacket" where
  "init_pkt c p =
    set_fwd_cnt (fwd_cnt c) (set_buf_alloc CONN_TX_BUF_SIZE (set_type VSOCK_TYPE_STREAM
      (set_dst_port (peer_port c) (set_src_port (local_port c)
        (set_dst_cid (peer_cid c) (set_src_cid (local_cid c)
          (p\<lparr>pkt_hdr := map (\<lambda>_. 0) (pkt_hdr p)\<rparr>)))))))"

definition push_tx :: "u8 list \<Rightarrow> VsockConnection \<Rightarrow> (CsmError + unit) \<times> VsockConnection" where
  "push_tx bs c = (case txbuf_push (tx_buf c) bs of (r, B) \<Rightarrow> (r, c\<lparr>tx_buf := B\<rparr>))"

definition send_bytes :: "answers \<Rightarrow> VsockConnection \<Rightarrow> u8 list \<Rightarrow> (CsmError + unit) \<times> VsockConnection" where
  "send_bytes ws c buf =
    (if \<not> txbuf_is_empty (tx_buf c) then push_tx buf c
     else case stream_write ws buf of
       (Inl WouldBlock, _) \<Rightarrow> push_tx buf c
     | (Inl e, _) \<Rightarrow> (Inl (StreamWrite e), c)
     | (Inr written, out, _) \<Rightarrow>
         (let c1 = (append_out out c)\<lparr>fwd_cnt := fwd_cnt c + word_of_nat written\<rparr>
          in if written < length buf then push_tx (drop written buf) c1 else (Inr (), c1)))"

section \<open>Packets for the guest\<close>

definition recv_credit_update :: "VsockConnection \<Rightarrow> VsockPacket \<Rightarrow> (VsockError + unit) \<times> VsockConnection \<times> VsockPacket" where
  "recv_credit_update c p = (case unpend CreditUpdate c of (due, c1) \<Rightarrow>
     if due \<and> \<not> has_pending_rx c1
     then (Inr (), c1\<lparr>last_fwd_cnt_to_peer := fwd_cnt c1\<rparr>, set_op VSOCK_OP_CREDIT_UPDATE p)
     else (Inl NoData, c1, p))"

definition can_send_to_peer :: "ConnState \<Rightarrow> bool" where
  "can_send_to_peer s = (case s of Established \<Rightarrow> True | PeerClosed r _ \<Rightarrow> \<not> r | _ \<Rightarrow> False)"

definition recv_rw :: "ConnEnv \<Rightarrow> VsockConnection \<Rightarrow> VsockPacket \<Rightarrow> (VsockError + unit) \<times> VsockConnection \<times> VsockPacket" where
  "recv_rw E c p =
    (if \<not> can_send_to_peer (conn_state c) then (Inr (), c, set_op VSOCK_OP_RST p)
     else if need_credit_update_from_peer c
     then (Inr (), c\<lparr>last_fwd_cnt_to_peer := fwd_cnt c\<rparr>, set_op VSOCK_OP_CREDIT_REQUEST p)
     else case pkt_buf p of None \<Rightarrow> (Inl PktBufMissing, c, p)
     | Some buf \<Rightarrow> (let max_len = min (length buf) (peer_avail_credit c) in
         case reads E of
           Inr avail \<Rightarrow>
             (let data = take max_len avail;
                  p1 = p\<lparr>pkt_buf := Some (copy_at buf 0 data)\<rparr>;
                  (c2, p2) = (if data = []
                    then (c\<lparr>conn_state := LocalClosed, expiry := Some (now E + from_millis CONN_SHUTDOWN_TIMEOUT_MS)\<rparr>,
                          set_flag VSOCK_FLAGS_SHUTDOWN_SEND (set_flag VSOCK_FLAGS_SHUTDOWN_RCV
                            (set_op VSOCK_OP_SHUTDOWN p1)))
                    else (c, set_len (word_of_nat (length data)) (set_op VSOCK_OP_RW p1)))
              in (Inr (), c2\<lparr>rx_cnt := rx_cnt c2 + pkt_len p2, last_fwd_cnt_to_peer := fwd_cnt c2\<rparr>, p2))
         | Inl WouldBlock \<Rightarrow> recv_credit_update c p
         | Inl OtherKind \<Rightarrow> (Inr (), c\<lparr>last_fwd_cnt_to_peer := fwd_cnt c\<rparr>, set_op VSOCK_OP_RST p)))"

definition recv_pkt :: "ConnEnv \<Rightarrow> VsockConnection \<Rightarrow> VsockPacket \<Rightarrow> (VsockError + unit) \<times> VsockConnection \<times> VsockPacket" where
  "recv_pkt E c p =
    (let p0 = init_pkt c p; (rst, c1) = unpend Rst c in
     if rst then (Inr (), c1, set_op VSOCK_OP_RST p0)
     else let (response, c2) = unpend Response c1 in
     if response then (Inr (), c2\<lparr>conn_state := Established\<rparr>, set_op VSOCK_OP_RESPONSE p0)
     else let (request, c3) = unpend Request c2 in
     if request then (Inr (), c3\<lparr>expiry := Some (now E + from_millis CONN_REQUEST_TIMEOUT_MS)\<rparr>,
                      set_op VSOCK_OP_REQUEST p0)
     else let (rw, c4) = unpend Rw c3 in
     if rw then recv_rw E c4 p0 else recv_credit_update c4 p0)"

section \<open>Packets from the guest\<close>

definition can_recv_from_peer :: "ConnState \<Rightarrow> bool" where
  "can_recv_from_peer s = (case s of Established \<Rightarrow> True | PeerClosed _ w \<Rightarrow> \<not> w | _ \<Rightarrow> False)"

text \<open>The handling of data; \<open>VsockPanics\<close> is the slice \<^verbatim>\<open>[..pkt.len()]\<close> of a shorter buffer.\<close>

definition send_data :: "ConnEnv \<Rightarrow> VsockConnection \<Rightarrow> VsockPacket \<Rightarrow> (VsockError + unit) \<times> VsockConnection" where
  "send_data E c p = (case pkt_buf p of None \<Rightarrow> (Inr (), c)
     | Some buf \<Rightarrow>
         if length buf < unat (pkt_len p) then (Inl VsockPanics, c)
         else case send_bytes (writes E) c (take (unat (pkt_len p)) buf) of
           (Inl _, c1) \<Rightarrow> (Inr (), kill c1)
         | (Inr _, c1) \<Rightarrow> (Inr (), if peer_needs_credit_update c1 then pend CreditUpdate c1 else c1))"

definition recv_off :: "VsockPacket \<Rightarrow> bool" where
  "recv_off p \<longleftrightarrow> pkt_flags p AND VSOCK_FLAGS_SHUTDOWN_RCV \<noteq> 0"

definition send_off :: "VsockPacket \<Rightarrow> bool" where
  "send_off p \<longleftrightarrow> pkt_flags p AND VSOCK_FLAGS_SHUTDOWN_SEND \<noteq> 0"

definition peer_shutdown :: "ConnEnv \<Rightarrow> VsockConnection \<Rightarrow> VsockPacket \<Rightarrow> VsockConnection" where
  "peer_shutdown E c p =
    (let c1 = c\<lparr>conn_state := PeerClosed (recv_off p) (send_off p)\<rparr> in
     if recv_off p \<and> send_off p then
       (if txbuf_is_empty (tx_buf c1) then pend Rst c1
        else c1\<lparr>expiry := Some (now E + from_millis CONN_SHUTDOWN_TIMEOUT_MS)\<rparr>)
     else c1)"

definition peer_shutdown_more :: "bool \<Rightarrow> bool \<Rightarrow> VsockConnection \<Rightarrow> VsockPacket \<Rightarrow> VsockConnection" where
  "peer_shutdown_more r w c p =
    (let r1 = (r \<or> recv_off p); w1 = (w \<or> send_off p); c1 = c\<lparr>conn_state := PeerClosed r1 w1\<rparr> in
     if r1 \<and> w1 \<and> txbuf_is_empty (tx_buf c1) then pend Rst c1 else c1)"

text \<open>The arms of the match after the one for data.\<close>

definition send_control :: "ConnEnv \<Rightarrow> VsockConnection \<Rightarrow> VsockPacket \<Rightarrow> VsockConnection" where
  "send_control E c p = (case conn_state c of
       LocalInit \<Rightarrow> if pkt_op p = VSOCK_OP_RESPONSE then c\<lparr>expiry := None, conn_state := Established\<rparr> else c
     | Established \<Rightarrow>
         if pkt_op p = VSOCK_OP_SHUTDOWN then peer_shutdown E c p
         else if pkt_op p = VSOCK_OP_CREDIT_REQUEST then pend CreditUpdate c else c
     | PeerClosed r w \<Rightarrow>
         if pkt_op p = VSOCK_OP_SHUTDOWN then peer_shutdown_more r w c p
         else if pkt_op p = VSOCK_OP_CREDIT_REQUEST \<and> \<not> w then pend CreditUpdate c else c
     | PeerInit \<Rightarrow> if pkt_op p = VSOCK_OP_CREDIT_REQUEST then pend CreditUpdate c else c
     | _ \<Rightarrow> c)"

definition send_pkt :: "ConnEnv \<Rightarrow> VsockConnection \<Rightarrow> VsockPacket \<Rightarrow> (VsockError + unit) \<times> VsockConnection" where
  "send_pkt E c0 p =
    (let c = c0\<lparr>peer_buf_alloc := buf_alloc p, peer_fwd_cnt := pkt_fwd_cnt p\<rparr> in
     if can_recv_from_peer (conn_state c) \<and> pkt_op p = VSOCK_OP_RW then send_data E c p
     else (Inr (), send_control E c p))"

section \<open>Events of the stream\<close>

record Events =
  epollin :: bool
  epollout :: bool

definition conn_polled_evset :: "VsockConnection \<Rightarrow> Events" where
  "conn_polled_evset c =
    \<lparr>epollin = (case conn_state c of Killed \<Rightarrow> False | LocalClosed \<Rightarrow> False | PeerClosed True _ \<Rightarrow> False
       | _ \<Rightarrow> \<not> need_credit_update_from_peer c),
     epollout = (\<not> txbuf_is_empty (tx_buf c))\<rparr>"

text \<open>An unallocated buffer is never read (theory \<open>Vsock_TxBuf\<close>), so its panic has no branch here.\<close>

definition flush_tx :: "answers \<Rightarrow> VsockConnection \<Rightarrow> VsockConnection" where
  "flush_tx ws c = (case flush_to ws (tx_buf c) of (r, out, B, _) \<Rightarrow>
     (let c1 = (append_out out c)\<lparr>tx_buf := B\<rparr>;
          (flushed, c2) = (case r of Inr n \<Rightarrow> (n, c1)
             | Inl (TxBufFlush WouldBlock) \<Rightarrow> (0, c1)
             | Inl _ \<Rightarrow> (0, kill c1));
          c3 = c2\<lparr>fwd_cnt := fwd_cnt c2 + word_of_nat flushed\<rparr>
      in if conn_state c3 = PeerClosed True True \<and> txbuf_is_empty (tx_buf c3) then pend Rst c3
         else if peer_needs_credit_update c3 then pend CreditUpdate c3 else c3))"

definition conn_notify :: "ConnEnv \<Rightarrow> VsockConnection \<Rightarrow> Events \<Rightarrow> VsockConnection" where
  "conn_notify E c ev =
    (let c1 = (if epollin ev then pend Rw c else c) in
     if epollout ev \<and> \<not> txbuf_is_empty (tx_buf c1) then flush_tx (writes E) c1 else c1)"

end
