(* ===== verification/Vsock_Stream.thy ===== *)
theory Vsock_Stream
  imports Vsock_Connection "HOL-Library.Sublist"
begin

text \<open>
  What a connection guarantees for the data that the guest sends: the host stream receives the
  bytes that the guest sends while the connection is open for them in order, none twice, and none
  left out unless the connection is killed.
\<close>

section \<open>The set of pending indications\<close>

lemma prx_contains_bit: "prx_contains it d \<longleftrightarrow> bit d (rx_index it)"
  by (simp add: prx_contains_def into_mask_def bit_iff_and_push_bit_not_eq_0)

lemma rx_index_less: "rx_index it < 5"
  by (cases it) simp_all

lemma rx_index_inject: "rx_index i = rx_index j \<longleftrightarrow> i = j"
  by (cases i; cases j) simp_all

lemma prx_contains_simps [simp]:
  "prx_contains i (prx_insert j d) \<longleftrightarrow> i = j \<or> prx_contains i d"
  "prx_contains i (prx_from j) \<longleftrightarrow> i = j"
  "prx_contains i (snd (prx_remove j d)) \<longleftrightarrow> i \<noteq> j \<and> prx_contains i d"
  using rx_index_less [of i] rx_index_less [of j] rx_index_inject [of i j]
  by (auto simp: prx_contains_bit prx_insert_def prx_from_def prx_remove_def into_mask_def bit_simps)

definition pending :: "VsockConnection \<Rightarrow> PendingRx set" where
  "pending c = {it. prx_contains it (pending_rx c)}"

lemma unpend_eq: "unpend it c = (it \<in> pending c, c\<lparr>pending_rx := snd (prx_remove it (pending_rx c))\<rparr>)"
  by (simp add: unpend_def pending_def prx_remove_def)

lemma prx_remove_absent: "it \<notin> pending c \<Longrightarrow> snd (prx_remove it (pending_rx c)) = pending_rx c"
proof -
  assume "it \<notin> pending c"
  then have "\<not> bit (pending_rx c) (rx_index it)" by (simp add: pending_def prx_contains_bit)
  then have "pending_rx c AND NOT (push_bit (rx_index it) 1) = pending_rx c"
    by (intro bit_word_eqI) (auto simp: bit_simps)
  then show ?thesis by (simp add: prx_remove_def into_mask_def)
qed

lemma pending_update [simp]:
  "pending (c\<lparr>pending_rx := snd (prx_remove it (pending_rx c))\<rparr>) = pending c - {it}"
  "pending (pend it c) = insert it (pending c)"
  by (auto simp: pending_def pend_def)

lemma pending_frame [simp]:
  "pending (c\<lparr>conn_state := s\<rparr>) = pending c" "pending (c\<lparr>expiry := x\<rparr>) = pending c"
  "pending (c\<lparr>fwd_cnt := w\<rparr>) = pending c" "pending (c\<lparr>rx_cnt := w\<rparr>) = pending c"
  "pending (c\<lparr>last_fwd_cnt_to_peer := w\<rparr>) = pending c" "pending (c\<lparr>tx_buf := B\<rparr>) = pending c"
  "pending (c\<lparr>peer_buf_alloc := w\<rparr>) = pending c" "pending (c\<lparr>peer_fwd_cnt := w\<rparr>) = pending c"
  "pending (append_out bs c) = pending c" "pending (kill c) = insert Rst (pending c)"
  by (auto simp: pending_def append_out_def kill_def pend_def)

text \<open>The mask has no other bits, so that it is 0 exactly when nothing is pending.\<close>

definition mask_ok :: "VsockConnection \<Rightarrow> bool" where
  "mask_ok c \<longleftrightarrow> (\<forall>n. bit (pending_rx c) n \<longrightarrow> n < 5)"

lemma index_cases: "n < 5 \<Longrightarrow> \<exists>it. n = rx_index it"
  by (cases "n = 0"; cases "n = 1"; cases "n = 2"; cases "n = 3")
    (auto intro: exI [of _ Request] exI [of _ Response] exI [of _ Rst] exI [of _ Rw] exI [of _ CreditUpdate])

lemma has_pending_rx_iff: "mask_ok c \<Longrightarrow> has_pending_rx c \<longleftrightarrow> pending c \<noteq> {}"
proof -
  assume m: "mask_ok c"
  have "pending_rx c \<noteq> 0 \<longleftrightarrow> (\<exists>n. bit (pending_rx c) n)" by (metis bit_0_eq bot_apply bit_word_eqI bot_bool_def)
  also have "\<dots> \<longleftrightarrow> (\<exists>it. bit (pending_rx c) (rx_index it))" using m index_cases by (auto simp: mask_ok_def)
  finally show ?thesis by (simp add: has_pending_rx_def prx_is_empty_def pending_def prx_contains_bit)
qed

section \<open>Moving data\<close>

text \<open>A connection that has written \<open>out\<close> to its stream and is left with the buffer \<open>B\<close>.\<close>

definition moved :: "u8 list \<Rightarrow> TxBuf \<Rightarrow> VsockConnection \<Rightarrow> VsockConnection" where
  "moved out B c = (append_out out c)\<lparr>tx_buf := B, fwd_cnt := fwd_cnt c + word_of_nat (length out)\<rparr>"

lemma moved_sel [simp]:
  "stream_out (stream (moved out B c)) = stream_out (stream c) @ out" "tx_buf (moved out B c) = B"
  "fwd_cnt (moved out B c) = fwd_cnt c + word_of_nat (length out)"
  "conn_state (moved out B c) = conn_state c" "pending (moved out B c) = pending c"
  "rx_cnt (moved out B c) = rx_cnt c" "peer_buf_alloc (moved out B c) = peer_buf_alloc c"
  "peer_fwd_cnt (moved out B c) = peer_fwd_cnt c" "pending_rx (moved out B c) = pending_rx c"
  "last_fwd_cnt_to_peer (moved out B c) = last_fwd_cnt_to_peer c" "local_port (moved out B c) = local_port c"
  "peer_port (moved out B c) = peer_port c" "expiry (moved out B c) = expiry c"
  by (simp_all add: moved_def append_out_def) (simp add: pending_def)

lemma moved_none: "moved [] (tx_buf c) c = c"
  by (simp add: moved_def append_out_def)

lemma push_tx_spec:
  assumes "txbuf_ok (tx_buf c)" "push_tx bs c = (r, c')"
  shows "if length (buffered (tx_buf c)) + length bs \<le> TX_SIZE
    then r = Inr () \<and> (\<exists>B. c' = moved [] B c \<and> txbuf_ok B \<and> buffered B = buffered (tx_buf c) @ bs)
    else r = Inl TxBufFull \<and> c' = c"
  using assms(2) txbuf_push_spec [OF assms(1), of bs]
  by (auto simp: push_tx_def moved_def append_out_def split: if_splits prod.splits)

lemma send_bytes_spec:
  assumes ok: "txbuf_ok (tx_buf c)" and s: "send_bytes ws c bs = (r, c')"
  shows "\<exists>out B. c' = moved out B c \<and> txbuf_ok B \<and>
    (case r of Inr _ \<Rightarrow> out @ buffered B = buffered (tx_buf c) @ bs
     | Inl e \<Rightarrow> prefix (out @ buffered B) (buffered (tx_buf c) @ bs) \<and>
         (e = TxBufFull \<longrightarrow> TX_SIZE < length (buffered (tx_buf c)) + length bs))"
proof (cases "txbuf_is_empty (tx_buf c) \<and> fst (stream_write ws bs) \<noteq> Inl WouldBlock")
  case False
  then have "push_tx bs c = (r, c')"
    using s by (auto simp: send_bytes_def split: if_splits prod.splits sum.splits io_kind.splits)
  from push_tx_spec [OF ok this] consider
      B where "r = Inr ()" "c' = moved [] B c" "txbuf_ok B" "buffered B = buffered (tx_buf c) @ bs"
    | "r = Inl TxBufFull" "c' = c" "TX_SIZE < length (buffered (tx_buf c)) + length bs"
    by (auto split: if_splits)
  then show ?thesis
  proof cases
    case 1
    then show ?thesis by (intro exI [of _ "[]"] exI [of _ B]) simp
  next
    case 2
    then show ?thesis using ok moved_none [of c] by (intro exI [of _ "[]"] exI [of _ "tx_buf c"]) simp
  qed
next
  case True
  then have none: "buffered (tx_buf c) = []" using length_buffered [OF ok] by (simp add: txbuf_is_empty_def)
  obtain a out ws' where w: "stream_write ws bs = (a, out, ws')" by (metis prod_cases3)
  note spec = stream_write_spec [OF w]
  show ?thesis
  proof (cases a)
    case (Inl e)
    then have "r = Inl (StreamWrite e)" "c' = c"
      using True s w by (auto simp: send_bytes_def split: io_kind.splits)
    then show ?thesis using ok none moved_none [of c] by (intro exI [of _ "[]"] exI [of _ "tx_buf c"]) simp
  next
    case (Inr n)
    then have n: "n \<le> length bs" "out = take n bs" using spec by auto
    define c1 where "c1 = moved out (tx_buf c) c"
    have c1: "(append_out out c)\<lparr>fwd_cnt := fwd_cnt c + word_of_nat n\<rparr> = c1"
      using n by (simp add: c1_def moved_def append_out_def)
    show ?thesis
    proof (cases "n < length bs")
      case False
      then have "r = Inr ()" "c' = c1" using True s w Inr c1 by (auto simp: send_bytes_def Let_def)
      then show ?thesis using False ok none n by (intro exI [of _ out] exI [of _ "tx_buf c"]) (simp add: c1_def)
    next
      case less: True
      then have p: "push_tx (drop n bs) c1 = (r, c')" using True s w Inr c1 by (auto simp: send_bytes_def Let_def)
      have m: "moved [] B c1 = moved out B c" for B by (simp add: c1_def moved_def append_out_def)
      have ok1: "txbuf_ok (tx_buf c1)" and b1: "buffered (tx_buf c1) = []" using ok none by (simp_all add: c1_def)
      from push_tx_spec [OF ok1 p] b1 consider
          B where "r = Inr ()" "c' = moved [] B c1" "txbuf_ok B" "buffered B = drop n bs"
        | "r = Inl TxBufFull" "c' = c1" "TX_SIZE < length bs - n"
        by (auto split: if_splits)
      then show ?thesis
      proof cases
        case 1
        then show ?thesis using m n none by (intro exI [of _ out] exI [of _ B]) simp
      next
        case 2
        then show ?thesis using n none ok
          by (intro exI [of _ out] exI [of _ "tx_buf c"]) (simp add: c1_def take_is_prefix)
      qed
    qed
  qed
qed

lemma flush_tx_spec:
  assumes ok: "txbuf_ok (tx_buf c)" and f: "flush_tx ws c = c'"
  obtains out B d where "txbuf_ok B" "out @ buffered B = buffered (tx_buf c)"
    "d = moved out B c \<or> d = kill (moved out B c)"
    "c' = (if conn_state d = PeerClosed True True \<and> txbuf_is_empty (tx_buf d) then pend Rst d
      else if peer_needs_credit_update d then pend CreditUpdate d else d)"
proof -
  obtain r out B ws' where w: "flush_to ws (tx_buf c) = (r, out, B, ws')" by (metis prod_cases4)
  note spec = flush_to_spec [OF ok w]
  define d where "d = (if r \<in> range Inr \<or> r = Inl (TxBufFlush WouldBlock) then moved out B c else kill (moved out B c))"
  have "(append_out out c)\<lparr>tx_buf := B, fwd_cnt := fwd_cnt c + word_of_nat (length out)\<rparr> = moved out B c"
    by (simp add: moved_def)
  then have "c' = (if conn_state d = PeerClosed True True \<and> txbuf_is_empty (tx_buf d) then pend Rst d
      else if peer_needs_credit_update d then pend CreditUpdate d else d)"
    using f w spec
    by (cases r) (auto simp: flush_tx_def Let_def d_def moved_def append_out_def kill_def pend_def
        split: CsmError.splits io_kind.splits)
  then show thesis using that [of B out d] spec by (simp add: d_def)
qed

lemma pend_sel [simp]:
  "stream (pend it c) = stream c" "tx_buf (pend it c) = tx_buf c" "fwd_cnt (pend it c) = fwd_cnt c"
  "conn_state (pend it c) = conn_state c" "rx_cnt (pend it c) = rx_cnt c"
  "peer_buf_alloc (pend it c) = peer_buf_alloc c" "peer_fwd_cnt (pend it c) = peer_fwd_cnt c"
  "last_fwd_cnt_to_peer (pend it c) = last_fwd_cnt_to_peer c" "local_port (pend it c) = local_port c"
  "peer_port (pend it c) = peer_port c" "expiry (pend it c) = expiry c"
  by (simp_all add: pend_def)

lemma kill_sel [simp]:
  "stream (kill c) = stream c" "tx_buf (kill c) = tx_buf c" "fwd_cnt (kill c) = fwd_cnt c"
  "conn_state (kill c) = Killed" "rx_cnt (kill c) = rx_cnt c"
  "peer_buf_alloc (kill c) = peer_buf_alloc c" "peer_fwd_cnt (kill c) = peer_fwd_cnt c"
  "last_fwd_cnt_to_peer (kill c) = last_fwd_cnt_to_peer c" "local_port (kill c) = local_port c"
  "peer_port (kill c) = peer_port c" "expiry (kill c) = expiry c"
  by (simp_all add: kill_def)

section \<open>Packets for the guest\<close>

lemma init_pkt_ok: "hdr_ok p \<Longrightarrow> hdr_ok (init_pkt c p)"
  by (simp add: init_pkt_def hdr_ok_def [of "p\<lparr>pkt_hdr := map (\<lambda>_. 0) (pkt_hdr p)\<rparr>"] hdr_ok_def [of p])

lemma from_le_bytes_zero: "from_le_bytes (map (\<lambda>_. 0) bs) = 0"
  by (induction bs) simp_all

lemma init_pkt_header:
  assumes "hdr_ok p"
  shows "pkt_header (init_pkt c p) = \<lparr>vh_src_cid = local_cid c, vh_dst_cid = peer_cid c,
    vh_src_port = local_port c, vh_dst_port = peer_port c, vh_len = 0, vh_type_field = VSOCK_TYPE_STREAM,
    vh_op = 0, vh_flags = 0, vh_buf_alloc = CONN_TX_BUF_SIZE, vh_fwd_cnt = fwd_cnt c\<rparr>"
proof -
  let ?z = "p\<lparr>pkt_hdr := map (\<lambda>_. 0) (pkt_hdr p)\<rparr>"
  have ok: "hdr_ok ?z" using assms by (simp add: hdr_ok_def)
  have "pkt_header ?z = \<lparr>vh_src_cid = 0, vh_dst_cid = 0, vh_src_port = 0, vh_dst_port = 0, vh_len = 0,
      vh_type_field = 0, vh_op = 0, vh_flags = 0, vh_buf_alloc = 0, vh_fwd_cnt = 0\<rparr>"
    by (simp add: pkt_header_def hdr_from_slice_def Let_def take_map drop_map from_le_bytes_zero)
  then show ?thesis using ok by (simp add: init_pkt_def pkt_header_set)
qed

text \<open>What \<^verbatim>\<open>recv_pkt\<close> does to the connection and how the packet it yields is addressed.\<close>

definition addressed :: "VsockConnection \<Rightarrow> VsockPacket \<Rightarrow> bool" where
  "addressed c p \<longleftrightarrow> hdr_ok p \<and> src_port p = local_port c \<and> dst_port p = peer_port c \<and>
    buf_alloc p = CONN_TX_BUF_SIZE \<and> pkt_fwd_cnt p = fwd_cnt c"

definition recv_effect :: "VsockConnection \<Rightarrow> (VsockError + unit) \<times> VsockConnection \<times> VsockPacket \<Rightarrow> bool" where
  "recv_effect c res = (case res of (r, c', p') \<Rightarrow>
    stream c' = stream c \<and> tx_buf c' = tx_buf c \<and> fwd_cnt c' = fwd_cnt c \<and>
    peer_buf_alloc c' = peer_buf_alloc c \<and> peer_fwd_cnt c' = peer_fwd_cnt c \<and>
    local_port c' = local_port c \<and> peer_port c' = peer_port c \<and>
    pending c' \<subseteq> pending c \<and> (mask_ok c \<longrightarrow> mask_ok c') \<and>
    (conn_state c' = conn_state c \<or> (Response \<in> pending c - pending c' \<and> conn_state c' = Established) \<or>
       (can_send_to_peer (conn_state c) \<and> conn_state c' = LocalClosed)) \<and>
    addressed c p' \<and>
    (if r = Inr () then rx_cnt c' = rx_cnt c + pkt_len p' \<and> unat (pkt_len p') \<le> peer_avail_credit c \<and>
       (pkt_len p' \<noteq> 0 \<longrightarrow> pkt_op p' = VSOCK_OP_RW)
     else rx_cnt c' = rx_cnt c))"

lemma mask_ok_upd [simp]:
  "mask_ok c \<Longrightarrow> mask_ok (c\<lparr>pending_rx := snd (prx_remove it (pending_rx c))\<rparr>)"
  "mask_ok c \<Longrightarrow> mask_ok (pend it c)"
  using rx_index_less [of it] by (auto simp: mask_ok_def prx_remove_def pend_def prx_insert_def into_mask_def bit_simps)

lemma mask_ok_frame [simp]:
  "mask_ok (c\<lparr>conn_state := s\<rparr>) = mask_ok c" "mask_ok (c\<lparr>expiry := x\<rparr>) = mask_ok c"
  "mask_ok (c\<lparr>rx_cnt := w\<rparr>) = mask_ok c" "mask_ok (c\<lparr>last_fwd_cnt_to_peer := w\<rparr>) = mask_ok c"
  "mask_ok (c\<lparr>peer_buf_alloc := w\<rparr>) = mask_ok c" "mask_ok (c\<lparr>peer_fwd_cnt := w\<rparr>) = mask_ok c"
  "mask_ok (moved out B c) = mask_ok c"
  by (simp_all add: mask_ok_def)

lemma pending_new [simp]:
  "pending (new_local_init st lc pc lp pp) = {Request}" "pending (new_peer_init st lc pc lp pp al) = {Response}"
  "mask_ok (new_local_init st lc pc lp pp)" "mask_ok (new_peer_init st lc pc lp pp al)"
  by (auto simp: pending_def mask_ok_def new_local_init_def new_peer_init_def)
    (auto simp: prx_from_def into_mask_def bit_simps bit_1_iff)

lemma mask_ok_kill [simp]: "mask_ok c \<Longrightarrow> mask_ok (kill c)"
  by (simp add: kill_def)

lemma addressed_init: "hdr_ok p \<Longrightarrow> addressed c (init_pkt c p) \<and> pkt_len (init_pkt c p) = 0"
  by (simp add: addressed_def pkt_get_header init_pkt_header init_pkt_ok)

lemma set_op_addressed [simp]:
  "addressed c p \<Longrightarrow> addressed c (set_op x p)" "addressed c p \<Longrightarrow> addressed c (set_flag f p)"
  "addressed c p \<Longrightarrow> addressed c (set_len n p)"
  by (auto simp: addressed_def pkt_get_header pkt_header_set set_flag_def)

lemma set_op_fields [simp]:
  "hdr_ok p \<Longrightarrow> pkt_len (set_op x p) = pkt_len p" "hdr_ok p \<Longrightarrow> pkt_op (set_op x p) = x"
  "hdr_ok p \<Longrightarrow> pkt_len (set_flag f p) = pkt_len p" "hdr_ok p \<Longrightarrow> pkt_op (set_flag f p) = pkt_op p"
  "hdr_ok p \<Longrightarrow> pkt_len (set_len n p) = n" "hdr_ok p \<Longrightarrow> pkt_op (set_len n p) = pkt_op p"
  "hdr_ok p \<Longrightarrow> hdr_ok (set_flag f p)"
  by (auto simp: pkt_get_header pkt_header_set set_flag_def)

lemma addressed_hdr_ok: "addressed c p \<Longrightarrow> hdr_ok p"
  by (simp add: addressed_def)

lemma set_buf_addressed [simp]:
  "addressed c (p\<lparr>pkt_buf := b\<rparr>) = addressed c p"
  by (simp add: addressed_def pkt_get_header pkt_header_def hdr_ok_def)

lemma recv_credit_update_effect:
  "addressed c p \<Longrightarrow> pkt_len p = 0 \<Longrightarrow> recv_effect c (recv_credit_update c p)"
  using addressed_hdr_ok [of c p] by (auto simp: recv_effect_def recv_credit_update_def unpend_eq)

lemma recv_effect_control:
  assumes "addressed c p" "pkt_len p = 0"
  shows "recv_effect c (Inr (), c, set_op x p)" "recv_effect c (Inl e, c, p)"
    "recv_effect c (Inr (), c\<lparr>last_fwd_cnt_to_peer := w\<rparr>, set_op x p)"
  using assms addressed_hdr_ok [OF assms(1)] by (simp_all add: recv_effect_def)

lemma recv_effect_closed:
  fixes x :: "int option" and f g :: u32 and y :: u16
  assumes "addressed c p" "pkt_len p = 0" "can_send_to_peer (conn_state c)"
  defines "c1 \<equiv> c\<lparr>conn_state := LocalClosed, expiry := x\<rparr>"
    and "p1 \<equiv> set_flag f (set_flag g (set_op y p))"
  shows "recv_effect c (Inr (), c1\<lparr>rx_cnt := rx_cnt c1 + pkt_len p1, last_fwd_cnt_to_peer := w\<rparr>, p1)"
  using assms(1-3) addressed_hdr_ok [OF assms(1)] by (simp add: recv_effect_def c1_def p1_def)

lemma recv_effect_data:
  assumes "addressed c p" "n \<le> peer_avail_credit c"
  defines "p1 \<equiv> set_len (word_of_nat n) (set_op VSOCK_OP_RW p)"
  shows "recv_effect c (Inr (), c\<lparr>rx_cnt := rx_cnt c + pkt_len p1, last_fwd_cnt_to_peer := w\<rparr>, p1)"
proof -
  have "unat (word_of_nat n :: u32) \<le> peer_avail_credit c"
    using assms(2) order_trans [OF mod_less_eq_dividend] by (simp add: unat_of_nat)
  then show ?thesis using assms(1) addressed_hdr_ok [OF assms(1)] by (simp add: recv_effect_def p1_def)
qed

lemma recv_rw_effect:
  assumes "addressed c p" "pkt_len p = 0"
  shows "recv_effect c (recv_rw E c p)"
proof (cases "can_send_to_peer (conn_state c) \<and> \<not> need_credit_update_from_peer c")
  case False
  then show ?thesis using recv_effect_control [OF assms] by (simp add: recv_rw_def)
next
  case True
  show ?thesis
  proof (cases "pkt_buf p")
    case None
    then show ?thesis using True recv_effect_control [OF assms] by (simp add: recv_rw_def)
  next
    case (Some buf)
    show ?thesis
    proof (cases "reads E")
      case (Inl e)
      then show ?thesis using True Some recv_effect_control [OF assms] recv_credit_update_effect [OF assms]
        by (cases e) (simp_all add: recv_rw_def Let_def)
    next
      case (Inr avail)
      define data where "data = take (min (length buf) (peer_avail_credit c)) avail"
      define p1 where "p1 = p\<lparr>pkt_buf := Some (copy_at buf 0 data)\<rparr>"
      have p1: "addressed c p1" "pkt_len p1 = 0" using assms by (simp_all add: p1_def pkt_len_def hdr_read_def)
      have len: "length data \<le> peer_avail_credit c" by (simp add: data_def)
      have "recv_rw E c p = (let (c2, p2) = (if data = []
          then (c\<lparr>conn_state := LocalClosed, expiry := Some (now E + from_millis CONN_SHUTDOWN_TIMEOUT_MS)\<rparr>,
            set_flag VSOCK_FLAGS_SHUTDOWN_SEND (set_flag VSOCK_FLAGS_SHUTDOWN_RCV (set_op VSOCK_OP_SHUTDOWN p1)))
          else (c, set_len (word_of_nat (length data)) (set_op VSOCK_OP_RW p1)))
        in (Inr (), c2\<lparr>rx_cnt := rx_cnt c2 + pkt_len p2, last_fwd_cnt_to_peer := fwd_cnt c2\<rparr>, p2))"
        unfolding recv_rw_def p1_def data_def using True Some Inr by (simp add: Let_def)
      then show ?thesis
        using True recv_effect_closed [OF p1] recv_effect_data [OF p1(1) len] by (cases "data = []") simp_all
    qed
  qed
qed

abbreviation cleared :: "PendingRx \<Rightarrow> VsockConnection \<Rightarrow> VsockConnection" where
  "cleared it c \<equiv> c\<lparr>pending_rx := snd (prx_remove it (pending_rx c))\<rparr>"

lemma recv_pkt_eq:
  "recv_pkt E c p = (let q = init_pkt c p in
    if Rst \<in> pending c then (Inr (), cleared Rst c, set_op VSOCK_OP_RST q)
    else if Response \<in> pending c then (Inr (), (cleared Response c)\<lparr>conn_state := Established\<rparr>, set_op VSOCK_OP_RESPONSE q)
    else if Request \<in> pending c
    then (Inr (), (cleared Request c)\<lparr>expiry := Some (now E + from_millis CONN_REQUEST_TIMEOUT_MS)\<rparr>, set_op VSOCK_OP_REQUEST q)
    else if Rw \<in> pending c then recv_rw E (cleared Rw c) q else recv_credit_update c q)"
  by (simp add: recv_pkt_def unpend_eq Let_def prx_remove_absent)

text \<open>Every call that has something pending removes an indication.\<close>

lemma recv_pkt_effect:
  assumes p: "hdr_ok p" and r: "recv_pkt E c p = (r, c', p')"
  shows "recv_effect c (r, c', p')" "pending c \<noteq> {} \<Longrightarrow> pending c' \<subset> pending c"
proof -
  define q where "q = init_pkt c p"
  define rem where "rem it = c\<lparr>pending_rx := snd (prx_remove it (pending_rx c))\<rparr>" for it
  have q: "addressed c q" "pkt_len q = 0" using addressed_init [OF p, of c] by (simp_all add: q_def)
  have ok: "hdr_ok q" by (rule addressed_hdr_ok [OF q(1)])
  have qr: "addressed (rem it) q" for it using q(1) by (simp add: rem_def addressed_def)
  have pr: "pending (rem it) = pending c - {it}" for it by (simp add: rem_def)
  have lift: "recv_effect (rem it) (r, c', p') \<Longrightarrow> recv_effect c (r, c', p')" for it
    by (auto simp: recv_effect_def rem_def addressed_def peer_avail_credit_def)
  have res: "(r, c', p') = (if Rst \<in> pending c then (Inr (), rem Rst, set_op VSOCK_OP_RST q)
      else if Response \<in> pending c then (Inr (), (rem Response)\<lparr>conn_state := Established\<rparr>, set_op VSOCK_OP_RESPONSE q)
      else if Request \<in> pending c
      then (Inr (), (rem Request)\<lparr>expiry := Some (now E + from_millis CONN_REQUEST_TIMEOUT_MS)\<rparr>, set_op VSOCK_OP_REQUEST q)
      else if Rw \<in> pending c then recv_rw E (rem Rw) q else recv_credit_update c q)"
    unfolding q_def rem_def r [symmetric] recv_pkt_eq Let_def by (rule refl)
  consider it where "it \<in> pending c" "recv_effect (rem it) (r, c', p')"
    | "Rst \<notin> pending c" "Response \<in> pending c"
    | "pending c \<subseteq> {CreditUpdate}"
  proof -
    have "pending c \<subseteq> {Rst, Response, Request, Rw, CreditUpdate}" using PendingRx.exhaust by blast
    moreover have "recv_effect (rem Rst) (Inr (), rem Rst, set_op VSOCK_OP_RST q)"
      by (rule recv_effect_control(1) [OF qr q(2)])
    moreover have "recv_effect (rem Request) (Inr (), (rem Request)\<lparr>expiry := x\<rparr>, set_op VSOCK_OP_REQUEST q)" for x
      using qr [of Request] q(2) ok by (simp add: recv_effect_def)
    moreover have "recv_effect (rem Rw) (recv_rw E (rem Rw) q)" by (rule recv_rw_effect [OF qr q(2)])
    ultimately show thesis using that res by (auto split: if_splits)
  qed
  then have "recv_effect c (r, c', p') \<and> (pending c \<noteq> {} \<longrightarrow> pending c' \<subset> pending c)"
  proof cases
    case 1
    then have "pending c' \<subseteq> pending c - {it}" by (simp add: recv_effect_def pr)
    then show ?thesis using lift [OF 1(2)] 1(1) by blast
  next
    case 2
    then have "r = Inr ()" "c' = (rem Response)\<lparr>conn_state := Established\<rparr>" "p' = set_op VSOCK_OP_RESPONSE q"
      using res by simp_all
    then show ?thesis using q ok 2 by (auto simp: recv_effect_def rem_def)
  next
    case 3
    then have "recv_credit_update c q = (r, c', p')" using res by auto
    moreover from this have "pending c' \<subseteq> pending c - {CreditUpdate}"
      by (auto simp: recv_credit_update_def unpend_eq split: if_splits)
    ultimately show ?thesis using recv_credit_update_effect [OF q] 3 by auto
  qed
  then show "recv_effect c (r, c', p')" "pending c \<noteq> {} \<Longrightarrow> pending c' \<subset> pending c" by auto
qed

section \<open>Data from the guest\<close>

text \<open>The bytes of a packet that the connection takes.\<close>

definition payload :: "VsockConnection \<Rightarrow> VsockPacket \<Rightarrow> u8 list" where
  "payload c p = (if can_recv_from_peer (conn_state c) \<and> pkt_op p = VSOCK_OP_RW then
     (case pkt_buf p of None \<Rightarrow> []
      | Some b \<Rightarrow> if length b < unat (pkt_len p) then [] else take (unat (pkt_len p)) b)
     else [])"

text \<open>From \<open>c\<close> to \<open>c'\<close> the connection takes the bytes \<open>bs\<close> behind those it holds and passes on a first part
  of them; only a killed connection drops some.\<close>

definition forwards :: "VsockConnection \<Rightarrow> u8 list \<Rightarrow> VsockConnection \<Rightarrow> bool" where
  "forwards c bs c' \<longleftrightarrow> txbuf_ok (tx_buf c') \<and>
    (\<exists>out. stream_out (stream c') = stream_out (stream c) @ out \<and> fwd_cnt c' = fwd_cnt c + word_of_nat (length out) \<and>
      (out @ buffered (tx_buf c') = buffered (tx_buf c) @ bs \<or>
       conn_state c' = Killed \<and> can_recv_from_peer (conn_state c) \<and>
         prefix (out @ buffered (tx_buf c')) (buffered (tx_buf c) @ bs)))"

lemma forwards_none:
  "txbuf_ok (tx_buf c) \<Longrightarrow> stream c' = stream c \<Longrightarrow> tx_buf c' = tx_buf c \<Longrightarrow> fwd_cnt c' = fwd_cnt c \<Longrightarrow> forwards c [] c'"
  unfolding forwards_def by (auto intro: exI [of _ "[]"])

definition response_ok :: "VsockConnection \<Rightarrow> bool" where
  "response_ok c \<longleftrightarrow> (Response \<in> pending c \<longrightarrow> conn_state c \<in> {PeerInit, Killed})"

lemma send_data_effect:
  assumes ok: "txbuf_ok (tx_buf c)" and r: "can_recv_from_peer (conn_state c)" "pkt_op p = VSOCK_OP_RW"
    and s: "send_data E c p = (r, c')"
  shows "forwards c (payload c p) c' \<and> (conn_state c' = conn_state c \<or> conn_state c' = Killed) \<and>
    pending c \<subseteq> pending c' \<and> pending c' \<subseteq> pending c \<union> {Rst, CreditUpdate} \<and> (mask_ok c \<longrightarrow> mask_ok c') \<and> rx_cnt c' = rx_cnt c \<and>
    peer_buf_alloc c' = peer_buf_alloc c \<and> peer_fwd_cnt c' = peer_fwd_cnt c"
proof (cases "\<exists>b. pkt_buf p = Some b \<and> unat (pkt_len p) \<le> length b")
  case False
  then have "c' = c" "payload c p = []"
    using s by (auto simp: send_data_def payload_def split: option.splits if_splits)
  then show ?thesis using forwards_none [OF ok, of c] by auto
next
  case True
  then obtain b where b: "pkt_buf p = Some b" "\<not> length b < unat (pkt_len p)" by auto
  define bs where "bs = take (unat (pkt_len p)) b"
  have pl: "payload c p = bs" using b r by (simp add: payload_def bs_def)
  obtain q c1 where w: "send_bytes (writes E) c bs = (q, c1)" by fastforce
  obtain out B where m: "c1 = moved out B c" "txbuf_ok B"
    "case q of Inr _ \<Rightarrow> out @ buffered B = buffered (tx_buf c) @ bs
     | Inl e \<Rightarrow> prefix (out @ buffered B) (buffered (tx_buf c) @ bs) \<and> (e = TxBufFull \<longrightarrow> TX_SIZE < length (buffered (tx_buf c)) + length bs)"
    using send_bytes_spec [OF ok w] by blast
  have "c' = (case q of Inl _ \<Rightarrow> kill c1 | Inr _ \<Rightarrow> if peer_needs_credit_update c1 then pend CreditUpdate c1 else c1)"
    using s b w by (auto simp: send_data_def bs_def split: sum.splits)
  then show ?thesis using m r pl
    by (cases q) (auto simp: forwards_def intro!: exI [of _ out])
qed

lemma forwards_same:
  assumes "forwards c bs c'" "stream c = stream d" "tx_buf c = tx_buf d" "fwd_cnt c = fwd_cnt d" "conn_state c = conn_state d"
  shows "forwards d bs c'"
  using assms by (simp add: forwards_def)

lemma send_control_effect:
  "stream (send_control E c p) = stream c" "tx_buf (send_control E c p) = tx_buf c"
  "fwd_cnt (send_control E c p) = fwd_cnt c" "rx_cnt (send_control E c p) = rx_cnt c"
  "peer_buf_alloc (send_control E c p) = peer_buf_alloc c" "peer_fwd_cnt (send_control E c p) = peer_fwd_cnt c"
  "pending c \<subseteq> pending (send_control E c p)" "pending (send_control E c p) \<subseteq> pending c \<union> {Rst, CreditUpdate}"
  "mask_ok c \<Longrightarrow> mask_ok (send_control E c p)"
  "conn_state c \<in> {PeerInit, Killed} \<Longrightarrow> conn_state (send_control E c p) = conn_state c"
  by (cases "conn_state c"; auto simp: send_control_def peer_shutdown_def peer_shutdown_more_def Let_def)+

lemma send_pkt_effect:
  assumes ok: "txbuf_ok (tx_buf c)" and s: "send_pkt E c p = (r, c')"
  shows "forwards c (payload c p) c' \<and> (response_ok c \<longrightarrow> response_ok c') \<and> (conn_state c = Killed \<longrightarrow> conn_state c' = Killed) \<and>
    pending c \<subseteq> pending c' \<and> pending c' \<subseteq> pending c \<union> {Rst, CreditUpdate} \<and> (mask_ok c \<longrightarrow> mask_ok c') \<and> rx_cnt c' = rx_cnt c \<and>
    peer_buf_alloc c' = buf_alloc p \<and> peer_fwd_cnt c' = pkt_fwd_cnt p"
proof -
  define d where "d = c\<lparr>peer_buf_alloc := buf_alloc p, peer_fwd_cnt := pkt_fwd_cnt p\<rparr>"
  have d: "txbuf_ok (tx_buf d)" "stream d = stream c" "tx_buf d = tx_buf c" "fwd_cnt d = fwd_cnt c"
    "conn_state d = conn_state c" "pending d = pending c" "mask_ok d = mask_ok c" "rx_cnt d = rx_cnt c"
    "peer_buf_alloc d = buf_alloc p" "peer_fwd_cnt d = pkt_fwd_cnt p" "payload d p = payload c p"
    using ok by (simp_all add: d_def payload_def)
  show ?thesis
  proof (cases "can_recv_from_peer (conn_state c) \<and> pkt_op p = VSOCK_OP_RW")
    case True
    then have "send_data E d p = (r, c')" using s by (simp add: send_pkt_def Let_def d_def)
    then have e: "forwards d (payload d p) c' \<and> (conn_state c' = conn_state d \<or> conn_state c' = Killed) \<and>
        pending d \<subseteq> pending c' \<and> pending c' \<subseteq> pending d \<union> {Rst, CreditUpdate} \<and> (mask_ok d \<longrightarrow> mask_ok c') \<and>
        rx_cnt c' = rx_cnt d \<and> peer_buf_alloc c' = peer_buf_alloc d \<and> peer_fwd_cnt c' = peer_fwd_cnt d"
      using True d(5) by (intro send_data_effect [OF d(1)]) simp_all
    then have "forwards c (payload c p) c'" using d forwards_same by metis
    moreover have "conn_state c \<notin> {PeerInit, Killed}" using True by (auto simp: can_recv_from_peer_def)
    ultimately show ?thesis using e unfolding d response_ok_def by blast
  next
    case False
    then have pl: "payload c p = []" and c': "c' = send_control E d p"
      using s by (auto simp: payload_def send_pkt_def Let_def d_def)
    note e = send_control_effect [where E = E and c = d and p = p, folded c', unfolded d]
    show ?thesis using e pl forwards_none [OF ok e(1-3)] unfolding response_ok_def by auto
  qed
qed

lemma conn_notify_effect:
  assumes ok: "txbuf_ok (tx_buf c)" and n: "conn_notify E c ev = c'"
  shows "forwards c [] c' \<and> (conn_state c' = conn_state c \<or> conn_state c' = Killed) \<and>
    pending c \<subseteq> pending c' \<and> pending c' \<subseteq> pending c \<union> {Rw, Rst, CreditUpdate} \<and> (mask_ok c \<longrightarrow> mask_ok c') \<and>
    rx_cnt c' = rx_cnt c \<and> peer_buf_alloc c' = peer_buf_alloc c \<and> peer_fwd_cnt c' = peer_fwd_cnt c"
proof -
  define d where "d = (if epollin ev then pend Rw c else c)"
  have d: "stream d = stream c" "tx_buf d = tx_buf c" "fwd_cnt d = fwd_cnt c" "conn_state d = conn_state c"
    "pending c \<subseteq> pending d" "pending d \<subseteq> insert Rw (pending c)" "mask_ok c \<Longrightarrow> mask_ok d" "rx_cnt d = rx_cnt c"
    "peer_buf_alloc d = peer_buf_alloc c" "peer_fwd_cnt d = peer_fwd_cnt c"
    by (auto simp: d_def)
  show ?thesis
  proof (cases "epollout ev \<and> \<not> txbuf_is_empty (tx_buf d)")
    case False
    then have "c' = d" using n by (auto simp: conn_notify_def Let_def d_def)
    then show ?thesis using d forwards_none [OF ok, of d] by auto
  next
    case True
    then have "flush_tx (writes E) d = c'" using n by (simp add: conn_notify_def Let_def d_def)
    from flush_tx_spec [OF _ this] ok d(2) obtain out B e where f: "txbuf_ok B" "out @ buffered B = buffered (tx_buf d)"
      "e = moved out B d \<or> e = kill (moved out B d)"
      "c' = (if conn_state e = PeerClosed True True \<and> txbuf_is_empty (tx_buf e) then pend Rst e
        else if peer_needs_credit_update e then pend CreditUpdate e else e)"
      by metis
    then have "c' \<in> {e, pend Rst e, pend CreditUpdate e}" by simp
    then show ?thesis using d f(1-3) by (auto simp: forwards_def intro!: exI [of _ out])
  qed
qed

section \<open>The life of a connection\<close>

text \<open>
  What is to be passed on, told from the packets that were exchanged: the connection is open once
  the one that was asked has answered with a response; the guest is done sending when it says so
  in a shutdown (bit 1 of the flags) of an open connection; the host is done when it sends a
  shutdown, at the end of its stream.
\<close>

record life =
  l_host_asks :: bool
  l_open :: bool
  l_guest_done :: bool
  l_host_done :: bool

definition life_new :: "bool \<Rightarrow> life" where
  "life_new host = \<lparr>l_host_asks = host, l_open = False, l_guest_done = False, l_host_done = False\<rparr>"

definition life_to_guest :: "VsockError + unit \<Rightarrow> VsockPacket \<Rightarrow> life \<Rightarrow> life" where
  "life_to_guest r p L = (if r \<noteq> Inr () then L
     else if pkt_op p = VSOCK_OP_RESPONSE then L\<lparr>l_open := True\<rparr>
     else if pkt_op p = VSOCK_OP_SHUTDOWN then L\<lparr>l_host_done := True\<rparr> else L)"

definition life_from_guest :: "VsockPacket \<Rightarrow> life \<Rightarrow> life" where
  "life_from_guest p L = (if pkt_op p = VSOCK_OP_RESPONSE then L\<lparr>l_open := (l_open L \<or> l_host_asks L)\<rparr>
     else if pkt_op p = VSOCK_OP_SHUTDOWN \<and> l_open L
     then L\<lparr>l_guest_done := (l_guest_done L \<or> bit (pkt_flags p) 1)\<rparr> else L)"

text \<open>The bytes of a data packet from the guest. A packet that announces more than its buffer has
  makes the host panic.\<close>

definition offered :: "life \<Rightarrow> VsockPacket \<Rightarrow> u8 list" where
  "offered L p = (if l_open L \<and> \<not> l_guest_done L \<and> \<not> l_host_done L \<and> pkt_op p = VSOCK_OP_RW then
     (case pkt_buf p of None \<Rightarrow> []
      | Some b \<Rightarrow> if length b < unat (pkt_len p) then [] else take (unat (pkt_len p)) b)
     else [])"

text \<open>How the state of the connection reflects its life.\<close>

definition life_ok :: "VsockConnection \<Rightarrow> life \<Rightarrow> bool" where
  "life_ok c L \<longleftrightarrow>
    (Response \<in> pending c \<longrightarrow> conn_state c \<in> {PeerInit, Killed} \<and> \<not> l_open L \<and> \<not> l_host_asks L) \<and>
    (\<not> l_open L \<longrightarrow> \<not> l_guest_done L) \<and> (\<not> l_open L \<longrightarrow> \<not> l_host_done L) \<and>
    (case conn_state c of LocalInit \<Rightarrow> \<not> l_open L \<and> l_host_asks L
     | PeerInit \<Rightarrow> \<not> l_open L \<and> \<not> l_host_asks L
     | Established \<Rightarrow> l_open L \<and> \<not> l_guest_done L \<and> \<not> l_host_done L
     | PeerClosed _ w \<Rightarrow> l_open L \<and> (l_guest_done L \<longleftrightarrow> w) \<and> \<not> l_host_done L
     | LocalClosed \<Rightarrow> l_open L \<and> l_host_done L
     | Killed \<Rightarrow> True)"

lemma payload_offered: "life_ok c L \<Longrightarrow> conn_state c \<noteq> Killed \<Longrightarrow> payload c p = offered L p"
  by (auto simp: life_ok_def payload_def offered_def can_recv_from_peer_def split: ConnState.splits)

lemma payload_killed: "conn_state c = Killed \<Longrightarrow> payload c p = []"
  by (simp add: payload_def can_recv_from_peer_def)

lemma offered_killed: "life_ok c L \<Longrightarrow> Response \<in> pending c \<Longrightarrow> offered L p = []"
  by (simp add: life_ok_def offered_def)

lemma send_off_bit: "send_off p \<longleftrightarrow> bit (pkt_flags p) 1"
  by (simp add: send_off_def VSOCK_FLAGS_SHUTDOWN_SEND_def bit_iff_and_push_bit_not_eq_0)

lemma life_send:
  assumes "life_ok c L" "txbuf_ok (tx_buf c)" "send_pkt E c p = (r, c')"
  shows "life_ok c' (life_from_guest p L)"
proof -
  define d where "d = c\<lparr>peer_buf_alloc := buf_alloc p, peer_fwd_cnt := pkt_fwd_cnt p\<rparr>"
  have d: "conn_state d = conn_state c" "pending d = pending c" "txbuf_ok (tx_buf d)" using assms(2) by (simp_all add: d_def)
  have pend: "pending c' \<subseteq> pending c \<union> {Rst, CreditUpdate}" using send_pkt_effect [OF assms(2,3)] by simp
  show ?thesis
  proof (cases "can_recv_from_peer (conn_state c) \<and> pkt_op p = VSOCK_OP_RW")
    case True
    then have "send_data E d p = (r, c')" using assms(3) by (simp add: send_pkt_def d_def Let_def)
    then have "conn_state c' = conn_state c \<or> conn_state c' = Killed"
      using send_data_effect [OF d(3), of p E r c'] True d(1) by auto
    moreover have "Response \<notin> pending c'" using True assms(1) pend by (auto simp: life_ok_def can_recv_from_peer_def)
    ultimately show ?thesis using assms(1) True by (auto simp: life_ok_def life_from_guest_def vsock_ops)
  next
    case False
    then have c': "c' = send_control E d p" using assms(3) by (auto simp: send_pkt_def d_def Let_def)
    have "conn_state c' = (case conn_state c of
        LocalInit \<Rightarrow> if pkt_op p = VSOCK_OP_RESPONSE then Established else LocalInit
      | Established \<Rightarrow> if pkt_op p = VSOCK_OP_SHUTDOWN then PeerClosed (recv_off p) (send_off p) else Established
      | PeerClosed r w \<Rightarrow> if pkt_op p = VSOCK_OP_SHUTDOWN then PeerClosed (r \<or> recv_off p) (w \<or> send_off p) else PeerClosed r w
      | x \<Rightarrow> x)"
      unfolding c' d(1) [symmetric]
      by (cases "conn_state d") (simp_all add: send_control_def peer_shutdown_def peer_shutdown_more_def Let_def)
    then show ?thesis using assms(1) pend
      by (cases "conn_state c") (auto simp: life_ok_def life_from_guest_def vsock_ops send_off_bit)
  qed
qed

lemma life_recv_credit_update:
  assumes "life_ok c L" "Response \<notin> pending c" "hdr_ok q" "recv_credit_update c q = (r, c', p')"
  shows "life_ok c' (life_to_guest r p' L)"
proof -
  have "conn_state c' = conn_state c" "pending c' \<subseteq> pending c" "r = Inr () \<longrightarrow> pkt_op p' = VSOCK_OP_CREDIT_UPDATE"
    using assms(3,4) by (auto simp: recv_credit_update_def unpend_eq split: if_splits)
  then show ?thesis using assms(1,2) by (auto simp: life_ok_def life_to_guest_def vsock_ops)
qed

lemma life_to_guest_other:
  assumes "life_ok c L" "Response \<notin> pending c" "conn_state c' = conn_state c" "pending c' = pending c"
    and "r = Inr () \<longrightarrow> pkt_op p \<notin> {VSOCK_OP_RESPONSE, VSOCK_OP_SHUTDOWN}"
  shows "life_ok c' (life_to_guest r p L)"
  using assms by (auto simp: life_ok_def life_to_guest_def)

lemma life_recv_rw:
  assumes "life_ok c L" "Response \<notin> pending c" "hdr_ok q" "recv_rw E c q = (r, c', p')"
  shows "life_ok c' (life_to_guest r p' L)"
proof (cases "can_send_to_peer (conn_state c) \<and> \<not> need_credit_update_from_peer c \<and> (\<exists>buf. pkt_buf q = Some buf)")
  case False
  then show ?thesis using assms(3,4)
    by (intro life_to_guest_other [OF assms(1,2)])
      (auto simp: recv_rw_def vsock_ops split: if_splits option.splits)
next
  case True
  then obtain buf where buf: "pkt_buf q = Some buf" by blast
  show ?thesis
  proof (cases "reads E")
    case (Inl e)
    show ?thesis
    proof (cases e)
      case WouldBlock
      then have "recv_credit_update c q = (r, c', p')" using assms(4) True buf Inl by (simp add: recv_rw_def Let_def)
      then show ?thesis by (rule life_recv_credit_update [OF assms(1-3)])
    next
      case OtherKind
      then show ?thesis using assms(3,4) True buf Inl
        by (intro life_to_guest_other [OF assms(1,2)]) (auto simp: recv_rw_def Let_def vsock_ops)
    qed
  next
    case (Inr avail)
    define data where "data = take (min (length buf) (peer_avail_credit c)) avail"
    define p1 where "p1 = q\<lparr>pkt_buf := Some (copy_at buf 0 data)\<rparr>"
    have ok: "hdr_ok p1" using assms(3) by (simp add: p1_def)
    have eq: "recv_rw E c q = (let (c2, p2) = (if data = []
        then (c\<lparr>conn_state := LocalClosed, expiry := Some (now E + from_millis CONN_SHUTDOWN_TIMEOUT_MS)\<rparr>,
          set_flag VSOCK_FLAGS_SHUTDOWN_SEND (set_flag VSOCK_FLAGS_SHUTDOWN_RCV (set_op VSOCK_OP_SHUTDOWN p1)))
        else (c, set_len (word_of_nat (length data)) (set_op VSOCK_OP_RW p1)))
      in (Inr (), c2\<lparr>rx_cnt := rx_cnt c2 + pkt_len p2, last_fwd_cnt_to_peer := fwd_cnt c2\<rparr>, p2))"
      unfolding recv_rw_def p1_def data_def using True buf Inr by (simp add: Let_def)
    show ?thesis
    proof (cases "data = []")
      case end': True
      have "r = Inr ()" "conn_state c' = LocalClosed" "pending c' = pending c" "pkt_op p' = VSOCK_OP_SHUTDOWN"
        using assms(4) eq end' ok by (auto simp: Let_def)
      then show ?thesis using True assms(1,2)
        by (auto simp: life_ok_def life_to_guest_def can_send_to_peer_def vsock_ops split: ConnState.splits)
    next
      case False
      then show ?thesis using assms(4) eq ok
        by (intro life_to_guest_other [OF assms(1,2)]) (auto simp: Let_def vsock_ops)
    qed
  qed
qed

lemma life_recv:
  assumes "life_ok c L" "hdr_ok p" "recv_pkt E c p = (r, c', p')"
  shows "life_ok c' (life_to_guest r p' L)"
proof -
  define q where "q = init_pkt c p"
  have q: "hdr_ok q" using init_pkt_ok [OF assms(2)] by (simp add: q_def)
  note eq = assms(3) [unfolded recv_pkt_eq Let_def q_def [symmetric]]
  show ?thesis
  proof (cases "pending c \<inter> {Rst, Response, Request} = {}")
    case False
    then show ?thesis using eq q assms(1)
      by (auto simp: life_ok_def life_to_guest_def vsock_ops split: if_splits)
  next
    case True
    have "life_ok (cleared Rw c) L" using assms(1) by (auto simp: life_ok_def)
    then show ?thesis
      using True eq life_recv_rw [OF _ _ q, of "cleared Rw c" L E r c' p'] life_recv_credit_update [OF assms(1) _ q, of r c' p']
      by (auto split: if_splits)
  qed
qed

section \<open>Sequences of calls\<close>

datatype ConnCall = CallRecv VsockPacket | CallSend VsockPacket | CallNotify Events | CallKill

text \<open>A call, with the life of the connection and the bytes that the guest has offered up to it.\<close>

fun conn_step :: "ConnEnv \<Rightarrow> VsockConnection \<times> life \<times> u8 list \<Rightarrow> ConnCall
    \<Rightarrow> (VsockError + unit) \<times> VsockConnection \<times> life \<times> u8 list" where
  "conn_step E (c, L, bs) (CallRecv p) = (case recv_pkt E c p of (r, c', p') \<Rightarrow> (r, c', life_to_guest r p' L, bs))"
| "conn_step E (c, L, bs) (CallSend p) =
     (case send_pkt E c p of (r, c') \<Rightarrow> (r, c', life_from_guest p L, bs @ offered L p))"
| "conn_step E (c, L, bs) (CallNotify ev) = (Inr (), conn_notify E c ev, L, bs)"
| "conn_step E (c, L, bs) CallKill = (Inr (), kill c, L, bs)"

definition conn_call_ok :: "ConnEnv \<Rightarrow> ConnCall \<Rightarrow> bool" where
  "conn_call_ok E x = (case x of CallRecv p \<Rightarrow> hdr_ok p | _ \<Rightarrow> True)"

text \<open>The stream had \<open>out0\<close> when the connection was created.\<close>

definition taken_inv :: "u8 list \<Rightarrow> VsockConnection \<times> life \<times> u8 list \<Rightarrow> bool" where
  "taken_inv out0 = (\<lambda>(c, L, bs). txbuf_ok (tx_buf c) \<and> life_ok c L \<and>
    (\<exists>out. stream_out (stream c) = out0 @ out \<and> fwd_cnt c = word_of_nat (length out) \<and>
      (out @ buffered (tx_buf c) = bs \<or>
       conn_state c = Killed \<and> Response \<notin> pending c \<and> prefix (out @ buffered (tx_buf c)) bs)))"

lemma life_ok_response: "life_ok c L \<Longrightarrow> response_ok c"
  by (simp add: life_ok_def response_ok_def)

lemma taken_inv_forwards:
  assumes inv: "taken_inv out0 (c, L, bs)" and f: "forwards c xs c'" and r: "life_ok c' L'"
    and p: "Response \<in> pending c' \<Longrightarrow> Response \<in> pending c"
    and k: "conn_state c = Killed \<Longrightarrow> Response \<notin> pending c \<Longrightarrow> conn_state c' = Killed \<and> xs = []"
    and ys: "conn_state c = Killed \<and> Response \<notin> pending c \<or> ys = xs"
  shows "taken_inv out0 (c', L', bs @ ys)"
proof -
  from f obtain new where new: "txbuf_ok (tx_buf c')" "stream_out (stream c') = stream_out (stream c) @ new"
    "fwd_cnt c' = fwd_cnt c + word_of_nat (length new)"
    and f': "new @ buffered (tx_buf c') = buffered (tx_buf c) @ xs \<or> conn_state c' = Killed \<and>
      can_recv_from_peer (conn_state c) \<and> prefix (new @ buffered (tx_buf c')) (buffered (tx_buf c) @ xs)"
    by (auto simp: forwards_def)
  from inv obtain out where out: "stream_out (stream c) = out0 @ out" "fwd_cnt c = word_of_nat (length out)"
    and i: "out @ buffered (tx_buf c) = bs \<or> conn_state c = Killed \<and> Response \<notin> pending c \<and> prefix (out @ buffered (tx_buf c)) bs"
    and rc: "response_ok c"
    by (auto simp: taken_inv_def life_ok_response)
  have "out @ new @ buffered (tx_buf c') = bs @ ys \<or>
      conn_state c' = Killed \<and> Response \<notin> pending c' \<and> prefix (out @ new @ buffered (tx_buf c')) (bs @ ys)"
  proof (cases "conn_state c = Killed \<and> Response \<notin> pending c")
    case True
    then have "new @ buffered (tx_buf c') = buffered (tx_buf c)" using f' k by (auto simp: can_recv_from_peer_def)
    moreover have "prefix (out @ buffered (tx_buf c)) bs" using i by auto
    ultimately show ?thesis using True k p by (auto intro: prefix_order.trans)
  next
    case False
    then have bs: "out @ buffered (tx_buf c) = bs" and xs: "ys = xs" using i ys by auto
    show ?thesis using f'
    proof
      assume "new @ buffered (tx_buf c') = buffered (tx_buf c) @ xs"
      then show ?thesis using bs xs by simp
    next
      assume l: "conn_state c' = Killed \<and> can_recv_from_peer (conn_state c) \<and>
        prefix (new @ buffered (tx_buf c')) (buffered (tx_buf c) @ xs)"
      then have "Response \<notin> pending c" using rc by (auto simp: response_ok_def can_recv_from_peer_def)
      then show ?thesis using l p bs xs by auto
    qed
  qed
  then show ?thesis using new out r unfolding taken_inv_def
    by (auto simp: intro!: exI [of _ "out @ new"])
qed

lemma taken_inv_step:
  assumes "conn_call_ok E x" "taken_inv out0 s"
  shows "taken_inv out0 (snd (conn_step E s x))"
proof -
  obtain c L bs where s: "s = (c, L, bs)" by (cases s)
  have ok: "txbuf_ok (tx_buf c)" and life: "life_ok c L" and inv: "taken_inv out0 (c, L, bs)"
    using assms(2) by (auto simp: s taken_inv_def)
  show ?thesis
  proof (cases x)
    case (CallRecv p)
    obtain r c' p' where e: "recv_pkt E c p = (r, c', p')" by (metis prod_cases3)
    have p: "hdr_ok p" using assms(1) CallRecv by (simp add: conn_call_ok_def)
    from recv_pkt_effect(1) [OF p e] have e': "forwards c [] c'" "pending c' \<subseteq> pending c"
      "conn_state c = Killed \<Longrightarrow> Response \<notin> pending c \<Longrightarrow> conn_state c' = Killed"
      by (auto simp: recv_effect_def can_send_to_peer_def intro!: forwards_none ok)
    then show ?thesis using taken_inv_forwards [OF inv e'(1) life_recv [OF life p e], of "[]"] CallRecv e s by auto
  next
    case (CallSend p)
    obtain r c' where e: "send_pkt E c p = (r, c')" by fastforce
    have "conn_state c = Killed \<and> Response \<notin> pending c \<or> offered L p = payload c p"
      using payload_offered [OF life, of p] payload_killed [of c p] offered_killed [OF life, of p] by metis
    then show ?thesis
      using taken_inv_forwards [OF inv _ life_send [OF life ok e], of "payload c p" "offered L p"]
        send_pkt_effect [OF ok e] payload_killed [of c p] CallSend e s by auto
  next
    case (CallNotify ev)
    note e = conn_notify_effect [OF ok refl, of E ev]
    have "life_ok (conn_notify E c ev) L" using e life by (auto simp: life_ok_def)
    moreover have "Response \<in> pending (conn_notify E c ev) \<Longrightarrow> Response \<in> pending c" using e by auto
    ultimately show ?thesis using taken_inv_forwards [OF inv, of "[]" "conn_notify E c ev" L "[]"] e CallNotify s by auto
  next
    case CallKill
    have "forwards c [] (kill c)" by (simp add: forwards_none ok)
    moreover have "life_ok (kill c) L" using life by (auto simp: life_ok_def)
    ultimately show ?thesis using taken_inv_forwards [OF inv, of "[]" "kill c" L "[]"] CallKill s by auto
  qed
qed

interpretation conn: invariant_steps conn_step conn_call_ok "taken_inv out0" for out0
  by unfold_locales (rule taken_inv_step)

lemma taken_inv_new:
  "taken_inv (stream_out s) (new_peer_init s lc pc lp pp alloc, life_new False, [])"
  "taken_inv (stream_out s) (new_local_init s lc pc lp pp, life_new True, [])"
proof -
  have "conn_state (new_peer_init s lc pc lp pp alloc) = PeerInit" "conn_state (new_local_init s lc pc lp pp) = LocalInit"
    by (simp_all add: new_peer_init_def new_local_init_def)
  then have "life_ok (new_peer_init s lc pc lp pp alloc) (life_new False)" "life_ok (new_local_init s lc pc lp pp) (life_new True)"
    by (simp_all add: life_ok_def life_new_def)
  then show "taken_inv (stream_out s) (new_peer_init s lc pc lp pp alloc, life_new False, [])"
    "taken_inv (stream_out s) (new_local_init s lc pc lp pp, life_new True, [])"
    by (simp_all add: taken_inv_def) (simp_all add: new_peer_init_def new_local_init_def txbuf_new_def txbuf_ok_def
        txbuf_len_def buffered_def)
qed

text \<open>C32. Whatever the guest sends and whatever the stream answers, the bytes that the host stream
  receives, followed by those still buffered, are in order the bytes that the guest has offered: those
  of its data packets while the connection is open, the guest has not said that it is done sending
  and the host has not announced the end of its stream (data outside of that is not passed on, nor is
  a packet that is longer than its buffer, on which the host panics). A half-closed connection is
  included: a guest that has only stopped receiving still gets its data through. A connection that
  was killed may have dropped a last part. The counter that the guest gets as credit is the number
  of bytes passed on, modulo 2^32.\<close>

theorem guest_bytes_in_order:
  assumes "\<forall>(E, x) \<in> set cs. conn_call_ok E x"
    and "(c0, L0) = (new_peer_init s lc pc lp pp alloc, life_new False) \<or>
      (c0, L0) = (new_local_init s lc pc lp pp, life_new True)"
    and "snd (run_steps conn_step (c0, L0, []) cs) = (c, L, sent)"
  shows "\<exists>out. stream_out (stream c) = stream_out s @ out \<and> fwd_cnt c = word_of_nat (length out) \<and>
    prefix (out @ buffered (tx_buf c)) sent \<and> (conn_state c \<noteq> Killed \<longrightarrow> out @ buffered (tx_buf c) = sent)"
proof -
  have "taken_inv (stream_out s) (c0, L0, [])" using assms(2) taken_inv_new by auto
  from conn.run_inv [OF assms(1) this] show ?thesis unfolding assms(3) by (auto simp: taken_inv_def)
qed

definition ex_stream :: VsockBackendStream where
  "ex_stream = \<lparr>raw_fd = 7, stream_kind = UnixStream, stream_out = [], control_out = []\<rparr>"

definition blank_pkt :: "u8 list option \<Rightarrow> VsockPacket" where
  "blank_pkt b = \<lparr>pkt_hdr = replicate 44 0, pkt_buf = b\<rparr>"

definition ex_data_pkt :: VsockPacket where
  "ex_data_pkt = set_buf_alloc 4096 (set_len 2 (set_op VSOCK_OP_RW (blank_pkt (Some [7, 8, 9]))))"

definition ex_env :: ConnEnv where
  "ex_env = \<lparr>now = 5, writes = [Inr 8], reads = Inl WouldBlock\<rparr>"

text \<open>C32, applied: data, a shutdown of the guest's receiving side, and more data.\<close>

definition ex_calls :: "(ConnEnv \<times> ConnCall) list" where
  "ex_calls = [(ex_env, CallRecv (blank_pkt (Some [0]))), (ex_env, CallSend ex_data_pkt),
     (ex_env, CallSend (set_flag VSOCK_FLAGS_SHUTDOWN_RCV (set_op VSOCK_OP_SHUTDOWN (blank_pkt None)))),
     (ex_env, CallSend ex_data_pkt)]"

lemma ex_run:
  "case snd (run_steps conn_step (new_peer_init ex_stream 2 3 1024 5000 4096, life_new False, []) ex_calls) of
     (c, L, bs) \<Rightarrow> conn_state c = PeerClosed True False \<and> bs = [7, 8, 7, 8]"
  by code_simp

theorem guest_bytes_in_order_witness:
  "\<exists>c L. snd (run_steps conn_step (new_peer_init ex_stream 2 3 1024 5000 4096, life_new False, []) ex_calls) =
      (c, L, [7, 8, 7, 8]) \<and>
    (\<exists>out. stream_out (stream c) = stream_out ex_stream @ out \<and> out @ buffered (tx_buf c) = [7, 8, 7, 8])"
proof -
  have ok: "\<forall>(E, x) \<in> set ex_calls. conn_call_ok E x"
    by (simp add: ex_calls_def conn_call_ok_def blank_pkt_def hdr_ok_def VSOCK_PKT_HDR_SIZE_def)
  obtain c L where r: "snd (run_steps conn_step (new_peer_init ex_stream 2 3 1024 5000 4096, life_new False, []) ex_calls) =
      (c, L, [7, 8, 7, 8])" "conn_state c \<noteq> Killed"
    using ex_run by (auto split: prod.splits)
  from guest_bytes_in_order [OF ok disjI1 [OF refl] r(1)] r show ?thesis by blast
qed

end
