(* ===== verification/Vsock_Flow.thy ===== *)
theory Vsock_Flow
  imports Vsock_Stream
begin

text \<open>
  Flow control between a connection and a guest driver that keeps to the protocol: it reports its
  buffer and what it has consumed truthfully, sends data only when the connection is open and only
  within the credit that the host granted. The connection itself is the code's; the driver's rules
  are those of the virtio specification. The size of the buffer may change with every packet; as
  it counts the space in use with the free space, it is never less than the data that the guest
  holds (data on its way to the guest counted as held).
\<close>

section \<open>A connection and its guest\<close>

datatype guest_state = GClosed | GAsked | GOpen

record flow =
  f_conn :: VsockConnection
  g_state :: guest_state
  g_fwd :: u32
  g_held :: nat
  g_alloc :: u32
  g_tx :: u32
  g_peer_alloc :: u32
  g_peer_fwd :: u32

text \<open>The credit as the driver computes it, and the packets it may send.\<close>

definition g_credit :: "flow \<Rightarrow> u32" where
  "g_credit s = g_peer_alloc s - (g_tx s - g_peer_fwd s)"

definition g_may_send :: "flow \<Rightarrow> VsockPacket \<Rightarrow> bool" where
  "g_may_send s p \<longleftrightarrow> g_held s \<le> unat (buf_alloc p) \<and> pkt_fwd_cnt p = g_fwd s \<and>
    (pkt_op p = VSOCK_OP_RESPONSE \<longrightarrow> g_state s = GAsked) \<and>
    (pkt_op p = VSOCK_OP_RW \<longrightarrow> g_state s = GOpen \<and> pkt_len p \<le> g_credit s)"

text \<open>As the host reads packets from the queue, only an empty packet has no buffer.\<close>

definition pkt_read :: "VsockPacket \<Rightarrow> bool" where
  "pkt_read p \<longleftrightarrow> (pkt_buf p = None \<longrightarrow> pkt_len p = 0)"

lemma tx_packet_read: "from_tx_virtq_head M P ds = Inr p \<Longrightarrow> pkt_read p"
  by (cases "(M, P, ds)" rule: from_tx_virtq_head.cases)
    (auto simp: pkt_read_def pkt_is_empty_def Let_def result_bind_eq_Inr split: if_splits list.splits)

definition g_start :: "VsockConnection \<Rightarrow> u32 \<Rightarrow> flow" where
  "g_start c A = \<lparr>f_conn = c, g_state = GClosed, g_fwd = 0, g_held = 0, g_alloc = A, g_tx = 0, g_peer_alloc = 0,
     g_peer_fwd = 0\<rparr>"

definition g_receive :: "VsockPacket \<Rightarrow> flow \<Rightarrow> flow" where
  "g_receive p s = s\<lparr>g_held := g_held s + unat (pkt_len p), g_peer_alloc := buf_alloc p, g_peer_fwd := pkt_fwd_cnt p,
     g_state := (if pkt_op p = VSOCK_OP_REQUEST then GAsked
       else if pkt_op p = VSOCK_OP_RESPONSE then GOpen else g_state s)\<rparr>"

definition g_sent :: "VsockPacket \<Rightarrow> flow \<Rightarrow> flow" where
  "g_sent p s = s\<lparr>g_alloc := buf_alloc p, g_tx := g_tx s + (if pkt_op p = VSOCK_OP_RW then pkt_len p else 0),
     g_state := (if pkt_op p = VSOCK_OP_RESPONSE then GOpen else g_state s)\<rparr>"

text \<open>\<open>A\<close> is the buffer that the guest starts with. After a reset the connection is gone, so such a
  packet has no successor state; nor has a packet on which the host panics.\<close>

inductive flows :: "u32 \<Rightarrow> flow \<Rightarrow> bool" for A :: u32 where
  host_asks: "flows A (g_start (new_local_init st lc pc lp pp) A)"
| guest_asks: "flows A (g_start (new_peer_init st lc pc lp pp A) A)"
| to_guest: "\<lbrakk>flows A s; hdr_ok p; recv_pkt E (f_conn s) p = (Inr (), c', p'); pkt_op p' \<noteq> VSOCK_OP_RST\<rbrakk> \<Longrightarrow>
    flows A (g_receive p' (s\<lparr>f_conn := c'\<rparr>))"
| no_packet: "\<lbrakk>flows A s; hdr_ok p; recv_pkt E (f_conn s) p = (Inl e, c', p')\<rbrakk> \<Longrightarrow> flows A (s\<lparr>f_conn := c'\<rparr>)"
| guest_reads: "\<lbrakk>flows A s; n \<le> g_held s\<rbrakk> \<Longrightarrow> flows A (s\<lparr>g_held := g_held s - n, g_fwd := g_fwd s + word_of_nat n\<rparr>)"
| from_guest: "\<lbrakk>flows A s; g_may_send s p; pkt_read p; send_pkt E (f_conn s) p = (Inr (), c')\<rbrakk> \<Longrightarrow>
    flows A (g_sent p (s\<lparr>f_conn := c'\<rparr>))"
| event: "flows A s \<Longrightarrow> flows A (s\<lparr>f_conn := conn_notify E (f_conn s) ev\<rparr>)"
| killed: "flows A s \<Longrightarrow> flows A (s\<lparr>f_conn := kill (f_conn s)\<rparr>)"

section \<open>Credit for the guest's buffer\<close>

lemma unat_diff_add:
  fixes a b :: u32
  assumes "unat (a - b) + k < 2 ^ 32"
  shows "unat (a + word_of_nat k - b) = unat (a - b) + k"
proof -
  have k: "unat (word_of_nat k :: u32) = k" using assms by (simp add: unat_of_nat)
  have eq: "a + word_of_nat k - b = (a - b) + word_of_nat k" by simp
  show ?thesis using unat_add_no_wrap [of "a - b" "word_of_nat k"] assms k unfolding eq by simp
qed

text \<open>What the host believes of the guest's buffer is never less than what the buffer holds.\<close>

definition rx_credit_inv :: "flow \<Rightarrow> bool" where
  "rx_credit_inv s \<longleftrightarrow> rx_cnt (f_conn s) = g_fwd s + word_of_nat (g_held s) \<and>
    g_held s + unat (g_fwd s - peer_fwd_cnt (f_conn s)) \<le> unat (peer_buf_alloc (f_conn s)) \<and>
    peer_buf_alloc (f_conn s) \<le> g_alloc s"

lemma rx_credit_avail:
  assumes "rx_credit_inv s"
  shows "peer_avail_credit (f_conn s) =
    unat (peer_buf_alloc (f_conn s)) - (unat (g_fwd s - peer_fwd_cnt (f_conn s)) + g_held s)"
proof -
  define c where "c = f_conn s"
  have i: "rx_cnt c = g_fwd s + word_of_nat (g_held s)"
    "g_held s + unat (g_fwd s - peer_fwd_cnt c) \<le> unat (peer_buf_alloc c)"
    using assms by (simp_all add: rx_credit_inv_def c_def)
  have "unat (peer_buf_alloc c) < 2 ^ 32" by simp
  then have "unat (g_fwd s - peer_fwd_cnt c) + g_held s < 2 ^ 32" using i(2) by linarith
  from unat_diff_add [OF this] have u: "unat (rx_cnt c - peer_fwd_cnt c) = unat (g_fwd s - peer_fwd_cnt c) + g_held s"
    unfolding i(1) .
  then have "rx_cnt c - peer_fwd_cnt c \<le> peer_buf_alloc c" using i(2) by (simp add: word_le_nat_alt)
  from unat_sub [OF this] show ?thesis unfolding peer_avail_credit_def c_def [symmetric] u .
qed

lemma rx_credit_receive:
  assumes "rx_credit_inv s" "recv_effect (f_conn s) (Inr (), c', p')"
  shows "rx_credit_inv (g_receive p' (s\<lparr>f_conn := c'\<rparr>))"
proof -
  have e: "rx_cnt c' = rx_cnt (f_conn s) + pkt_len p'" "unat (pkt_len p') \<le> peer_avail_credit (f_conn s)"
    "peer_buf_alloc c' = peer_buf_alloc (f_conn s)" "peer_fwd_cnt c' = peer_fwd_cnt (f_conn s)"
    using assms(2) by (simp_all add: recv_effect_def)
  have i: "g_held s + unat (g_fwd s - peer_fwd_cnt (f_conn s)) \<le> unat (peer_buf_alloc (f_conn s))"
    using assms(1) by (simp add: rx_credit_inv_def)
  have "g_held s + unat (pkt_len p') + unat (g_fwd s - peer_fwd_cnt (f_conn s)) \<le> unat (peer_buf_alloc (f_conn s))"
    using e(2) i unfolding rx_credit_avail [OF assms(1)] by linarith
  then show ?thesis using e assms(1) by (simp add: rx_credit_inv_def g_receive_def)
qed

lemma rx_credit_reads:
  assumes "rx_credit_inv s" "n \<le> g_held s"
  shows "rx_credit_inv (s\<lparr>g_held := g_held s - n, g_fwd := g_fwd s + word_of_nat n\<rparr>)"
proof -
  have le: "g_held s + unat (g_fwd s - peer_fwd_cnt (f_conn s)) \<le> unat (peer_buf_alloc (f_conn s))"
    using assms(1) by (simp add: rx_credit_inv_def)
  have "unat (peer_buf_alloc (f_conn s)) < 2 ^ 32" by simp
  then have "unat (g_fwd s - peer_fwd_cnt (f_conn s)) + n < 2 ^ 32" using le assms(2) by linarith
  from unat_diff_add [OF this] show ?thesis using assms le by (simp add: rx_credit_inv_def of_nat_diff)
qed

lemma rx_credit_flows: "flows A s \<Longrightarrow> txbuf_ok (tx_buf (f_conn s)) \<and> rx_credit_inv s"
proof (induction rule: flows.induct)
  case (host_asks st lc pc lp pp)
  show ?case by (simp add: g_start_def new_local_init_def rx_credit_inv_def txbuf_ok_def txbuf_new_def txbuf_len_def)
next
  case (guest_asks st lc pc lp pp)
  show ?case by (simp add: g_start_def new_peer_init_def rx_credit_inv_def txbuf_ok_def txbuf_new_def txbuf_len_def)
next
  case (to_guest s p E c' p')
  note e = recv_pkt_effect(1) [OF to_guest(2,3)]
  have "tx_buf c' = tx_buf (f_conn s)" using e by (simp add: recv_effect_def)
  then show ?case using rx_credit_receive [OF _ e] to_guest by (simp add: g_receive_def)
next
  case (no_packet s p E e c' p')
  then show ?case using recv_pkt_effect(1) [OF no_packet(2,3)] by (simp add: recv_effect_def rx_credit_inv_def)
next
  case (guest_reads s n)
  then show ?case using rx_credit_reads by simp
next
  case (from_guest s p E c')
  then show ?case using send_pkt_effect [of "f_conn s" E p "Inr ()" c']
    by (auto simp: rx_credit_inv_def g_may_send_def g_sent_def forwards_def word_le_nat_alt)
next
  case (event s E ev)
  then show ?case using conn_notify_effect [of "f_conn s" E ev] by (simp add: rx_credit_inv_def forwards_def)
next
  case (killed s)
  then show ?case by (simp add: rx_credit_inv_def)
qed

text \<open>C33. However the host reads from its stream and however late the guest's credit reports are, the
  data that a guest holds, even with all that the host believes it may still send, never exceeds
  the receive buffer that the guest announced last. The guest keeps to the protocol: its counter
  reports what it has consumed, and the buffer it announces, which may grow and shrink, is never
  smaller than the data it holds or that is on its way to it
  (\<open>shrunk_buffer_wraps_credit\<close> shows what a smaller one does).\<close>

theorem guest_buffer_never_overflows:
  assumes "flows A s"
  shows "g_held s \<le> unat (g_alloc s) \<and> peer_avail_credit (f_conn s) + g_held s \<le> unat (g_alloc s)"
proof -
  have i: "rx_credit_inv s" using rx_credit_flows [OF assms] by simp
  then show ?thesis using rx_credit_avail [OF i] by (auto simp: rx_credit_inv_def word_le_nat_alt)
qed

section \<open>Credit for the transmit buffer\<close>

lemma send_bytes_error:
  "send_bytes ws c bs = (Inl e, c') \<Longrightarrow> e = TxBufFull \<or> e = StreamWrite OtherKind \<and> fst (stream_write ws bs) = Inl OtherKind"
  by (auto simp: send_bytes_def push_tx_def txbuf_push_def Let_def split: if_splits prod.splits sum.splits io_kind.splits)

definition tx_credit_inv :: "flow \<Rightarrow> bool" where
  "tx_credit_inv s \<longleftrightarrow>
    length (buffered (tx_buf (f_conn s))) + unat (fwd_cnt (f_conn s) - g_peer_fwd s) \<le> unat (g_tx s - g_peer_fwd s) \<and>
    unat (g_tx s - g_peer_fwd s) \<le> unat (g_peer_alloc s) \<and> (g_peer_alloc s = 0 \<or> g_peer_alloc s = CONN_TX_BUF_SIZE)"

lemma tx_alloc_le: "tx_credit_inv s \<Longrightarrow> unat (g_peer_alloc s) \<le> TX_SIZE"
  by (auto simp: tx_credit_inv_def TX_SIZE_def)

lemma g_credit_eq: "tx_credit_inv s \<Longrightarrow> unat (g_credit s) = unat (g_peer_alloc s) - unat (g_tx s - g_peer_fwd s)"
  unfolding g_credit_def by (rule unat_sub) (simp add: tx_credit_inv_def word_le_nat_alt)

lemma forwards_length:
  assumes "forwards c bs c'"
  shows "\<exists>k. fwd_cnt c' = fwd_cnt c + word_of_nat k \<and>
    k + length (buffered (tx_buf c')) \<le> length (buffered (tx_buf c)) + length bs"
proof -
  from assms obtain out where out: "fwd_cnt c' = fwd_cnt c + word_of_nat (length out)"
    "prefix (out @ buffered (tx_buf c')) (buffered (tx_buf c) @ bs)"
    by (auto simp: forwards_def)
  show ?thesis using out(1) prefix_length_le [OF out(2)] unfolding length_append by blast
qed

text \<open>The connection takes at most \<open>n\<close> bytes of the \<open>n\<close> that the guest has counted.\<close>

lemma tx_credit_forwards:
  assumes inv: "tx_credit_inv s" and f: "forwards (f_conn s) bs c'" and n: "length bs \<le> unat n" "n \<le> g_credit s"
  shows "tx_credit_inv (s\<lparr>f_conn := c', g_tx := g_tx s + n\<rparr>)"
proof -
  define c where "c = f_conn s"
  have i: "length (buffered (tx_buf c)) + unat (fwd_cnt c - g_peer_fwd s) \<le> unat (g_tx s - g_peer_fwd s)"
    "unat (g_tx s - g_peer_fwd s) \<le> unat (g_peer_alloc s)"
    using inv by (simp_all add: tx_credit_inv_def c_def)
  have al: "unat (g_peer_alloc s) < 2 ^ 32" by simp
  have n': "unat (g_tx s - g_peer_fwd s) + unat n \<le> unat (g_peer_alloc s)"
    using n(2) g_credit_eq [OF inv] i(2) by (simp add: word_le_nat_alt)
  have tx: "unat (g_tx s + n - g_peer_fwd s) = unat (g_tx s - g_peer_fwd s) + unat n"
    using unat_diff_add [OF le_less_trans [OF n' al]] by (simp only: of_nat_unat ucast_id)
  obtain k where k: "fwd_cnt c' = fwd_cnt c + word_of_nat k"
    "k + length (buffered (tx_buf c')) \<le> length (buffered (tx_buf c)) + length bs"
    using forwards_length [OF f] unfolding c_def by blast
  have "unat (fwd_cnt c - g_peer_fwd s) + k < 2 ^ 32" using k(2) i n(1) n' al by linarith
  from unat_diff_add [OF this] have "unat (fwd_cnt c' - g_peer_fwd s) = unat (fwd_cnt c - g_peer_fwd s) + k"
    unfolding k(1) .
  then show ?thesis using i n' tx k(2) n(1) inv by (simp add: tx_credit_inv_def)
qed

lemma payload_length: "length (payload c p) \<le> (if pkt_op p = VSOCK_OP_RW then unat (pkt_len p) else 0)"
  by (auto simp: payload_def split: option.splits)

lemma tx_credit_receive:
  assumes inv: "tx_credit_inv s" and c': "tx_buf c' = tx_buf (f_conn s)" "fwd_cnt c' = fwd_cnt (f_conn s)"
    and p: "buf_alloc p = CONN_TX_BUF_SIZE" "pkt_fwd_cnt p = fwd_cnt (f_conn s)"
  shows "tx_credit_inv (g_receive p (s\<lparr>f_conn := c'\<rparr>))"
proof -
  define c where "c = f_conn s"
  have i: "length (buffered (tx_buf c)) + unat (fwd_cnt c - g_peer_fwd s) \<le> unat (g_tx s - g_peer_fwd s)"
    "unat (g_tx s - g_peer_fwd s) \<le> TX_SIZE"
    using inv tx_alloc_le [OF inv] by (simp_all add: tx_credit_inv_def c_def)
  have "g_tx s - fwd_cnt c = (g_tx s - g_peer_fwd s) - (fwd_cnt c - g_peer_fwd s)" by simp
  moreover have "fwd_cnt c - g_peer_fwd s \<le> g_tx s - g_peer_fwd s" using i by (simp add: word_le_nat_alt)
  ultimately have "unat (g_tx s - fwd_cnt c) = unat (g_tx s - g_peer_fwd s) - unat (fwd_cnt c - g_peer_fwd s)"
    using unat_sub by metis
  then show ?thesis using i c' p by (auto simp: tx_credit_inv_def g_receive_def c_def TX_SIZE_def)
qed

lemma tx_credit_flows: "flows A s \<Longrightarrow> tx_credit_inv s"
proof (induction rule: flows.induct)
  case (host_asks st lc pc lp pp)
  show ?case by (simp add: g_start_def new_local_init_def tx_credit_inv_def txbuf_new_def buffered_def)
next
  case (guest_asks st lc pc lp pp)
  show ?case by (simp add: g_start_def new_peer_init_def tx_credit_inv_def txbuf_new_def buffered_def)
next
  case (to_guest s p E c' p')
  then show ?case using recv_pkt_effect(1) [OF to_guest(2,3)]
    by (intro tx_credit_receive) (simp_all add: recv_effect_def addressed_def)
next
  case (no_packet s p E e c' p')
  then show ?case using recv_pkt_effect(1) [OF no_packet(2,3)] by (simp add: recv_effect_def tx_credit_inv_def)
next
  case (guest_reads s n)
  then show ?case by (simp add: tx_credit_inv_def)
next
  case (from_guest s p E c')
  define n where "n = (if pkt_op p = VSOCK_OP_RW then pkt_len p else 0)"
  have ok: "txbuf_ok (tx_buf (f_conn s))" using rx_credit_flows [OF from_guest(1)] by simp
  have f: "forwards (f_conn s) (payload (f_conn s) p) c'" using send_pkt_effect [OF ok from_guest(4)] by simp
  have "length (payload (f_conn s) p) \<le> unat n" "n \<le> g_credit s"
    using payload_length [of "f_conn s" p] from_guest(2) by (auto simp: n_def g_may_send_def split: if_splits)
  from tx_credit_forwards [OF from_guest(5) f this] show ?case by (simp add: tx_credit_inv_def g_sent_def n_def)
next
  case (event s E ev)
  have "txbuf_ok (tx_buf (f_conn s))" using rx_credit_flows [OF event(1)] by simp
  from conn_notify_effect [OF this refl] have "forwards (f_conn s) [] (conn_notify E (f_conn s) ev)" by simp
  from tx_credit_forwards [OF event(2) this, of 0] show ?case by (simp add: tx_credit_inv_def)
next
  case (killed s)
  then show ?case by (simp add: tx_credit_inv_def)
qed

definition pkt_data :: "VsockPacket \<Rightarrow> u8 list" where
  "pkt_data p = (case pkt_buf p of None \<Rightarrow> [] | Some b \<Rightarrow> take (unat (pkt_len p)) b)"

lemma send_control_not_killed: "conn_state (send_control E c p) = Killed \<Longrightarrow> conn_state c = Killed"
  by (cases "conn_state c")
    (auto simp: send_control_def peer_shutdown_def peer_shutdown_more_def Let_def split: if_splits)

text \<open>Data that fits its buffer and the free space of the transmit buffer.\<close>

lemma send_data_in_credit:
  assumes ok: "txbuf_ok (tx_buf c)" and fits: "length (buffered (tx_buf c)) + length (pkt_data p) \<le> TX_SIZE"
    and buf: "\<And>b. pkt_buf p = Some b \<Longrightarrow> unat (pkt_len p) \<le> length b" and s: "send_data E c p = (r, c')"
  shows "r = Inr () \<and> (conn_state c' = conn_state c \<or> fst (stream_write (writes E) (pkt_data p)) = Inl OtherKind)"
proof (cases "pkt_buf p")
  case None
  then show ?thesis using s by (simp add: send_data_def)
next
  case (Some b)
  then have bs: "pkt_data p = take (unat (pkt_len p)) b" by (simp add: pkt_data_def)
  obtain q c1 where w: "send_bytes (writes E) c (pkt_data p) = (q, c1)" by fastforce
  have res: "r = Inr ()" "c' = (case q of Inl _ \<Rightarrow> kill c1 | Inr _ \<Rightarrow> if peer_needs_credit_update c1 then pend CreditUpdate c1 else c1)"
    using s Some buf w by (auto simp: send_data_def bs split: sum.splits)
  have "q = Inl e \<Longrightarrow> e \<noteq> TxBufFull" for e using send_bytes_spec [OF ok w] fits by auto
  then have "q = Inl e \<Longrightarrow> fst (stream_write (writes E) (pkt_data p)) = Inl OtherKind" for e
    using send_bytes_error [of "writes E" c "pkt_data p" e c1] w by auto
  moreover have "q = Inr u \<Longrightarrow> conn_state c' = conn_state c" for u
    using res(2) send_bytes_spec [OF ok w] by auto
  ultimately show ?thesis using res(1) by (cases q) auto
qed

text \<open>C34. A guest that stays within its credit never fills the transmit buffer. The host panics on a
  packet exactly when it carries data for a connection that is open to it and announces more bytes
  than its buffer has (which the two-descriptor format excludes, the single-descriptor format does
  not: \<open>overlong_packet_panics\<close>); every other packet is consumed, and one that kills the connection is
  a data packet on which the host stream failed.\<close>

theorem credit_prevents_overflow:
  assumes "flows A s" "g_may_send s p" "send_pkt E (f_conn s) p = (r, c')"
  shows "(r = Inl VsockPanics \<longleftrightarrow> pkt_op p = VSOCK_OP_RW \<and> (\<exists>b. pkt_buf p = Some b \<and> length b < unat (pkt_len p)) \<and>
      conn_state (f_conn s) \<in> {Established, PeerClosed False False, PeerClosed True False}) \<and>
    (r \<noteq> Inl VsockPanics \<longrightarrow> r = Inr () \<and> (conn_state c' = Killed \<longrightarrow> conn_state (f_conn s) = Killed \<or>
      pkt_op p = VSOCK_OP_RW \<and> fst (stream_write (writes E) (pkt_data p)) = Inl OtherKind))"
proof -
  define c where "c = (f_conn s)\<lparr>peer_buf_alloc := buf_alloc p, peer_fwd_cnt := pkt_fwd_cnt p\<rparr>"
  have ok: "txbuf_ok (tx_buf c)" using rx_credit_flows [OF assms(1)] by (simp add: c_def)
  have open': "conn_state (f_conn s) \<in> {Established, PeerClosed False False, PeerClosed True False} \<longleftrightarrow>
      can_recv_from_peer (conn_state c)"
    by (auto simp: c_def can_recv_from_peer_def split: ConnState.splits)
  show ?thesis
  proof (cases "can_recv_from_peer (conn_state c) \<and> pkt_op p = VSOCK_OP_RW")
    case False
    then have "r = Inr ()" and c': "c' = send_control E c p"
      using assms(3) by (auto simp: send_pkt_def c_def Let_def)
    then show ?thesis using False send_control_not_killed [of E c p] open' by (auto simp: c_def)
  next
    case True
    then have d: "send_data E c p = (r, c')" using assms(3) by (simp add: send_pkt_def c_def Let_def)
    show ?thesis
    proof (cases "\<exists>b. pkt_buf p = Some b \<and> length b < unat (pkt_len p)")
      case short: True
      then show ?thesis using True d open' by (auto simp: send_data_def)
    next
      case False
      note inv = tx_credit_flows [OF assms(1)]
      have "length (pkt_data p) \<le> unat (pkt_len p)" by (auto simp: pkt_data_def split: option.splits)
      then have "length (buffered (tx_buf c)) + length (pkt_data p) \<le> TX_SIZE"
        using inv tx_alloc_le [OF inv] g_credit_eq [OF inv] assms(2) True
        by (auto simp: tx_credit_inv_def c_def g_may_send_def word_le_nat_alt)
      from send_data_in_credit [OF ok this _ d] False True show ?thesis by (auto simp: c_def not_less)
    qed
  qed
qed

section \<open>The guest is told of free space\<close>

definition credit_fresh :: "VsockConnection \<Rightarrow> bool" where
  "credit_fresh c \<longleftrightarrow> \<not> peer_needs_credit_update c \<or> CreditUpdate \<in> pending c"

lemma needs_credit_frame [simp]:
  "peer_needs_credit_update (pend it c) = peer_needs_credit_update c"
  "peer_needs_credit_update (c\<lparr>pending_rx := d\<rparr>) = peer_needs_credit_update c"
  "peer_needs_credit_update (c\<lparr>conn_state := x\<rparr>) = peer_needs_credit_update c"
  "peer_needs_credit_update (c\<lparr>expiry := e\<rparr>) = peer_needs_credit_update c"
  by (simp_all add: peer_needs_credit_update_def pend_def)

lemma fresh_now: "last_fwd_cnt_to_peer c = fwd_cnt c \<Longrightarrow> credit_fresh c"
  by (simp add: credit_fresh_def peer_needs_credit_update_def CONN_TX_BUF_SIZE_def CONN_CREDIT_UPDATE_THRESHOLD_def)

lemma send_data_fresh:
  assumes "txbuf_ok (tx_buf c)" "pkt_read p" "credit_fresh c" "send_data E c p = (Inr (), c')"
  shows "last_fwd_cnt_to_peer c' = last_fwd_cnt_to_peer c \<and> (conn_state c' = Killed \<and> Rst \<in> pending c' \<or>
    conn_state c' = conn_state c \<and> credit_fresh c' \<and>
      fwd_cnt c' + word_of_nat (length (buffered (tx_buf c'))) =
      fwd_cnt c + word_of_nat (length (buffered (tx_buf c))) + pkt_len p)"
proof (cases "pkt_buf p")
  case None
  then show ?thesis using assms(2-4) by (simp add: send_data_def pkt_read_def)
next
  case (Some b)
  then have b: "pkt_buf p = Some b" "unat (pkt_len p) \<le> length b" using assms(4) by (auto simp: send_data_def split: if_splits)
  define bs where "bs = take (unat (pkt_len p)) b"
  have len: "word_of_nat (length bs) = pkt_len p" using b by (simp add: bs_def min_def)
  obtain q c1 where w: "send_bytes (writes E) c bs = (q, c1)" by fastforce
  obtain out B where m: "c1 = moved out B c" "\<And>u. q = Inr u \<Longrightarrow> out @ buffered B = buffered (tx_buf c) @ bs"
    using send_bytes_spec [OF assms(1) w] by (cases q) auto
  have l: "last_fwd_cnt_to_peer c1 = last_fwd_cnt_to_peer c" by (simp add: m)
  have c': "c' = (case q of Inl _ \<Rightarrow> kill c1 | Inr _ \<Rightarrow> if peer_needs_credit_update c1 then pend CreditUpdate c1 else c1)"
    using assms(4) b w by (auto simp: send_data_def bs_def split: sum.splits)
  show ?thesis
  proof (cases q)
    case (Inl e)
    then show ?thesis using c' l by simp
  next
    case (Inr u)
    have "length out + length (buffered B) = length (buffered (tx_buf c)) + length bs"
      using arg_cong [OF m(2) [OF Inr], of length] by simp
    then have "word_of_nat (length out) + word_of_nat (length (buffered B)) =
        (word_of_nat (length (buffered (tx_buf c))) + pkt_len p :: u32)"
      using len by (metis of_nat_add)
    then show ?thesis using c' l Inr m(1) by (auto simp: credit_fresh_def add.assoc)
  qed
qed

lemma notify_fresh:
  assumes ok: "txbuf_ok (tx_buf c)" and n: "conn_notify E c ev = c'"
  shows "last_fwd_cnt_to_peer c' = last_fwd_cnt_to_peer c \<and> (conn_state c' = Killed \<and> Rst \<in> pending c' \<or>
    conn_state c' = conn_state c \<and> (credit_fresh c \<longrightarrow> conn_state c = PeerClosed True True \<or> credit_fresh c') \<and>
      fwd_cnt c' + word_of_nat (length (buffered (tx_buf c'))) = fwd_cnt c + word_of_nat (length (buffered (tx_buf c))))"
proof -
  define d where "d = (if epollin ev then pend Rw c else c)"
  have d: "tx_buf d = tx_buf c" "fwd_cnt d = fwd_cnt c" "conn_state d = conn_state c" "pending c \<subseteq> pending d"
    "last_fwd_cnt_to_peer d = last_fwd_cnt_to_peer c" "peer_needs_credit_update d = peer_needs_credit_update c"
    by (auto simp: d_def)
  show ?thesis
  proof (cases "epollout ev \<and> \<not> txbuf_is_empty (tx_buf d)")
    case False
    then have "c' = d" using n by (auto simp: conn_notify_def Let_def d_def)
    then show ?thesis using d by (auto simp: credit_fresh_def)
  next
    case True
    then have "flush_tx (writes E) d = c'" using n by (simp add: conn_notify_def Let_def d_def)
    from flush_tx_spec [OF _ this] ok d(1) obtain out B e where f: "out @ buffered B = buffered (tx_buf d)"
      "e = moved out B d \<or> e = kill (moved out B d)"
      "c' = (if conn_state e = PeerClosed True True \<and> txbuf_is_empty (tx_buf e) then pend Rst e
        else if peer_needs_credit_update e then pend CreditUpdate e else e)"
      by metis
    have l: "last_fwd_cnt_to_peer e = last_fwd_cnt_to_peer c"
      using f(2) d(5) by auto
    have "length out + length (buffered B) = length (buffered (tx_buf c))" using arg_cong [OF f(1), of length] d(1) by simp
    then have w: "word_of_nat (length out) + word_of_nat (length (buffered B)) = (word_of_nat (length (buffered (tx_buf c))) :: u32)"
      by (metis of_nat_add)
    from f(2) show ?thesis
    proof
      assume "e = moved out B d"
      then show ?thesis using f(3) l w d by (auto simp: credit_fresh_def add.assoc)
    next
      assume "e = kill (moved out B d)"
      then show ?thesis using f(3) l by auto
    qed
  qed
qed

lemma recv_credit_update_fresh:
  assumes "mask_ok c" "pending c \<subseteq> {CreditUpdate}" "hdr_ok q" "recv_credit_update c q = (r, c', p')"
  shows "if r = Inr () then last_fwd_cnt_to_peer c' = fwd_cnt c \<and> pkt_op p' = VSOCK_OP_CREDIT_UPDATE
    else last_fwd_cnt_to_peer c' = last_fwd_cnt_to_peer c \<and> pending c' = pending c \<and> conn_state c' = conn_state c"
proof (cases "CreditUpdate \<in> pending c")
  case True
  then have "\<not> has_pending_rx (cleared CreditUpdate c)" using assms(1,2) by (subst has_pending_rx_iff) auto
  then show ?thesis using True assms(3,4) by (auto simp: recv_credit_update_def unpend_eq)
next
  case False
  then show ?thesis using assms(4) by (auto simp: recv_credit_update_def unpend_eq prx_remove_absent)
qed

lemma recv_rw_fresh:
  assumes "mask_ok c" "pending c \<subseteq> {CreditUpdate}" "hdr_ok q" "recv_rw E c q = (r, c', p')"
  shows "if r = Inr () then pkt_op p' = VSOCK_OP_RST \<or>
      last_fwd_cnt_to_peer c' = fwd_cnt c \<and> pkt_op p' \<notin> {VSOCK_OP_REQUEST, VSOCK_OP_RESPONSE}
    else last_fwd_cnt_to_peer c' = last_fwd_cnt_to_peer c \<and> pending c' = pending c \<and> conn_state c' = conn_state c"
proof (cases "can_send_to_peer (conn_state c) \<and> \<not> need_credit_update_from_peer c \<and> pkt_buf q \<noteq> None")
  case False
  then show ?thesis using assms(3,4) by (auto simp: recv_rw_def vsock_ops split: if_splits option.splits)
next
  case True
  then obtain buf where b: "pkt_buf q = Some buf" by auto
  show ?thesis
  proof (cases "reads E = Inl WouldBlock")
    case True': True
    then have "recv_credit_update c q = (r, c', p')" using True b assms(4) by (simp add: recv_rw_def Let_def)
    from recv_credit_update_fresh [OF assms(1-3) this] show ?thesis by (auto simp: vsock_ops split: if_splits)
  next
    case False
    have ok: "hdr_ok (q\<lparr>pkt_buf := x\<rparr>)" for x using assms(3) by simp
    show ?thesis using True b False assms(3,4) ok
      by (auto simp: recv_rw_def Let_def vsock_ops split: sum.splits io_kind.splits if_splits)
  qed
qed

text \<open>Every packet but a reset brings the guest's view up to date; a call that yields none takes away
  no more than the wish to read.\<close>

lemma recv_pkt_fresh:
  assumes p: "hdr_ok p" and m: "mask_ok c" and r: "recv_pkt E c p = (r, c', p')"
  shows "if r = Inr () then pkt_op p' = VSOCK_OP_RST \<or> last_fwd_cnt_to_peer c' = fwd_cnt c \<and> Rst \<notin> pending c \<and>
        pkt_op p' \<notin> {VSOCK_OP_REQUEST, VSOCK_OP_RESPONSE} \<and> pending c \<inter> {Request, Response} = {} \<or>
      last_fwd_cnt_to_peer c' = last_fwd_cnt_to_peer c \<and> Rst \<notin> pending c \<and>
        (Response \<in> pending c \<and> pkt_op p' = VSOCK_OP_RESPONSE \<and> pending c' = pending c - {Response} \<and> conn_state c' = Established \<or>
         Response \<notin> pending c \<and> Request \<in> pending c \<and> pkt_op p' = VSOCK_OP_REQUEST \<and> pending c' = pending c - {Request} \<and>
         conn_state c' = conn_state c)
    else last_fwd_cnt_to_peer c' = last_fwd_cnt_to_peer c \<and> pending c' = pending c - {Rw} \<and> conn_state c' = conn_state c"
proof -
  define q where "q = init_pkt c p"
  have q: "hdr_ok q" using init_pkt_ok [OF p] by (simp add: q_def)
  note eq = r [unfolded recv_pkt_eq Let_def q_def [symmetric]]
  show ?thesis
  proof (cases "pending c \<inter> {Rst, Response, Request} = {}")
    case False
    then show ?thesis using eq q by (auto simp: vsock_ops split: if_splits)
  next
    case True
    have sub: "pending c \<subseteq> {Rw, CreditUpdate}"
    proof
      fix x assume "x \<in> pending c" then show "x \<in> {Rw, CreditUpdate}" using True by (cases x) auto
    qed
    show ?thesis
    proof (cases "Rw \<in> pending c")
      case rw: True
      have m': "mask_ok (cleared Rw c)" "pending (cleared Rw c) \<subseteq> {CreditUpdate}" using m sub by auto
      have "recv_rw E (cleared Rw c) q = (r, c', p')" using eq True rw by auto
      from recv_rw_fresh [OF m' q this] True show ?thesis by auto
    next
      case no: False
      have "recv_credit_update c q = (r, c', p')" using eq True no by auto
      moreover have "pending c \<subseteq> {CreditUpdate}" using sub no by auto
      ultimately show ?thesis using recv_credit_update_fresh [OF m _ q] True no by (auto simp: vsock_ops)
    qed
  qed
qed

text \<open>The host's last report is what the guest knows; while data can flow, the host has counted what
  the guest has, and a report is due whenever the guest may see less than 4 KiB of free space.\<close>

definition live_inv :: "flow \<Rightarrow> bool" where
  "live_inv s = (let c = f_conn s in
    mask_ok c \<and> last_fwd_cnt_to_peer c = g_peer_fwd s \<and>
    (Request \<in> pending c \<longrightarrow> conn_state c \<in> {LocalInit, Killed} \<and> g_state s = GClosed) \<and>
    (Response \<in> pending c \<longrightarrow> conn_state c \<in> {PeerInit, Killed}) \<and>
    (conn_state c = PeerInit \<longrightarrow> Response \<in> pending c \<and> g_state s = GClosed) \<and>
    (conn_state c = LocalInit \<longrightarrow> g_state s \<noteq> GOpen) \<and> (conn_state c = Killed \<longrightarrow> Rst \<in> pending c) \<and>
    (g_state s \<noteq> GClosed \<longrightarrow> g_peer_alloc s = CONN_TX_BUF_SIZE) \<and>
    (can_recv_from_peer (conn_state c) \<longrightarrow> g_state s = GOpen) \<and>
    (can_recv_from_peer (conn_state c) \<or> conn_state c \<in> {LocalInit, PeerInit} \<longrightarrow>
       g_tx s = fwd_cnt c + word_of_nat (length (buffered (tx_buf c))) \<and> credit_fresh c) \<and>
    (conn_state c \<in> {LocalInit, PeerInit} \<longrightarrow> fwd_cnt c = last_fwd_cnt_to_peer c \<and> txbuf_is_empty (tx_buf c)))"

lemma send_control_fresh:
  "last_fwd_cnt_to_peer (send_control E c p) = last_fwd_cnt_to_peer c"
  "credit_fresh c \<Longrightarrow> credit_fresh (send_control E c p)"
  "conn_state (send_control E c p) = conn_state c \<or>
   conn_state c = LocalInit \<and> pkt_op p = VSOCK_OP_RESPONSE \<and> conn_state (send_control E c p) = Established \<or>
   (\<exists>r w. conn_state (send_control E c p) = PeerClosed r w \<and> (w \<or> can_recv_from_peer (conn_state c)))"
  by (cases "conn_state c";
      auto simp: send_control_def peer_shutdown_def peer_shutdown_more_def Let_def can_recv_from_peer_def credit_fresh_def)+

lemma live_invD:
  assumes "live_inv s"
  shows "mask_ok (f_conn s)" "last_fwd_cnt_to_peer (f_conn s) = g_peer_fwd s"
    "Request \<in> pending (f_conn s) \<Longrightarrow> conn_state (f_conn s) \<in> {LocalInit, Killed} \<and> g_state s = GClosed"
    "Response \<in> pending (f_conn s) \<Longrightarrow> conn_state (f_conn s) \<in> {PeerInit, Killed}"
    "conn_state (f_conn s) = PeerInit \<Longrightarrow> Response \<in> pending (f_conn s) \<and> g_state s = GClosed"
    "conn_state (f_conn s) = LocalInit \<Longrightarrow> g_state s \<noteq> GOpen"
    "conn_state (f_conn s) = Killed \<Longrightarrow> Rst \<in> pending (f_conn s)"
    "g_state s \<noteq> GClosed \<Longrightarrow> g_peer_alloc s = CONN_TX_BUF_SIZE"
    "can_recv_from_peer (conn_state (f_conn s)) \<Longrightarrow> g_state s = GOpen"
    "can_recv_from_peer (conn_state (f_conn s)) \<or> conn_state (f_conn s) \<in> {LocalInit, PeerInit} \<Longrightarrow>
       g_tx s = fwd_cnt (f_conn s) + word_of_nat (length (buffered (tx_buf (f_conn s)))) \<and> credit_fresh (f_conn s)"
    "conn_state (f_conn s) \<in> {LocalInit, PeerInit} \<Longrightarrow>
       fwd_cnt (f_conn s) = last_fwd_cnt_to_peer (f_conn s) \<and> txbuf_is_empty (tx_buf (f_conn s))"
  using assms unfolding live_inv_def Let_def by blast+

lemma live_receive:
  assumes inv: "live_inv s" and p: "hdr_ok p" and r: "recv_pkt E (f_conn s) p = (Inr (), c', p')" "pkt_op p' \<noteq> VSOCK_OP_RST"
  shows "live_inv (g_receive p' (s\<lparr>f_conn := c'\<rparr>))"
proof -
  define c where "c = f_conn s"
  note r' = r(1) [folded c_def] and I = live_invD [OF inv, folded c_def]
  have e: "recv_effect c (Inr (), c', p')" using recv_pkt_effect(1) [OF p r'] .
  have ad: "pkt_fwd_cnt p' = fwd_cnt c" "buf_alloc p' = CONN_TX_BUF_SIZE" using e by (simp_all add: recv_effect_def addressed_def)
  have same: "tx_buf c' = tx_buf c" "fwd_cnt c' = fwd_cnt c" "mask_ok c'" "pending c' \<subseteq> pending c"
    using e I(1) by (simp_all add: recv_effect_def)
  note defs = live_inv_def g_receive_def Let_def
  from recv_pkt_fresh [OF p I(1) r'] r(2) consider
      (report) "last_fwd_cnt_to_peer c' = fwd_cnt c" "Rst \<notin> pending c" "pkt_op p' \<notin> {VSOCK_OP_REQUEST, VSOCK_OP_RESPONSE}"
        "pending c \<inter> {Request, Response} = {}"
    | (response) "last_fwd_cnt_to_peer c' = last_fwd_cnt_to_peer c" "Rst \<notin> pending c" "Response \<in> pending c"
        "pkt_op p' = VSOCK_OP_RESPONSE" "pending c' = pending c - {Response}" "conn_state c' = Established"
    | (request) "last_fwd_cnt_to_peer c' = last_fwd_cnt_to_peer c" "Rst \<notin> pending c" "Response \<notin> pending c"
        "Request \<in> pending c" "pkt_op p' = VSOCK_OP_REQUEST" "pending c' = pending c - {Request}" "conn_state c' = conn_state c"
    by auto
  then show ?thesis
  proof cases
    case report
    have fresh: "credit_fresh c'" using report(1) same(2) by (intro fresh_now) simp
    have none: "Request \<notin> pending c'" "Response \<notin> pending c'" using report(4) same(4) by auto
    have st: "conn_state c \<noteq> PeerInit" "conn_state c \<noteq> Killed" using I(5,7) report(2,4) by auto
    have "conn_state c' = conn_state c \<or> conn_state c' = LocalClosed" using e report(4) by (auto simp: recv_effect_def)
    then show ?thesis
    proof
      assume "conn_state c' = conn_state c"
      then show ?thesis using report(1,3) none st fresh same(1-3) ad I(6,9-11) by (simp add: defs)
    next
      assume "conn_state c' = LocalClosed"
      then show ?thesis using report(1,3) none same(1-3) ad by (simp add: defs can_recv_from_peer_def)
    qed
  next
    case response
    have st: "conn_state c = PeerInit" using I(4,7) response(2,3) by auto
    then have fresh: "credit_fresh c'" using I(11) response(1) same(2) by (intro fresh_now) simp
    have "Request \<notin> pending c'" using I(3) st response(5) by auto
    then show ?thesis using response fresh st same(1-3) ad I(2,10,11) by (simp add: defs vsock_ops)
  next
    case request
    have st: "conn_state c = LocalInit" using I(3,7) request(2,4) by auto
    then have fresh: "credit_fresh c'" using I(11) request(1) same(2) by (intro fresh_now) simp
    show ?thesis using request fresh st same(1-3) ad I(2,10,11) by (simp add: defs can_recv_from_peer_def)
  qed
qed

lemma live_send_data:
  assumes inv: "live_inv s" and ok: "txbuf_ok (tx_buf (f_conn s))" and m: "pkt_read p"
    and r: "can_recv_from_peer (conn_state (f_conn s))" "pkt_op p = VSOCK_OP_RW" and sd: "send_pkt E (f_conn s) p = (Inr (), c')"
  shows "live_inv (g_sent p (s\<lparr>f_conn := c'\<rparr>))"
proof -
  define d where "d = (f_conn s)\<lparr>peer_buf_alloc := buf_alloc p, peer_fwd_cnt := pkt_fwd_cnt p\<rparr>"
  note I = live_invD [OF inv]
  have d: "send_data E d p = (Inr (), c')" using sd r by (simp add: send_pkt_def d_def Let_def)
  have b: "credit_fresh d" using I(10) r(1) by (simp add: d_def credit_fresh_def peer_needs_credit_update_def)
  have f: "last_fwd_cnt_to_peer c' = last_fwd_cnt_to_peer (f_conn s)"
    "conn_state c' = Killed \<and> Rst \<in> pending c' \<or> conn_state c' = conn_state (f_conn s) \<and> credit_fresh c' \<and>
      fwd_cnt c' + word_of_nat (length (buffered (tx_buf c'))) =
      fwd_cnt (f_conn s) + word_of_nat (length (buffered (tx_buf (f_conn s)))) + pkt_len p"
    using send_data_fresh [OF _ m b d] ok by (auto simp: d_def)
  have e: "mask_ok c'" "pending c' \<subseteq> pending (f_conn s) \<union> {Rst, CreditUpdate}"
    using send_pkt_effect [OF ok sd] I(1) by auto
  have st: "conn_state (f_conn s) \<notin> {LocalInit, PeerInit, Killed}" using r(1) by (auto simp: can_recv_from_peer_def)
  then have none: "Request \<notin> pending c'" "Response \<notin> pending c'" using I(3,4) e(2) by auto
  note defs = live_inv_def g_sent_def Let_def vsock_ops
  from f(2) show ?thesis
  proof
    assume "conn_state c' = Killed \<and> Rst \<in> pending c'"
    then show ?thesis using e(1) none f(1) I(2,8) r(2) by (simp add: defs can_recv_from_peer_def)
  next
    assume *: "conn_state c' = conn_state (f_conn s) \<and> credit_fresh c' \<and> fwd_cnt c' + word_of_nat (length (buffered (tx_buf c'))) =
      fwd_cnt (f_conn s) + word_of_nat (length (buffered (tx_buf (f_conn s)))) + pkt_len p"
    then show ?thesis using e(1) none f(1) I(2,8,9,10) r st by (simp add: defs)
  qed
qed

lemma live_send_control:
  assumes inv: "live_inv s" and ok: "txbuf_ok (tx_buf (f_conn s))" and m: "g_may_send s p"
    and r: "\<not> (can_recv_from_peer (conn_state (f_conn s)) \<and> pkt_op p = VSOCK_OP_RW)" and sd: "send_pkt E (f_conn s) p = (r, c')"
  shows "live_inv (g_sent p (s\<lparr>f_conn := c'\<rparr>))"
proof -
  define d where "d = (f_conn s)\<lparr>peer_buf_alloc := buf_alloc p, peer_fwd_cnt := pkt_fwd_cnt p\<rparr>"
  define c where "c = f_conn s"
  note I = live_invD [OF inv, folded c_def]
  have c': "c' = send_control E d p" using sd r by (auto simp: send_pkt_def d_def Let_def)
  have d: "conn_state d = conn_state c" "tx_buf d = tx_buf c" "fwd_cnt d = fwd_cnt c" "pending d = pending c"
    "last_fwd_cnt_to_peer d = last_fwd_cnt_to_peer c" "credit_fresh d = credit_fresh c"
    by (simp_all add: d_def c_def credit_fresh_def peer_needs_credit_update_def)
  have e: "mask_ok c'" "pending c \<subseteq> pending c'" "pending c' \<subseteq> pending c \<union> {Rst, CreditUpdate}"
    using send_pkt_effect [OF ok sd] I(1) by (auto simp: c_def)
  note same = send_control_effect(2,3) [where E = E and c = d and p = p, folded c', unfolded d]
  note fr = send_control_fresh [where E = E and c = d and p = p, folded c', unfolded d]
  have idle: "pkt_op p = VSOCK_OP_RW \<Longrightarrow> conn_state c \<notin> {LocalInit, PeerInit} \<and> \<not> can_recv_from_peer (conn_state c)"
    using m r I(5,6) by (auto simp: g_may_send_def c_def)
  have asked: "pkt_op p = VSOCK_OP_RESPONSE \<Longrightarrow> g_state s = GAsked" using m by (simp add: g_may_send_def)
  have req: "Request \<in> pending c' \<Longrightarrow> Request \<in> pending c" "Response \<in> pending c' \<Longrightarrow> Response \<in> pending c" using e(3) by auto
  note defs = live_inv_def g_sent_def Let_def
  from fr(3) consider "conn_state c' = conn_state c" | "conn_state c = LocalInit" "pkt_op p = VSOCK_OP_RESPONSE" "conn_state c' = Established"
    | rc w where "conn_state c' = PeerClosed rc w" "w \<or> can_recv_from_peer (conn_state c)" "conn_state c' \<noteq> conn_state c"
    by blast
  then show ?thesis
  proof cases
    case 1
    then show ?thesis
    proof (cases "pkt_op p = VSOCK_OP_RW")
      case True
      then show ?thesis using 1 idle I(2-4,7,8) e(1,2) req fr(1) by (auto simp: defs vsock_ops)
    next
      case False
      show ?thesis
      proof (cases "pkt_op p = VSOCK_OP_RESPONSE")
        case no: False
        show ?thesis using False no 1 I(2-4,6,8-11) e(1,2) req fr(1,2) same I(5) I(7) by (auto simp: defs)
      next
        case True
        have "conn_state c \<noteq> LocalInit"
        proof
          assume "conn_state c = LocalInit"
          then have "conn_state c' = Established" using c' d True by (simp add: send_control_def)
          then show False using 1 \<open>conn_state c = LocalInit\<close> by simp
        qed
        then show ?thesis using False True asked 1 I(2-5,7-10) e(1,2) req fr(1,2) same by (auto simp: defs)
      qed
    qed
  next
    case 2
    then show ?thesis using asked I(2-4,8,10) e(1) req fr(1,2) same by (auto simp: defs vsock_ops)
  next
    case 3
    then have "conn_state c \<notin> {LocalInit, PeerInit, Killed}"
      using c' d(1) by (auto simp: send_control_def split: if_splits)
    then show ?thesis using 3 asked idle I(2-4,8-10) e(1) req fr(1,2) same
      by (cases "pkt_op p = VSOCK_OP_RW") (auto simp: defs can_recv_from_peer_def vsock_ops)
  qed
qed

lemma live_event:
  assumes inv: "live_inv s" and ok: "txbuf_ok (tx_buf (f_conn s))"
  shows "live_inv (s\<lparr>f_conn := conn_notify E (f_conn s) ev\<rparr>)"
proof -
  define c where "c = f_conn s"
  define c' where "c' = conn_notify E c ev"
  note I = live_invD [OF inv, folded c_def]
  have e: "mask_ok c'" "pending c \<subseteq> pending c'" "pending c' \<subseteq> pending c \<union> {Rw, Rst, CreditUpdate}"
    using conn_notify_effect [OF ok refl, of E ev] I(1) by (auto simp: c_def c'_def)
  have req: "Request \<in> pending c' \<Longrightarrow> Request \<in> pending c" "Response \<in> pending c' \<Longrightarrow> Response \<in> pending c" using e(3) by auto
  have f: "last_fwd_cnt_to_peer c' = last_fwd_cnt_to_peer c"
    "conn_state c' = Killed \<and> Rst \<in> pending c' \<or> conn_state c' = conn_state c \<and>
      (credit_fresh c \<longrightarrow> conn_state c = PeerClosed True True \<or> credit_fresh c') \<and>
      fwd_cnt c' + word_of_nat (length (buffered (tx_buf c'))) = fwd_cnt c + word_of_nat (length (buffered (tx_buf c)))"
    using notify_fresh [OF ok refl, of E ev] by (simp_all add: c_def c'_def)
  have hs: "fwd_cnt c' = fwd_cnt c \<and> tx_buf c' = tx_buf c" if "conn_state c \<in> {LocalInit, PeerInit}"
    using I(11) [OF that] by (simp add: c'_def conn_notify_def Let_def)
  note defs = live_inv_def Let_def c_def [symmetric] c'_def [symmetric]
  from f(2) show ?thesis
  proof
    assume "conn_state c' = Killed \<and> Rst \<in> pending c'"
    then show ?thesis using e(1) req f(1) I(2-4,8) by (auto simp: defs can_recv_from_peer_def)
  next
    assume *: "conn_state c' = conn_state c \<and> (credit_fresh c \<longrightarrow> conn_state c = PeerClosed True True \<or> credit_fresh c') \<and>
      fwd_cnt c' + word_of_nat (length (buffered (tx_buf c'))) = fwd_cnt c + word_of_nat (length (buffered (tx_buf c)))"
    then have fresh: "can_recv_from_peer (conn_state c) \<or> conn_state c \<in> {LocalInit, PeerInit} \<Longrightarrow>
        g_tx s = fwd_cnt c' + word_of_nat (length (buffered (tx_buf c'))) \<and> credit_fresh c'"
      using I(10) by (auto simp: can_recv_from_peer_def)
    have "live_inv (s\<lparr>f_conn := c'\<rparr>)"
      unfolding live_inv_def Let_def
      using * e(1,2) req f(1) I(2) I(3-9,11) fresh hs by simp blast
    then show ?thesis by (simp add: c_def c'_def)
  qed
qed

lemma live_flows: "flows A s \<Longrightarrow> live_inv s"
proof (induction rule: flows.induct)
  case (host_asks st lc pc lp pp)
  let ?c = "new_local_init st lc pc lp pp"
  have "credit_fresh ?c" by (rule fresh_now) (simp add: new_local_init_def)
  moreover have "conn_state ?c = LocalInit" "fwd_cnt ?c = 0" "last_fwd_cnt_to_peer ?c = 0" "tx_buf ?c = txbuf_new"
    by (simp_all add: new_local_init_def)
  ultimately show ?case by (simp add: live_inv_def g_start_def Let_def can_recv_from_peer_def
      txbuf_new_def buffered_def txbuf_is_empty_def txbuf_len_def)
next
  case (guest_asks st lc pc lp pp)
  let ?c = "new_peer_init st lc pc lp pp A"
  have "credit_fresh ?c" by (rule fresh_now) (simp add: new_peer_init_def)
  moreover have "conn_state ?c = PeerInit" "fwd_cnt ?c = 0" "last_fwd_cnt_to_peer ?c = 0" "tx_buf ?c = txbuf_new"
    by (simp_all add: new_peer_init_def)
  ultimately show ?case by (simp add: live_inv_def g_start_def Let_def can_recv_from_peer_def
      txbuf_new_def buffered_def txbuf_is_empty_def txbuf_len_def)
next
  case (to_guest s p E c' p')
  then show ?case using live_receive by blast
next
  case (no_packet s p E e c' p')
  note I = live_invD [OF no_packet(4)]
  have same: "tx_buf c' = tx_buf (f_conn s)" "fwd_cnt c' = fwd_cnt (f_conn s)" "mask_ok c'"
    using recv_pkt_effect(1) [OF no_packet(2,3)] I(1) by (simp_all add: recv_effect_def)
  have f: "last_fwd_cnt_to_peer c' = last_fwd_cnt_to_peer (f_conn s)" "pending c' = pending (f_conn s) - {Rw}"
    "conn_state c' = conn_state (f_conn s)"
    using recv_pkt_fresh [OF no_packet(2) I(1) no_packet(3)] by simp_all
  have "credit_fresh c' = credit_fresh (f_conn s)" using same f by (simp add: credit_fresh_def peer_needs_credit_update_def)
  then show ?case using no_packet(4) same f by (simp add: live_inv_def Let_def)
next
  case (guest_reads s n)
  then show ?case by (simp add: live_inv_def)
next
  case (from_guest s p E c')
  have ok: "txbuf_ok (tx_buf (f_conn s))" using rx_credit_flows [OF from_guest(1)] by simp
  show ?case using live_send_data [OF from_guest(5) ok from_guest(3)] live_send_control [OF from_guest(5) ok from_guest(2)] from_guest(4)
    by blast
next
  case (event s E ev)
  have "txbuf_ok (tx_buf (f_conn s))" using rx_credit_flows [OF event(1)] by simp
  then show ?case by (rule live_event [OF event(2)])
next
  case (killed s)
  then show ?case using live_invD [OF killed(2)] by (auto simp: live_inv_def Let_def can_recv_from_peer_def)
qed

text \<open>C35. A guest is never left without credit: when everything it has sent is passed on, it either sees
  at least 4 KiB of free space or the host has a packet for it, which brings the new credit.\<close>

theorem credit_is_returned:
  assumes "flows A s" "can_recv_from_peer (conn_state (f_conn s))" "txbuf_is_empty (tx_buf (f_conn s))"
  shows "CONN_CREDIT_UPDATE_THRESHOLD \<le> g_credit s \<or> has_pending_rx (f_conn s)"
proof -
  define c where "c = f_conn s"
  note I = live_invD [OF live_flows [OF assms(1)], folded c_def]
  have ok: "txbuf_ok (tx_buf c)" using rx_credit_flows [OF assms(1)] by (simp add: c_def)
  then have "buffered (tx_buf c) = []" using length_buffered [OF ok] assms(3) by (simp add: txbuf_is_empty_def c_def)
  then have tx: "g_tx s = fwd_cnt c" and fresh: "credit_fresh c" using I(10) assms(2) by (simp_all add: c_def)
  show ?thesis
  proof (cases "CreditUpdate \<in> pending c")
    case True
    then show ?thesis using has_pending_rx_iff [OF I(1)] by (auto simp: c_def)
  next
    case False
    then have "\<not> CONN_TX_BUF_SIZE - (fwd_cnt c - last_fwd_cnt_to_peer c) < CONN_CREDIT_UPDATE_THRESHOLD"
      using fresh by (simp add: credit_fresh_def peer_needs_credit_update_def)
    moreover have "g_peer_alloc s = CONN_TX_BUF_SIZE" using I(8,9) assms(2) by (simp add: c_def)
    ultimately show ?thesis using tx I(2) by (simp add: g_credit_def not_less)
  qed
qed

section \<open>A run\<close>

text \<open>A guest with a buffer of two bytes connects; the host answers and then has three bytes for it.\<close>

definition deliver :: "ConnEnv \<Rightarrow> VsockPacket \<Rightarrow> flow \<Rightarrow> flow" where
  "deliver E p s = (case recv_pkt E (f_conn s) p of (r, c', p') \<Rightarrow> g_receive p' (s\<lparr>f_conn := c'\<rparr>))"

lemma flows_deliver:
  assumes "flows A s" "hdr_ok p" "fst (recv_pkt E (f_conn s) p) = Inr ()"
    "pkt_op (snd (snd (recv_pkt E (f_conn s) p))) \<noteq> VSOCK_OP_RST"
  shows "flows A (deliver E p s)"
proof -
  obtain r c' p' where e: "recv_pkt E (f_conn s) p = (r, c', p')" by (metis prod_cases3)
  then have "recv_pkt E (f_conn s) p = (Inr (), c', p')" "pkt_op p' \<noteq> VSOCK_OP_RST" using assms(3,4) by simp_all
  from flows.to_guest [OF assms(1,2) this] show ?thesis by (simp add: deliver_def e)
qed

definition ex_open :: flow where
  "ex_open = deliver ex_env (blank_pkt None) (g_start (new_peer_init ex_stream 2 3 1024 5000 2) 2)"

definition ex_full :: flow where
  "ex_full = deliver (ex_env\<lparr>reads := Inr [9, 8, 7]\<rparr>) (blank_pkt (Some [0, 0, 0]))
     (ex_open\<lparr>f_conn := conn_notify ex_env (f_conn ex_open) \<lparr>epollin = True, epollout = False\<rparr>\<rparr>)"

lemma blank_ok: "hdr_ok (blank_pkt b)"
  by (simp add: blank_pkt_def hdr_ok_def VSOCK_PKT_HDR_SIZE_def)

lemma flows_ex_open: "flows 2 ex_open"
  unfolding ex_open_def by (rule flows_deliver [OF flows.guest_asks blank_ok]) code_simp+

lemma flows_ex_full: "flows 2 ex_full"
  unfolding ex_full_def by (rule flows_deliver [OF flows.event [OF flows_ex_open] blank_ok]) code_simp+

text \<open>A packet from the guest.\<close>

definition take_pkt :: "ConnEnv \<Rightarrow> VsockPacket \<Rightarrow> flow \<Rightarrow> flow" where
  "take_pkt E p s = g_sent p (s\<lparr>f_conn := snd (send_pkt E (f_conn s) p)\<rparr>)"

lemma flows_take_pkt:
  assumes "flows A s" "g_may_send s p" "pkt_read p" "fst (send_pkt E (f_conn s) p) = Inr ()"
  shows "flows A (take_pkt E p s)"
  using flows.from_guest [OF assms(1-3), of E "snd (send_pkt E (f_conn s) p)"] assms(4)
  by (simp add: take_pkt_def prod_eq_iff)

text \<open>The guest with two bytes in its buffer of two announces a buffer of five.\<close>

definition ex_report :: VsockPacket where
  "ex_report = set_buf_alloc 5 (set_op VSOCK_OP_CREDIT_UPDATE (blank_pkt None))"

definition ex_grown :: flow where
  "ex_grown = take_pkt ex_env ex_report ex_full"

lemma flows_ex_grown: "flows 2 ex_grown"
proof -
  have "buf_alloc ex_report = 5 \<and> pkt_fwd_cnt ex_report = g_fwd ex_full \<and> g_held ex_full = 2" by code_simp
  moreover have "pkt_op ex_report = VSOCK_OP_CREDIT_UPDATE \<and> pkt_len ex_report = 0" by code_simp
  ultimately have "g_may_send ex_full ex_report" "pkt_read ex_report" by (simp_all add: g_may_send_def pkt_read_def vsock_ops)
  then show ?thesis unfolding ex_grown_def by (rule flows_take_pkt [OF flows_ex_full]) code_simp
qed

theorem guest_buffer_never_overflows_witness:
  "g_held ex_full = 2 \<and> g_held ex_full \<le> unat (g_alloc ex_full) \<and>
   g_alloc ex_grown = 5 \<and> peer_avail_credit (f_conn ex_grown) + g_held ex_grown \<le> unat (g_alloc ex_grown)"
proof -
  have "g_held ex_full = 2 \<and> g_alloc ex_grown = 5" by code_simp
  then show ?thesis
    using guest_buffer_never_overflows [OF flows_ex_full] guest_buffer_never_overflows [OF flows_ex_grown] by blast
qed

definition ex_in_credit :: VsockPacket where
  "ex_in_credit = set_buf_alloc 2 (set_len 2 (set_op VSOCK_OP_RW (blank_pkt (Some [7, 8, 9]))))"

lemma ex_in_credit_sent: "g_may_send ex_open ex_in_credit" "pkt_read ex_in_credit"
proof -
  have "buf_alloc ex_in_credit = 2 \<and> pkt_fwd_cnt ex_in_credit = g_fwd ex_open \<and> g_held ex_open = 0" by code_simp
  moreover have "pkt_op ex_in_credit = VSOCK_OP_RW \<and> pkt_len ex_in_credit = 2" by code_simp
  moreover have "g_state ex_open = GOpen \<and> 2 \<le> g_credit ex_open" by code_simp
  moreover have "pkt_buf ex_in_credit = Some [7, 8, 9]" by code_simp
  ultimately show "g_may_send ex_open ex_in_credit" "pkt_read ex_in_credit"
    by (simp_all add: g_may_send_def pkt_read_def vsock_ops)
qed

theorem credit_prevents_overflow_witness:
  "\<exists>c'. send_pkt ex_env (f_conn ex_open) ex_in_credit = (Inr (), c') \<and> conn_state c' \<noteq> Killed"
proof -
  obtain r c' where s: "send_pkt ex_env (f_conn ex_open) ex_in_credit = (r, c')" by fastforce
  have "conn_state (f_conn ex_open) = Established" by code_simp
  moreover have "fst (stream_write (writes ex_env) (pkt_data ex_in_credit)) = Inr 2" by code_simp
  moreover have "pkt_buf ex_in_credit = Some [7, 8, 9] \<and> pkt_len ex_in_credit = 2" by code_simp
  ultimately show ?thesis
    using credit_prevents_overflow [OF flows_ex_open ex_in_credit_sent(1) s] s by auto
qed

text \<open>C35, applied after the guest has sent two bytes, which the stream took.\<close>

definition ex_passed :: flow where
  "ex_passed = take_pkt ex_env ex_in_credit ex_open"

theorem credit_is_returned_witness:
  "stream_out (stream (f_conn ex_passed)) = [7, 8] \<and>
   (CONN_CREDIT_UPDATE_THRESHOLD \<le> g_credit ex_passed \<or> has_pending_rx (f_conn ex_passed))"
proof -
  have f: "flows 2 ex_passed" unfolding ex_passed_def
    by (rule flows_take_pkt [OF flows_ex_open ex_in_credit_sent]) code_simp
  have "stream_out (stream (f_conn ex_passed)) = [7, 8]" by code_simp
  moreover have "can_recv_from_peer (conn_state (f_conn ex_passed))" by code_simp
  moreover have "txbuf_is_empty (tx_buf (f_conn ex_passed))" by code_simp
  ultimately show ?thesis using credit_is_returned [OF f] by blast
qed

section \<open>Guests that break the rules\<close>

text \<open>A guest that reports a buffer smaller than what is on its way makes the available credit wrap
  around: 4 bytes announced, 10 on the way, and the host believes it may send 4 GiB.\<close>

lemma shrunk_buffer_wraps_credit:
  "peer_avail_credit ((f_conn ex_open)\<lparr>rx_cnt := 10, peer_buf_alloc := 4\<rparr>) = 4294967290"
proof -
  have "peer_fwd_cnt (f_conn ex_open) = 0" by code_simp
  then show ?thesis by (simp add: peer_avail_credit_def)
qed

text \<open>A receive buffer of no bytes makes the host read no bytes, which it takes for the end of the
  stream: the connection is closed although the stream has data.\<close>

lemma empty_buffer_closes_connection:
  "conn_state (f_conn (deliver (ex_env\<lparr>reads := Inr [9, 8, 7]\<rparr>) (blank_pkt (Some []))
     (ex_open\<lparr>f_conn := conn_notify ex_env (f_conn ex_open) \<lparr>epollin = True, epollout = False\<rparr>\<rparr>))) = LocalClosed"
  by code_simp

text \<open>A packet whose length exceeds its buffer, as the single-descriptor format lets through, panics.\<close>

lemma overlong_packet_panics:
  "fst (send_pkt ex_env (f_conn ex_open) (set_len 2 (set_op VSOCK_OP_RW (blank_pkt (Some [0]))))) = Inl VsockPanics"
  by code_simp

end
