(* ===== verification/Vsock_Queues.thy ===== *)
theory Vsock_Queues
  imports Vsock_Connection
begin

text \<open>
  The two queues of the vsock multiplexer (\<^verbatim>\<open>hypervisor/virtio-devices/src/vsock/unix\<close>, \<^verbatim>\<open>muxer_rxq.rs\<close>
  and \<^verbatim>\<open>muxer_killq.rs\<close>): connections and resets that wait for a buffer of the guest, and connections
  whose time runs out. Both have a fixed capacity and a flag that says whether they are complete. The
  connections of the multiplexer are a \<open>HashMap\<close>; the order of its list is the order of iteration.
\<close>

definition MAX_CONNECTIONS :: nat where "MAX_CONNECTIONS = 1023"
definition MUXER_RXQ_SIZE :: nat where "MUXER_RXQ_SIZE = 256"
definition MUXER_KILLQ_SIZE :: nat where "MUXER_KILLQ_SIZE = 128"

record ConnMapKey =
  key_local :: u32
  key_peer :: u32

type_synonym conns = "(ConnMapKey, VsockConnection) hmap"

section \<open>The receive queue\<close>

datatype MuxerRx = ConnRx ConnMapKey | RstPkt u32 u32

record MuxerRxQ =
  rx_q :: "MuxerRx list"
  rx_synced :: bool

definition rxq_new :: MuxerRxQ where
  "rxq_new = \<lparr>rx_q = [], rx_synced = True\<rparr>"

fun rxq_fill :: "MuxerRx list \<Rightarrow> conns \<Rightarrow> MuxerRxQ" where
  "rxq_fill q [] = \<lparr>rx_q = q, rx_synced = True\<rparr>"
| "rxq_fill q ((key, conn) # cs) =
    (if \<not> has_pending_rx conn then rxq_fill q cs
     else if length q \<ge> MUXER_RXQ_SIZE then \<lparr>rx_q = q, rx_synced = False\<rparr>
     else rxq_fill (q @ [ConnRx key]) cs)"

definition rxq_from_conn_map :: "conns \<Rightarrow> MuxerRxQ" where
  "rxq_from_conn_map cs = rxq_fill [] cs"

definition rxq_is_full :: "MuxerRxQ \<Rightarrow> bool" where
  "rxq_is_full Q \<longleftrightarrow> length (rx_q Q) = MUXER_RXQ_SIZE"

definition rxq_is_empty :: "MuxerRxQ \<Rightarrow> bool" where
  "rxq_is_empty Q \<longleftrightarrow> length (rx_q Q) = 0"

text \<open>Replace the first connection found.\<close>

fun evict :: "MuxerRx \<Rightarrow> MuxerRx list \<Rightarrow> MuxerRx list option" where
  "evict rx [] = None"
| "evict rx (ConnRx key # q) = Some (rx # q)"
| "evict rx (RstPkt l p # q) = map_option (Cons (RstPkt l p)) (evict rx q)"

definition rxq_push :: "MuxerRx \<Rightarrow> MuxerRxQ \<Rightarrow> bool \<times> MuxerRxQ" where
  "rxq_push rx Q =
    (if rx_synced Q \<and> \<not> rxq_is_full Q then (True, Q\<lparr>rx_q := rx_q Q @ [rx]\<rparr>)
     else case rx of
       RstPkt _ _ \<Rightarrow> (case evict rx (rev (rx_q Q)) of
           Some q \<Rightarrow> (True, Q\<lparr>rx_q := rev q, rx_synced := False\<rparr>)
         | None \<Rightarrow> (False, Q))
     | ConnRx _ \<Rightarrow> (False, Q\<lparr>rx_synced := False\<rparr>))"

definition rxq_peek :: "MuxerRxQ \<Rightarrow> MuxerRx option" where
  "rxq_peek Q = (case rx_q Q of [] \<Rightarrow> None | rx # _ \<Rightarrow> Some rx)"

definition rxq_pop :: "MuxerRxQ \<Rightarrow> MuxerRx option \<times> MuxerRxQ" where
  "rxq_pop Q = (case rx_q Q of [] \<Rightarrow> (None, Q) | rx # q \<Rightarrow> (Some rx, Q\<lparr>rx_q := q\<rparr>))"

section \<open>The kill queue\<close>

record MuxerKillQItem =
  item_key :: ConnMapKey
  kill_time :: int

record MuxerKillQ =
  kq_items :: "MuxerKillQItem list"
  kq_synced :: bool

definition killq_new :: MuxerKillQ where
  "killq_new = \<lparr>kq_items = [], kq_synced = True\<rparr>"

fun killq_fill :: "int \<Rightarrow> MuxerKillQItem list \<Rightarrow> conns \<Rightarrow> MuxerKillQ" where
  "killq_fill t q [] = \<lparr>kq_items = q, kq_synced = True\<rparr>"
| "killq_fill t q ((key, conn) # cs) =
    (if \<not> will_expire t conn then killq_fill t q cs
     else if length q \<ge> MUXER_KILLQ_SIZE then \<lparr>kq_items = q, kq_synced = False\<rparr>
     else killq_fill t (q @ [\<lparr>item_key = key, kill_time = the (expiry conn)\<rparr>]) cs)"

text \<open>\<^verbatim>\<open>sort_unstable_by_key\<close> may order items of the same time either way.\<close>

definition killq_from_conn_map :: "int \<Rightarrow> conns \<Rightarrow> MuxerKillQ" where
  "killq_from_conn_map t cs =
    (let Q = killq_fill t [] cs in Q\<lparr>kq_items := sort_key kill_time (kq_items Q)\<rparr>)"

definition killq_is_full :: "MuxerKillQ \<Rightarrow> bool" where
  "killq_is_full Q \<longleftrightarrow> length (kq_items Q) = MUXER_KILLQ_SIZE"

definition killq_is_empty :: "MuxerKillQ \<Rightarrow> bool" where
  "killq_is_empty Q \<longleftrightarrow> length (kq_items Q) = 0"

definition killq_push :: "ConnMapKey \<Rightarrow> int \<Rightarrow> MuxerKillQ \<Rightarrow> MuxerKillQ" where
  "killq_push key t Q =
    (if \<not> kq_synced Q \<or> killq_is_full Q then Q\<lparr>kq_synced := False\<rparr>
     else Q\<lparr>kq_items := kq_items Q @ [\<lparr>item_key = key, kill_time = t\<rparr>]\<rparr>)"

definition killq_pop :: "int \<Rightarrow> MuxerKillQ \<Rightarrow> ConnMapKey option \<times> MuxerKillQ" where
  "killq_pop t Q = (case kq_items Q of [] \<Rightarrow> (None, Q)
     | item # q \<Rightarrow> if t > kill_time item then (Some (item_key item), Q\<lparr>kq_items := q\<rparr>) else (None, Q))"

section \<open>What the queues hold\<close>

text \<open>A complete receive queue has every connection with something to send.\<close>

definition rxq_covers :: "(ConnMapKey \<rightharpoonup> VsockConnection) \<Rightarrow> MuxerRxQ \<Rightarrow> bool" where
  "rxq_covers cs Q \<longleftrightarrow> length (rx_q Q) \<le> MUXER_RXQ_SIZE \<and>
    (rx_synced Q \<longrightarrow> (\<forall>key conn. cs key = Some conn \<longrightarrow> has_pending_rx conn \<longrightarrow> ConnRx key \<in> set (rx_q Q)))"

lemma rxq_fill_covers:
  assumes "length q \<le> MUXER_RXQ_SIZE"
  shows "length (rx_q (rxq_fill q cs)) \<le> MUXER_RXQ_SIZE \<and> (rx_synced (rxq_fill q cs) \<longrightarrow>
    set q \<subseteq> set (rx_q (rxq_fill q cs)) \<and> (\<forall>(key, conn) \<in> set cs. has_pending_rx conn \<longrightarrow> ConnRx key \<in> set (rx_q (rxq_fill q cs))))"
  using assms by (induction q cs rule: rxq_fill.induct) auto

lemma rxq_from_conn_map_covers: "rxq_covers (map_of cs) (rxq_from_conn_map cs)"
  using rxq_fill_covers [of "[]" cs] by (auto simp: rxq_from_conn_map_def rxq_covers_def dest!: map_of_SomeD)

lemma evict_length: "evict rx q = Some q' \<Longrightarrow> length q' = length q"
  by (induction rx q arbitrary: q' rule: evict.induct) auto

lemma rxq_push_length: "length (rx_q Q) \<le> MUXER_RXQ_SIZE \<Longrightarrow> length (rx_q (snd (rxq_push rx Q))) \<le> MUXER_RXQ_SIZE"
  by (auto simp: rxq_push_def rxq_is_full_def split: MuxerRx.splits option.splits dest: evict_length)

lemma rxq_push_spec:
  "rx_synced (snd (rxq_push rx Q)) \<Longrightarrow> rx_synced Q \<and> set (rx_q Q) \<subseteq> set (rx_q (snd (rxq_push rx Q))) \<and>
     (\<forall>key. rx = ConnRx key \<longrightarrow> rx \<in> set (rx_q (snd (rxq_push rx Q))))"
  by (auto simp: rxq_push_def split: MuxerRx.splits option.splits if_splits)

lemma rxq_push_covers: "rxq_covers cs Q \<Longrightarrow> rxq_covers cs (snd (rxq_push rx Q))"
  unfolding rxq_covers_def using rxq_push_length [of Q rx] rxq_push_spec [of rx Q] by blast

lemma killq_fill_later:
  "\<forall>i \<in> set q. t < kill_time i \<Longrightarrow> \<forall>i \<in> set (kq_items (killq_fill t q cs)). t < kill_time i"
  by (induction t q cs rule: killq_fill.induct) (auto simp: will_expire_def split: option.splits)

lemma killq_fill_unsynced: "\<not> kq_synced (killq_fill t q cs) \<Longrightarrow> kq_items (killq_fill t q cs) \<noteq> []"
  by (induction t q cs rule: killq_fill.induct) (auto simp: MUXER_KILLQ_SIZE_def)

lemma killq_rebuilt:
  "\<forall>i \<in> set (kq_items (killq_from_conn_map t cs)). t < kill_time i"
  "kq_synced (killq_from_conn_map t cs) \<or> kq_items (killq_from_conn_map t cs) \<noteq> []"
  using killq_fill_later [of "[]" t cs] killq_fill_unsynced [of t "[]" cs]
  by (auto simp: killq_from_conn_map_def Let_def dest: arg_cong [where f = length])

text \<open>A reset is refused by a queue that lost connections even when it has room, if no connection is
  left in it.\<close>

lemma reset_dropped_by_empty_queue:
  "rxq_push (RstPkt l p) \<lparr>rx_q = [], rx_synced = False\<rparr> = (False, \<lparr>rx_q = [], rx_synced = False\<rparr>)"
  by (simp add: rxq_push_def)

text \<open>A connection whose time has already passed when the kill queue is rebuilt is left out of it.\<close>

lemma expired_connection_left_out:
  "expiry conn = Some e \<Longrightarrow> e \<le> t \<Longrightarrow> killq_from_conn_map t [(key, conn)] = \<lparr>kq_items = [], kq_synced = True\<rparr>"
  by (simp add: killq_from_conn_map_def will_expire_def Let_def)

end
