(* ===== verification/Vsock_Muxer.thy ===== *)
theory Vsock_Muxer
  imports Vsock_Queues
begin

text \<open>
  The vsock multiplexer (\<^verbatim>\<open>hypervisor/virtio-devices/src/vsock/unix/muxer.rs\<close>): it routes packets to
  connections, creates and removes them, and hands out host ports. The environment of a call has the
  clock and the stream answers for the connection that is called, and the results of \<^verbatim>\<open>epoll_ctl\<close>, of
  connecting and accepting sockets, and of reading a command from a host client; one reading of the
  clock stands for those of a call. The kernel's interest list and the timing log are left out.
\<close>

section \<open>Streams and their acknowledgements\<close>

primrec label_as_str :: "PassFdLabel \<Rightarrow> string" where
  "label_as_str Stdin = ''stdin''"
| "label_as_str Stdout = ''stdout''"
| "label_as_str Stderr = ''stderr''"
| "label_as_str StreamLabel = ''stream''"
| "label_as_str (OtherLabel s) = s"

definition label_from :: "string \<Rightarrow> PassFdLabel" where
  "label_from s = (if s = ''stdin'' then Stdin else if s = ''stdout'' then Stdout
     else if s = ''stderr'' then Stderr else if s = ''stream'' then StreamLabel else OtherLabel s)"

lemma label_roundtrip: "label_as_str (label_from s) = s"
  by (simp add: label_from_def)

definition as_bytes :: "string \<Rightarrow> u8 list" where
  "as_bytes s = map of_char s"

definition newline :: string where "newline = [CHR 0x0A]"

text \<open>The bytes written when the write succeeds.\<close>

definition send_connect_ack :: "u32 \<Rightarrow> VsockBackendStream \<Rightarrow> VsockBackendStream" where
  "send_connect_ack port s = (case stream_kind s of
     UnixStream \<Rightarrow> s\<lparr>stream_out := stream_out s @ as_bytes (''OK '' @ decimal (unat port) @ newline)\<rparr>
   | PassFdStream label \<Rightarrow> s\<lparr>control_out := control_out s @
       as_bytes (''OK '' @ label_as_str label @ '' '' @ decimal (unat port) @ newline)\<rparr>)"

section \<open>The multiplexer\<close>

datatype UnixError = ConvertFromUtf8 | EpollAdd | EpollFdCreate | InvalidPortRequest | ParseInteger |
  ReadStreamPort UnixError | UnixAccept | UnixBind | UnixConnect | UnixRead | TooManyConnections | ParseDbgConf

datatype EpollListener = ConnectionL ConnMapKey Events | HostSock | LocalStream

record PassFdRequest =
  req_label :: PassFdLabel
  req_port :: u32
  req_fd :: int

datatype LocalStreamCommand = Connect u32 | PassFds "PassFdRequest list"

datatype ctl_result = CtlOk | CtlNotFound | CtlRecoverable | CtlFatal

record MuxEnv =
  conn_env :: ConnEnv
  ctl_add :: "int \<Rightarrow> bool"
  ctl_mod :: "int \<Rightarrow> ctl_result"
  ack_ok :: bool
  unix_connect :: "string \<Rightarrow> int option"
  accepted :: "int option"
  local_cmd :: "UnixError + LocalStreamCommand"
  passfd_valid :: "int \<Rightarrow> bool"
  passfd_nonblocking :: "int \<Rightarrow> bool"
  clone_ok :: "int \<Rightarrow> bool"

record VsockMuxer =
  mux_cid :: u64
  conn_map :: conns
  listener_map :: "(int, EpollListener) hmap"
  rxq :: MuxerRxQ
  killq :: MuxerKillQ
  host_sock :: int
  host_sock_path :: string
  local_port_set :: "u32 list"
  local_port_last :: u32
  cube_dbg_conf :: "(string \<times> u32) list"

definition add_listener :: "MuxEnv \<Rightarrow> int \<Rightarrow> EpollListener \<Rightarrow> VsockMuxer \<Rightarrow> (UnixError + unit) \<times> VsockMuxer" where
  "add_listener E fd l m =
    (if ctl_add E fd then (Inr (), m\<lparr>listener_map := AList.update fd l (listener_map m)\<rparr>) else (Inl EpollAdd, m))"

definition remove_listener :: "int \<Rightarrow> VsockMuxer \<Rightarrow> VsockMuxer" where
  "remove_listener fd m = m\<lparr>listener_map := AList.delete fd (listener_map m)\<rparr>"

definition push_rx :: "MuxerRx \<Rightarrow> VsockMuxer \<Rightarrow> VsockMuxer" where
  "push_rx rx m = m\<lparr>rxq := snd (rxq_push rx (rxq m))\<rparr>"

definition pop_rx :: "VsockMuxer \<Rightarrow> VsockMuxer" where
  "pop_rx m = m\<lparr>rxq := snd (rxq_pop (rxq m))\<rparr>"

definition enq_rst :: "u32 \<Rightarrow> u32 \<Rightarrow> VsockMuxer \<Rightarrow> VsockMuxer" where
  "enq_rst lp pp m = push_rx (RstPkt lp pp) m"

definition free_local_port :: "u32 \<Rightarrow> VsockMuxer \<Rightarrow> VsockMuxer" where
  "free_local_port port m = m\<lparr>local_port_set := removeAll port (local_port_set m)\<rparr>"

definition remove_connection :: "ConnMapKey \<Rightarrow> VsockMuxer \<Rightarrow> VsockMuxer" where
  "remove_connection key m =
    (let m1 = (case map_of (conn_map m) key of None \<Rightarrow> m
       | Some conn \<Rightarrow> remove_listener (raw_fd (stream conn)) (m\<lparr>conn_map := AList.delete key (conn_map m)\<rparr>))
     in free_local_port (key_local key) m1)"

definition kill_connection :: "ConnMapKey \<Rightarrow> VsockMuxer \<Rightarrow> VsockMuxer" where
  "kill_connection key m = (case map_of (conn_map m) key of
     None \<Rightarrow> push_rx (ConnRx key) m
   | Some conn \<Rightarrow>
       (let m1 = m\<lparr>conn_map := AList.update key (kill conn) (conn_map m)\<rparr>
        in if has_pending_rx conn then m1 else push_rx (ConnRx key) m1))"

text \<open>The listener of a connection after the connection changed.\<close>

definition update_listener :: "MuxEnv \<Rightarrow> ConnMapKey \<Rightarrow> VsockConnection \<Rightarrow> VsockMuxer \<Rightarrow> VsockMuxer" where
  "update_listener E key conn m =
    (let fd = raw_fd (stream conn); new_evset = conn_polled_evset conn in
     if \<not> epollin new_evset \<and> \<not> epollout new_evset then remove_listener fd m
     else case map_of (listener_map m) fd of
       Some (ConnectionL k evset) \<Rightarrow>
         if evset = new_evset then m
         else (let m1 = m\<lparr>listener_map := AList.update fd (ConnectionL k new_evset) (listener_map m)\<rparr> in
           case ctl_mod E fd of
             CtlOk \<Rightarrow> m1
           | CtlNotFound \<Rightarrow> m1\<lparr>conn_map := AList.delete key (conn_map m1), listener_map := AList.delete fd (listener_map m1)\<rparr>
           | CtlRecoverable \<Rightarrow> m1
           | CtlFatal \<Rightarrow> kill_connection key m1)
     | _ \<Rightarrow> (case add_listener E fd (ConnectionL key new_evset) m of
           (Inr _, m1) \<Rightarrow> m1
         | (Inl _, m1) \<Rightarrow> kill_connection key m1))"

text \<open>A mutation yields a value for the caller; \<open>None\<close> when there is no such connection.\<close>

definition apply_conn_mutation ::
    "MuxEnv \<Rightarrow> ConnMapKey \<Rightarrow> (VsockConnection \<Rightarrow> 'r \<times> VsockConnection) \<Rightarrow> VsockMuxer \<Rightarrow> 'r option \<times> VsockMuxer" where
  "apply_conn_mutation E key mut_fn m = (case map_of (conn_map m) key of None \<Rightarrow> (None, m)
   | Some conn \<Rightarrow>
       (let t = now (conn_env E);
            (r, c1) = mut_fn conn;
            c2 = (if conn_state conn = LocalInit \<and> conn_state c1 = Established
                  then (if ack_ok E then c1\<lparr>stream := send_connect_ack (key_local key) (stream c1)\<rparr> else kill c1)
                  else c1);
            m1 = m\<lparr>conn_map := AList.update key c2 (conn_map m)\<rparr>;
            m2 = (if \<not> has_pending_rx conn \<and> has_pending_rx c2 then push_rx (ConnRx key) m1 else m1);
            m3 = (if \<not> will_expire t conn \<and> will_expire t c2
                  then m2\<lparr>killq := killq_push key (the (expiry c2)) (killq m2)\<rparr> else m2)
        in (Some r, update_listener E key c2 m3)))"

section \<open>Ports and new connections\<close>

text \<open>The loop does not return when every port is taken.\<close>

definition next_port :: "u32 \<Rightarrow> u32" where
  "next_port p = ((p + 1) AND NOT (push_bit 31 1)) OR push_bit 30 1"

partial_function (option) port_loop :: "u32 list \<Rightarrow> u32 \<Rightarrow> u32 option" where
  "port_loop used p = (let q = next_port p in if q \<notin> set used then Some q else port_loop used q)"

declare port_loop.simps [code]

definition allocate_local_port :: "VsockMuxer \<Rightarrow> (u32 \<times> VsockMuxer) option" where
  "allocate_local_port m = (case port_loop (local_port_set m) (local_port_last m) of None \<Rightarrow> None
   | Some p \<Rightarrow> Some (p, m\<lparr>local_port_last := p, local_port_set := p # local_port_set m\<rparr>))"

lemma kill_connection_killq [simp]: "killq (kill_connection key m) = killq m"
  by (auto simp: kill_connection_def push_rx_def Let_def split: option.splits)

text \<open>Pop the expired items of the kill queue and kill the connections that have indeed expired.\<close>

function sweep_items :: "int \<Rightarrow> VsockMuxer \<Rightarrow> VsockMuxer" where
  "sweep_items t m = (case killq_pop t (killq m) of
     (None, _) \<Rightarrow> m
   | (Some key, Q) \<Rightarrow>
       (let m1 = m\<lparr>killq := Q\<rparr>;
            m2 = (case map_of (conn_map m1) key of Some conn \<Rightarrow> if has_expired t conn then kill_connection key m1 else m1
                  | None \<Rightarrow> m1)
        in sweep_items t m2))"
  by pat_completeness auto

termination
  by (relation "measure (\<lambda>(t, m). length (kq_items (killq m)))")
    (auto simp: killq_pop_def split: list.splits if_splits option.splits)

declare sweep_items.simps [simp del]

lemma sweep_items_synced [simp]: "kq_synced (killq (sweep_items t m)) = kq_synced (killq m)"
proof (induction t m rule: sweep_items.induct)
  case (1 t m)
  then show ?case
    by (subst sweep_items.simps) (auto simp: killq_pop_def Let_def split: list.splits option.splits if_splits)
qed

lemma sweep_items_none: "\<forall>i \<in> set (kq_items (killq m)). t < kill_time i \<Longrightarrow> sweep_items t m = m"
  by (subst sweep_items.simps) (auto simp: killq_pop_def split: list.splits)

text \<open>A queue that was rebuilt is complete, or its first item has not expired, so that this loop ends.\<close>

function sweep_killq :: "int \<Rightarrow> VsockMuxer \<Rightarrow> VsockMuxer" where
  "sweep_killq t m =
    (let m1 = sweep_items t m in
     if killq_is_empty (killq m1) \<and> \<not> kq_synced (killq m1)
     then sweep_killq t (m1\<lparr>killq := killq_from_conn_map t (conn_map m1)\<rparr>)
     else m1)"
  by pat_completeness auto

termination
proof (relation "measure (\<lambda>(t, m). if kq_synced (killq m) \<or> sweep_items t m = m \<and> \<not> killq_is_empty (killq m) then 0 else 1)")
  fix t m m1 assume m1: "m1 = sweep_items t m" and e: "killq_is_empty (killq m1) \<and> \<not> kq_synced (killq m1)"
  define m2 where "m2 = m1\<lparr>killq := killq_from_conn_map t (conn_map m1)\<rparr>"
  have "sweep_items t m2 = m2" by (rule sweep_items_none) (use killq_rebuilt(1) in \<open>simp add: m2_def\<close>)
  moreover have "kq_synced (killq m2) \<or> \<not> killq_is_empty (killq m2)"
    using killq_rebuilt(2) [of t "conn_map m1"] by (auto simp: m2_def killq_is_empty_def)
  moreover have "\<not> kq_synced (killq m)" "sweep_items t m = m \<longrightarrow> killq_is_empty (killq m)" using e m1 by auto
  ultimately show "((t, m1\<lparr>killq := killq_from_conn_map t (conn_map m1)\<rparr>), t, m) \<in>
      measure (\<lambda>(t, m). if kq_synced (killq m) \<or> sweep_items t m = m \<and> \<not> killq_is_empty (killq m) then 0 else 1)"
    unfolding m2_def [symmetric] by auto
qed simp

declare sweep_killq.simps [simp del]

definition add_connection :: "MuxEnv \<Rightarrow> ConnMapKey \<Rightarrow> VsockConnection \<Rightarrow> VsockMuxer \<Rightarrow> (UnixError + unit) \<times> VsockMuxer" where
  "add_connection E key conn m =
    (let m1 = sweep_killq (now (conn_env E)) m in
     if length (conn_map m1) \<ge> MAX_CONNECTIONS then (Inl TooManyConnections, m1)
     else case add_listener E (raw_fd (stream conn)) (ConnectionL key (conn_polled_evset conn)) m1 of
       (Inl e, m2) \<Rightarrow> (Inl e, m2)
     | (Inr _, m2) \<Rightarrow>
         (let m3 = (if has_pending_rx conn then push_rx (ConnRx key) m2 else m2)
          in (Inr (), m3\<lparr>conn_map := AList.update key conn (conn_map m3)\<rparr>)))"

definition new_stream :: "int \<Rightarrow> StreamKind \<Rightarrow> VsockBackendStream" where
  "new_stream fd k = \<lparr>raw_fd = fd, stream_kind = k, stream_out = [], control_out = []\<rparr>"

definition is_cube_vsock_dbg_port :: "VsockMuxer \<Rightarrow> u32 \<Rightarrow> string option" where
  "is_cube_vsock_dbg_port m port = map_option fst (List.find (\<lambda>conf. port = snd conf) (cube_dbg_conf m))"

definition handle_peer_request_pkt :: "MuxEnv \<Rightarrow> VsockPacket \<Rightarrow> VsockMuxer \<Rightarrow> VsockMuxer" where
  "handle_peer_request_pkt E p m =
    (let port_path = (case is_cube_vsock_dbg_port m (dst_port p) of Some path \<Rightarrow> path
           | None \<Rightarrow> host_sock_path m @ ''_'' @ decimal (unat (dst_port p)));
         (r, m1) = (case unix_connect E port_path of None \<Rightarrow> (Inl UnixConnect, m)
           | Some fd \<Rightarrow> add_connection E \<lparr>key_local = dst_port p, key_peer = src_port p\<rparr>
               (new_peer_init (new_stream fd UnixStream) VSOCK_HOST_CID (mux_cid m) (dst_port p) (src_port p) (buf_alloc p)) m)
     in if is_ok r then m1 else enq_rst (dst_port p) (src_port p) m1)"

definition add_local :: "MuxEnv \<Rightarrow> VsockBackendStream \<Rightarrow> u32 \<Rightarrow> u32 \<Rightarrow> VsockMuxer \<Rightarrow> VsockMuxer" where
  "add_local E s lp pp m =
    (case add_connection E \<lparr>key_local = lp, key_peer = pp\<rparr> (new_local_init s VSOCK_HOST_CID (mux_cid m) lp pp) m of
       (Inr _, m1) \<Rightarrow> m1 | (Inl _, m1) \<Rightarrow> free_local_port lp m1)"

definition add_local_connect_connection :: "MuxEnv \<Rightarrow> int \<Rightarrow> u32 \<Rightarrow> VsockMuxer \<Rightarrow> VsockMuxer option" where
  "add_local_connect_connection E fd pp m = (case allocate_local_port m of None \<Rightarrow> None
   | Some (lp, m1) \<Rightarrow> Some (add_local E (new_stream fd UnixStream) lp pp m1))"

fun passfd_ports :: "PassFdRequest list \<Rightarrow> VsockMuxer \<Rightarrow> ((PassFdRequest \<times> u32) list \<times> VsockMuxer) option" where
  "passfd_ports [] m = Some ([], m)"
| "passfd_ports (r # rs) m = (case allocate_local_port m of None \<Rightarrow> None
   | Some (lp, m1) \<Rightarrow> (case passfd_ports rs m1 of None \<Rightarrow> None | Some (ls, m2) \<Rightarrow> Some ((r, lp) # ls, m2)))"

text \<open>No connection of a batch is prepared when one of its descriptors is unusable.\<close>

definition prepare_local_passfds :: "MuxEnv \<Rightarrow> PassFdRequest list \<Rightarrow> VsockMuxer \<Rightarrow> ((PassFdRequest \<times> u32) list option \<times> VsockMuxer) option" where
  "prepare_local_passfds E rs m =
    (if list_ex (\<lambda>r. \<not> passfd_valid E (req_fd r)) rs then Some (None, m)
     else if list_ex (\<lambda>r. \<not> passfd_nonblocking E (req_fd r)) rs then Some (None, m)
     else case passfd_ports rs m of None \<Rightarrow> None | Some (ls, m1) \<Rightarrow> Some (Some ls, m1))"

fun add_local_passfd_connections :: "MuxEnv \<Rightarrow> (PassFdRequest \<times> u32) list \<Rightarrow> VsockMuxer \<Rightarrow> VsockMuxer" where
  "add_local_passfd_connections E [] m = m"
| "add_local_passfd_connections E ((r, lp) # ls) m =
    add_local_passfd_connections E ls
      (if \<not> clone_ok E (req_fd r) then free_local_port lp m
       else add_local E (new_stream (req_fd r) (PassFdStream (req_label r))) lp (req_port r) m)"

section \<open>Packets and events\<close>

definition mux_send_pkt :: "MuxEnv \<Rightarrow> VsockMuxer \<Rightarrow> VsockPacket \<Rightarrow> (VsockError + unit) \<times> VsockMuxer" where
  "mux_send_pkt E m p =
    (let conn_key = \<lparr>key_local = dst_port p, key_peer = src_port p\<rparr> in
     if pkt_type p \<noteq> VSOCK_TYPE_STREAM then (Inr (), enq_rst (dst_port p) (src_port p) m)
     else if dst_cid p \<noteq> VSOCK_HOST_CID then (Inr (), m)
     else if map_of (conn_map m) conn_key = None then
       (Inr (), if pkt_op p = VSOCK_OP_REQUEST then handle_peer_request_pkt E p m
                else enq_rst (dst_port p) (src_port p) m)
     else if pkt_op p = VSOCK_OP_RST then (Inr (), remove_connection conn_key m)
     else case apply_conn_mutation E conn_key (\<lambda>conn. send_pkt (conn_env E) conn p) m of
       (Some r, m1) \<Rightarrow> (r, m1) | (None, m1) \<Rightarrow> (Inr (), m1))"

definition mux_rst_pkt :: "VsockMuxer \<Rightarrow> u32 \<Rightarrow> u32 \<Rightarrow> VsockPacket \<Rightarrow> VsockPacket" where
  "mux_rst_pkt m lp pp p =
    set_fwd_cnt 0 (set_buf_alloc 0 (set_flags 0 (set_type VSOCK_TYPE_STREAM (set_len 0
      (set_dst_port pp (set_src_port lp (set_dst_cid (mux_cid m) (set_src_cid VSOCK_HOST_CID
        (set_op VSOCK_OP_RST p)))))))))"

text \<open>A packet from a connection of the receive queue; the front is popped when nothing else is pending.\<close>

definition mux_recv_conn :: "MuxEnv \<Rightarrow> ConnMapKey \<Rightarrow> VsockMuxer \<Rightarrow> VsockPacket \<Rightarrow> (VsockError + unit) \<times> VsockMuxer \<times> VsockPacket" where
  "mux_recv_conn E key m p =
    (case apply_conn_mutation E key (\<lambda>conn. case recv_pkt (conn_env E) conn p of
        (r, conn', p') \<Rightarrow> ((r, p', \<not> has_pending_rx conn'), conn')) m of
       (None, m1) \<Rightarrow> (Inl NoData, pop_rx m1, p)
     | (Some (r, p', do_pop), m1) \<Rightarrow> (r, if do_pop then pop_rx m1 else m1, p'))"

text \<open>The loop, with the environment of every round; \<open>None\<close> when it does not end.\<close>

partial_function (option) mux_recv_loop ::
    "(nat \<Rightarrow> MuxEnv) \<Rightarrow> VsockMuxer \<Rightarrow> VsockPacket \<Rightarrow> ((VsockError + unit) \<times> VsockMuxer \<times> VsockPacket) option" where
  "mux_recv_loop Es m p = (case rxq_peek (rxq m) of
     None \<Rightarrow> Some (Inl NoData, m, p)
   | Some (RstPkt lp pp) \<Rightarrow> Some (Inr (), pop_rx m, mux_rst_pkt m lp pp p)
   | Some (ConnRx key) \<Rightarrow> (case mux_recv_conn (Es 0) key m p of (r, m1, p1) \<Rightarrow>
       if is_ok r then
         Some (Inr (), if pkt_op p1 = VSOCK_OP_RST
           then remove_connection \<lparr>key_local = src_port p1, key_peer = dst_port p1\<rparr> m1 else m1, p1)
       else mux_recv_loop (\<lambda>i. Es (Suc i)) m1 p1))"

declare mux_recv_loop.simps [code]

definition mux_recv_pkt :: "(nat \<Rightarrow> MuxEnv) \<Rightarrow> VsockMuxer \<Rightarrow> VsockPacket \<Rightarrow> ((VsockError + unit) \<times> VsockMuxer \<times> VsockPacket) option" where
  "mux_recv_pkt Es m p =
    (let m1 = (if rxq_is_empty (rxq m) \<and> \<not> rx_synced (rxq m) then m\<lparr>rxq := rxq_from_conn_map (conn_map m)\<rparr> else m)
     in mux_recv_loop Es m1 p)"

definition mux_has_pending_rx :: "VsockMuxer \<Rightarrow> bool" where
  "mux_has_pending_rx m \<longleftrightarrow> \<not> rxq_is_empty (rxq m) \<or> \<not> rx_synced (rxq m)"

definition dispatch_event :: "MuxEnv \<Rightarrow> VsockMuxer \<Rightarrow> int \<Rightarrow> Events \<Rightarrow> VsockMuxer option" where
  "dispatch_event E m fd ev = (case map_of (listener_map m) fd of
     Some (ConnectionL key _) \<Rightarrow> Some (snd (apply_conn_mutation E key (\<lambda>conn. ((), conn_notify (conn_env E) conn ev)) m))
   | Some HostSock \<Rightarrow>
       Some (if length (conn_map m) = MAX_CONNECTIONS then m
         else case accepted E of None \<Rightarrow> m | Some fd' \<Rightarrow> snd (add_listener E fd' LocalStream m))
   | Some LocalStream \<Rightarrow>
       (let m1 = remove_listener fd m in
        case local_cmd E of
          Inr (Connect pp) \<Rightarrow> add_local_connect_connection E fd pp m1
        | Inr (PassFds rs) \<Rightarrow> (case prepare_local_passfds E rs m1 of None \<Rightarrow> None
            | Some (None, m2) \<Rightarrow> Some m2
            | Some (Some ls, m2) \<Rightarrow> Some (add_local_passfd_connections E ls m2))
        | Inl _ \<Rightarrow> Some m1)
   | None \<Rightarrow> Some m)"

definition queue_rst_for_connections :: "(u32 \<times> u32) list \<Rightarrow> VsockMuxer \<Rightarrow> VsockMuxer" where
  "queue_rst_for_connections conns m = fold (\<lambda>(lp, pp). push_rx (RstPkt lp pp)) conns m"

definition mux_connections :: "VsockMuxer \<Rightarrow> (u32 \<times> u32) list" where
  "mux_connections m = map (\<lambda>(k, _). (key_local k, key_peer k)) (conn_map m)"

text \<open>A new multiplexer, with the ports of a restored state; the creation of its sockets succeeded.\<close>

definition mux_new :: "MuxEnv \<Rightarrow> u64 \<Rightarrow> string \<Rightarrow> int \<Rightarrow> bool \<Rightarrow> u32 list option \<Rightarrow> (string \<times> u32) list \<Rightarrow> UnixError + VsockMuxer" where
  "mux_new E cid path sock epoll_nested ports conf =
    (let m = \<lparr>mux_cid = cid, conn_map = [], listener_map = [], rxq = rxq_new, killq = killq_new, host_sock = sock,
          host_sock_path = path, local_port_set = (case ports of Some ps \<Rightarrow> ps | None \<Rightarrow> []),
          local_port_last = push_bit 30 1 - 1, cube_dbg_conf = conf\<rparr>
     in if epoll_nested then (case add_listener E sock HostSock m of (Inr _, m1) \<Rightarrow> Inr m1 | (Inl e, _) \<Rightarrow> Inl e)
        else Inr m)"

definition add_host_sock_to_listener :: "MuxEnv \<Rightarrow> VsockMuxer \<Rightarrow> VsockMuxer" where
  "add_host_sock_to_listener E m = snd (add_listener E (host_sock m) HostSock m)"

text \<open>The state of a snapshot is the set of ports.\<close>

definition mux_state :: "VsockMuxer \<Rightarrow> u32 list" where
  "mux_state m = local_port_set m"

end
