(* ===== verification/Vsock_Muxer_Inv.thy ===== *)
theory Vsock_Muxer_Inv
  imports Vsock_Muxer Vsock_Stream
begin

text \<open>
  The multiplexer forgets no connection that has something to send, never waits for ever for one, and
  keeps its tables in order.
\<close>

section \<open>Connections keep their addresses\<close>

lemma send_control_ports:
  "local_port (send_control E c p) = local_port c" "peer_port (send_control E c p) = peer_port c"
  by (cases "conn_state c"; auto simp: send_control_def peer_shutdown_def peer_shutdown_more_def Let_def)+

lemma send_bytes_ports:
  "local_port (snd (send_bytes ws c bs)) = local_port c \<and> peer_port (snd (send_bytes ws c bs)) = peer_port c"
  by (auto simp: send_bytes_def push_tx_def append_out_def Let_def split: prod.splits sum.splits io_kind.splits)

lemma send_pkt_ports:
  "local_port (snd (send_pkt E c p)) = local_port c \<and> peer_port (snd (send_pkt E c p)) = peer_port c"
  using send_bytes_ports [of "writes E" "c\<lparr>peer_buf_alloc := buf_alloc p, peer_fwd_cnt := pkt_fwd_cnt p\<rparr>"]
  by (auto simp: send_pkt_def send_data_def Let_def send_control_ports split: option.splits prod.splits sum.splits)
    (metis VsockConnection.select_convs snd_conv)+

lemma flush_tx_ports: "local_port (flush_tx ws c) = local_port c \<and> peer_port (flush_tx ws c) = peer_port c"
  by (auto simp: flush_tx_def append_out_def Let_def split: prod.splits sum.splits CsmError.splits io_kind.splits)

lemma conn_notify_ports:
  "local_port (conn_notify E c ev) = local_port c \<and> peer_port (conn_notify E c ev) = peer_port c"
  using flush_tx_ports by (simp add: conn_notify_def Let_def)

definition conn_ok :: "ConnMapKey \<Rightarrow> VsockConnection \<Rightarrow> bool" where
  "conn_ok key c \<longleftrightarrow> local_port c = key_local key \<and> peer_port c = key_peer key \<and> mask_ok c \<and> response_ok c \<and>
    txbuf_ok (tx_buf c)"

lemma conn_ok_send: "conn_ok key c \<Longrightarrow> conn_ok key (snd (send_pkt E c p))"
  using send_pkt_ports [of E c p] send_pkt_effect [of c E p]
  by (cases "send_pkt E c p") (auto simp: conn_ok_def forwards_def)

lemma conn_ok_notify: "conn_ok key c \<Longrightarrow> conn_ok key (conn_notify E c ev)"
  using conn_notify_ports [of E c ev] conn_notify_effect [of c E ev "conn_notify E c ev"]
  by (auto simp: conn_ok_def forwards_def response_ok_def)

lemma conn_ok_recv: "hdr_ok p \<Longrightarrow> conn_ok key c \<Longrightarrow> recv_pkt E c p = (r, c', p') \<Longrightarrow> conn_ok key c'"
  using recv_pkt_effect(1) [of p E c r c' p']
  by (auto simp: conn_ok_def recv_effect_def response_ok_def can_send_to_peer_def)

lemma conn_ok_kill: "conn_ok key c \<Longrightarrow> conn_ok key (kill c)"
  by (simp add: conn_ok_def response_ok_def)

lemma conn_ok_ack: "conn_ok key c \<Longrightarrow> conn_ok key (c\<lparr>stream := s\<rparr>)"
  by (simp add: conn_ok_def response_ok_def mask_ok_def pending_def)

lemma conn_ok_new:
  "conn_ok \<lparr>key_local = lp, key_peer = pp\<rparr> (new_peer_init s lc pc lp pp al)"
  "conn_ok \<lparr>key_local = lp, key_peer = pp\<rparr> (new_local_init s lc pc lp pp)"
  by (simp_all add: conn_ok_def response_ok_def)
    (simp_all add: new_peer_init_def new_local_init_def txbuf_ok_def txbuf_new_def txbuf_len_def)

section \<open>The tables\<close>

definition conn_at :: "VsockMuxer \<Rightarrow> ConnMapKey \<rightharpoonup> VsockConnection" where
  "conn_at m = map_of (conn_map m)"

definition mux_ok :: "VsockMuxer \<Rightarrow> bool" where
  "mux_ok m \<longleftrightarrow> distinct (map fst (conn_map m)) \<and> length (conn_map m) \<le> MAX_CONNECTIONS \<and>
    (\<forall>key c. conn_at m key = Some c \<longrightarrow> conn_ok key c) \<and> rxq_covers (conn_at m) (rxq m)"

lemma length_alist_update: "map_of al k \<noteq> None \<Longrightarrow> length (AList.update k v al) = length al"
  by (induction al) (auto split: if_splits)

lemma length_alist_update_le: "length (AList.update k v al) \<le> Suc (length al)"
  by (induction al) auto

lemma length_alist_delete_le: "length (AList.delete k al) \<le> length al"
  by (simp add: AList.delete_eq)

lemma mux_ok_frame:
  "mux_ok m \<Longrightarrow> conn_map m' = conn_map m \<Longrightarrow> rxq m' = rxq m \<Longrightarrow> mux_ok m'"
  by (simp add: mux_ok_def conn_at_def)

lemma push_rx_sel [simp]: "conn_map (push_rx rx m) = conn_map m" "conn_at (push_rx rx m) = conn_at m"
  "rxq (push_rx rx m) = snd (rxq_push rx (rxq m))"
  by (simp_all add: push_rx_def conn_at_def)

lemma mux_ok_push: "mux_ok m \<Longrightarrow> mux_ok (push_rx rx m)"
  by (simp add: mux_ok_def rxq_push_covers)

text \<open>A connection is removed or changed.\<close>

definition del_conn :: "ConnMapKey \<Rightarrow> VsockMuxer \<Rightarrow> VsockMuxer" where
  "del_conn key m = m\<lparr>conn_map := AList.delete key (conn_map m)\<rparr>"

definition set_conn :: "ConnMapKey \<Rightarrow> VsockConnection \<Rightarrow> VsockMuxer \<Rightarrow> VsockMuxer" where
  "set_conn key c m = m\<lparr>conn_map := AList.update key c (conn_map m)\<rparr>"

lemma conn_at_upd [simp]:
  "conn_at (set_conn key c m) = (conn_at m)(key \<mapsto> c)" "conn_at (del_conn key m) = (conn_at m)(key := None)"
  by (simp_all add: conn_at_def set_conn_def del_conn_def update_conv' delete_conv')

lemma conn_upd_sel [simp]:
  "rxq (set_conn key c m) = rxq m" "rxq (del_conn key m) = rxq m"
  "distinct (map fst (conn_map m)) \<Longrightarrow> distinct (map fst (conn_map (set_conn key c m)))"
  "distinct (map fst (conn_map m)) \<Longrightarrow> distinct (map fst (conn_map (del_conn key m)))"
  by (simp_all add: set_conn_def del_conn_def distinct_update distinct_delete)

lemma del_conn_length: "length (conn_map (del_conn key m)) \<le> length (conn_map m)"
  using length_alist_delete_le by (simp add: del_conn_def)

lemma mux_ok_delete: "mux_ok m \<Longrightarrow> mux_ok (del_conn key m)"
  using del_conn_length [of key m] by (auto simp: mux_ok_def rxq_covers_def)

text \<open>A connection that has something to send for the first time must be queued.\<close>

lemma mux_ok_set_push:
  assumes "mux_ok m" "conn_ok key c" "length (conn_map (set_conn key c m)) \<le> MAX_CONNECTIONS"
  shows "mux_ok (push_rx (ConnRx key) (set_conn key c m))"
proof -
  let ?Q = "snd (rxq_push (ConnRx key) (rxq m))"
  have i: "length (rx_q (rxq m)) \<le> MUXER_RXQ_SIZE"
    "\<And>k d. rx_synced (rxq m) \<Longrightarrow> conn_at m k = Some d \<Longrightarrow> has_pending_rx d \<Longrightarrow> ConnRx k \<in> set (rx_q (rxq m))"
    using assms(1) by (auto simp: mux_ok_def rxq_covers_def)
  have "ConnRx k \<in> set (rx_q ?Q)" if s: "rx_synced ?Q" and k: "((conn_at m)(key \<mapsto> c)) k = Some d" "has_pending_rx d" for k d
  proof (cases "k = key")
    case False
    then show ?thesis using rxq_push_spec [OF s] i(2) k by auto
  qed (use rxq_push_spec [OF s] in simp)
  then have "rxq_covers ((conn_at m)(key \<mapsto> c)) ?Q" using rxq_push_length [OF i(1)] by (simp add: rxq_covers_def)
  then show ?thesis using assms by (simp add: mux_ok_def)
qed

lemma mux_ok_set:
  assumes "mux_ok m" "conn_ok key c" "length (conn_map (set_conn key c m)) \<le> MAX_CONNECTIONS"
    "has_pending_rx c \<Longrightarrow> \<exists>d. conn_at m key = Some d \<and> has_pending_rx d"
  shows "mux_ok (set_conn key c m)"
  using assms by (auto simp: mux_ok_def rxq_covers_def)

lemma set_conn_length: "conn_at m key = Some d \<Longrightarrow> length (conn_map (set_conn key c m)) = length (conn_map m)"
  by (simp add: set_conn_def conn_at_def length_alist_update)

lemma mux_ok_change:
  assumes "mux_ok m" "conn_at m key = Some d" "conn_ok key c"
  shows "mux_ok (if \<not> has_pending_rx d \<and> has_pending_rx c then push_rx (ConnRx key) (set_conn key c m) else set_conn key c m)"
proof -
  have "length (conn_map (set_conn key c m)) \<le> MAX_CONNECTIONS"
    using assms(1) set_conn_length [OF assms(2)] by (simp add: mux_ok_def)
  then show ?thesis using mux_ok_set_push [OF assms(1,3)] mux_ok_set [OF assms(1,3)] assms(2) by auto
qed

lemma has_pending_kill [simp]: "mask_ok c \<Longrightarrow> has_pending_rx (kill c)"
  by (simp add: has_pending_rx_iff)

lemma kill_connection_eq:
  "kill_connection key m = (case conn_at m key of None \<Rightarrow> push_rx (ConnRx key) m
    | Some d \<Rightarrow> if has_pending_rx d then set_conn key (kill d) m else push_rx (ConnRx key) (set_conn key (kill d) m))"
  by (simp add: kill_connection_def conn_at_def set_conn_def Let_def split: option.splits)

lemma mux_ok_kill: "mux_ok m \<Longrightarrow> mux_ok (kill_connection key m)"
proof (cases "conn_at m key")
  case None
  assume "mux_ok m"
  then show ?thesis using None by (simp add: kill_connection_eq mux_ok_push)
next
  case (Some d)
  assume m: "mux_ok m"
  then have ok: "conn_ok key d" using Some by (simp add: mux_ok_def)
  then have "has_pending_rx (kill d)" by (simp add: conn_ok_def)
  with mux_ok_change [OF m Some conn_ok_kill [OF ok]] Some show ?thesis by (simp add: kill_connection_eq split: if_splits)
qed

lemma listener_sel [simp]:
  "conn_map (remove_listener fd m) = conn_map m" "rxq (remove_listener fd m) = rxq m"
  "conn_map (snd (add_listener E fd l m)) = conn_map m" "rxq (snd (add_listener E fd l m)) = rxq m"
  "conn_map (free_local_port lp m) = conn_map m" "rxq (free_local_port lp m) = rxq m"
  by (simp_all add: remove_listener_def add_listener_def free_local_port_def)

lemma kill_connection_listeners [simp]:
  "kill_connection key (m\<lparr>listener_map := x\<rparr>) = (kill_connection key m)\<lparr>listener_map := x\<rparr>"
  by (simp add: kill_connection_def push_rx_def Let_def split: option.splits)

text \<open>Changing the listener of a connection may kill or remove it.\<close>

lemma update_listener_effect:
  "\<exists>q \<in> {m, kill_connection key m, del_conn key m}. conn_map (update_listener E key c m) = conn_map q \<and>
     rxq (update_listener E key c m) = rxq q"
proof (cases "map_of (listener_map m) (raw_fd (stream c))")
  case None
  then show ?thesis by (simp add: update_listener_def Let_def add_listener_def remove_listener_def)
next
  case (Some l)
  then show ?thesis
    by (cases l; cases "ctl_mod E (raw_fd (stream c))")
      (auto simp: update_listener_def Let_def add_listener_def remove_listener_def del_conn_def)
qed

lemma mux_ok_update_listener: "mux_ok m \<Longrightarrow> mux_ok (update_listener E key c m)"
  using update_listener_effect [of m key E c] mux_ok_frame mux_ok_kill mux_ok_delete by blast

lemma mux_ok_mutation:
  assumes m: "mux_ok m" and f: "\<And>c. conn_ok key c \<Longrightarrow> conn_ok key (snd (f c))"
  shows "mux_ok (snd (apply_conn_mutation E key f m))"
proof (cases "conn_at m key")
  case None
  then show ?thesis using m by (simp add: apply_conn_mutation_def conn_at_def)
next
  case (Some c)
  obtain r c1 where c1: "f c = (r, c1)" by fastforce
  have ok: "conn_ok key c" using m Some by (simp add: mux_ok_def)
  define c2 where "c2 = (if conn_state c = LocalInit \<and> conn_state c1 = Established
      then (if ack_ok E then c1\<lparr>stream := send_connect_ack (key_local key) (stream c1)\<rparr> else kill c1) else c1)"
  define m2 where "m2 = (if \<not> has_pending_rx c \<and> has_pending_rx c2 then push_rx (ConnRx key) (set_conn key c2 m) else set_conn key c2 m)"
  define m3 where "m3 = (if \<not> will_expire (now (conn_env E)) c \<and> will_expire (now (conn_env E)) c2
      then m2\<lparr>killq := killq_push key (the (expiry c2)) (killq m2)\<rparr> else m2)"
  have "conn_ok key c2" using f [OF ok] c1 by (simp add: c2_def conn_ok_ack conn_ok_kill)
  from mux_ok_change [OF m Some this] have "mux_ok m2" by (simp add: m2_def)
  then have "mux_ok m3" by (simp add: m3_def mux_ok_frame [of m2])
  then have "mux_ok (update_listener E key c2 m3)" by (rule mux_ok_update_listener)
  moreover have "snd (apply_conn_mutation E key f m) = update_listener E key c2 m3"
    using Some c1 by (simp add: apply_conn_mutation_def conn_at_def Let_def c2_def m2_def m3_def set_conn_def)
  ultimately show ?thesis by simp
qed

end
