(* ===== verification/Vsock_Ports.thy ===== *)
theory Vsock_Ports
  imports Vsock_Muxer
begin

text \<open>The ports of the host side of connections that the host opens: those whose two upper bits are 01.\<close>

definition port_of :: "u32 \<Rightarrow> u32" where
  "port_of x = push_bit 30 1 OR take_bit 30 x"

lemma bit_push_one: "bit (push_bit k 1 :: u32) n \<longleftrightarrow> n = k \<and> n < 32"
  by (auto simp: bit_simps)

lemma bit_port_of: "bit (port_of x) n \<longleftrightarrow> n = 30 \<or> n < 30 \<and> bit x n"
  using bit_push_one [of 30 n] by (simp only: port_of_def bit_or_iff bit_take_bit_iff) auto

lemma next_port_eq: "next_port p = port_of (p + 1)"
proof (rule bit_word_eqI)
  fix n assume n: "n < LENGTH(32)"
  then have "bit (next_port p) n \<longleftrightarrow> bit (p + 1) n \<and> n \<noteq> 31 \<or> n = 30"
    using bit_push_one [of 30 n] bit_push_one [of 31 n]
    by (simp only: next_port_def bit_or_iff bit_and_iff bit_not_iff_eq) auto
  then show "bit (next_port p) n = bit (port_of (p + 1)) n" using n by (auto simp: bit_port_of)
qed

lemma take_bit_word_add: "take_bit n (take_bit n a + take_bit n b) = take_bit n (a + b :: u32)"
  by transfer (simp add: take_bit_add ac_simps)

lemma port_of_next: "port_of (port_of x + 1) = port_of (x + 1)"
proof -
  have t: "take_bit 30 (port_of x) = take_bit 30 x" by (rule bit_word_eqI) (auto simp: bit_port_of bit_take_bit_iff)
  have "take_bit 30 (port_of x + 1) = take_bit 30 (take_bit 30 (port_of x) + take_bit 30 1)"
    by (simp only: take_bit_word_add)
  also have "\<dots> = take_bit 30 (x + 1)" unfolding t by (simp only: take_bit_word_add)
  finally have "take_bit 30 (port_of x + 1) = take_bit 30 (x + 1)" .
  then show ?thesis by (simp only: port_of_def)
qed

lemma next_port_iterate: "(next_port ^^ Suc k) p = port_of (p + 1 + word_of_nat k)"
proof (induction k)
  case (Suc k)
  have "(next_port ^^ Suc (Suc k)) p = next_port (port_of (p + 1 + word_of_nat k))" using Suc by simp
  also have "\<dots> = port_of (p + 1 + word_of_nat k + 1)" by (simp only: next_port_eq port_of_next)
  finally show ?case by (simp add: ac_simps)
qed (simp add: next_port_eq)

lemma port_range_iff: "push_bit 30 1 \<le> f \<and> f < push_bit 31 1 \<longleftrightarrow> drop_bit 30 (f :: u32) = 1"
proof -
  have "drop_bit 30 f = 1 \<longleftrightarrow> unat (f div 1073741824) = 1" by (simp add: drop_bit_eq_div word_unat_eq_iff)
  also have "\<dots> \<longleftrightarrow> unat f div 1073741824 = 1" by (simp add: unat_div_distrib)
  also have "\<dots> \<longleftrightarrow> push_bit 30 1 \<le> f \<and> f < push_bit 31 1" by (simp add: word_le_nat_alt word_less_nat_alt) linarith
  finally show ?thesis by simp
qed

lemma port_of_idem: "port_of (port_of x) = port_of x"
  by (rule bit_word_eqI) (auto simp: bit_port_of)

lemma drop_bit_port: "drop_bit 30 (f :: u32) = 1 \<longleftrightarrow> port_of f = f"
proof
  assume "drop_bit 30 f = 1"
  then have b: "bit f (30 + j) \<longleftrightarrow> j = 0" for j by (metis bit_drop_bit_eq bit_1_iff comp_apply)
  show "port_of f = f"
  proof (rule bit_word_eqI)
    fix n
    show "bit (port_of f) n = bit f n" using b [of "n - 30"] by (cases "n < 30") (auto simp: bit_port_of)
  qed
next
  assume "port_of f = f"
  then have "bit f n \<longleftrightarrow> n = 30 \<or> n < 30 \<and> bit f n" for n using bit_port_of [of f n] by simp
  then have "bit f (30 + n) \<longleftrightarrow> n = 0" for n by (metis add_cancel_left_right not_add_less1)
  then show "drop_bit 30 f = 1" by (intro bit_word_eqI) (auto simp only: bit_drop_bit_eq comp_apply bit_1_iff)
qed

lemma port_of_range: "push_bit 30 1 \<le> port_of x \<and> port_of x < push_bit 31 1"
  by (simp only: port_range_iff drop_bit_port port_of_idem)

section \<open>The search for a free port\<close>

lemma port_loop_first:
  "(next_port ^^ Suc k) p \<notin> set used \<Longrightarrow> \<exists>q. port_loop used p = Some q"
proof (induction k arbitrary: p)
  case 0
  then show ?case by (subst port_loop.simps) simp
next
  case (Suc k)
  have "(next_port ^^ Suc k) (next_port p) \<notin> set used" using Suc.prems by (simp add: funpow_swap1)
  from Suc.IH [OF this] show ?case by (subst port_loop.simps) (simp add: Let_def)
qed

lemma port_loop_fresh: "port_loop used p = Some q \<Longrightarrow> q \<notin> set used \<and> port_of q = q"
proof (rule port_loop.raw_induct [of "\<lambda>used p q. q \<notin> set used \<and> port_of q = q"])
  fix loop :: "u32 list \<Rightarrow> u32 \<Rightarrow> u32 option" and us r q
  assume "\<And>us r q. loop us r = Some q \<Longrightarrow> q \<notin> set us \<and> port_of q = q"
    and "(let q = next_port r in if q \<notin> set us then Some q else loop us q) = Some q"
  then show "q \<notin> set us \<and> port_of q = q" by (auto simp: Let_def next_port_eq port_of_idem split: if_splits)
qed

lemma port_loop_returns: "(\<exists>q. port_loop used p = Some q) \<longleftrightarrow> (\<exists>f. port_of f = f \<and> f \<notin> set used)"
proof
  assume "\<exists>f. port_of f = f \<and> f \<notin> set used"
  then obtain f where f: "port_of f = f" "f \<notin> set used" by blast
  have "(next_port ^^ Suc (unat (f - p - 1))) p = f" by (simp only: next_port_iterate of_nat_unat) (simp add: f)
  then show "\<exists>q. port_loop used p = Some q" using port_loop_first f(2) by metis
qed (use port_loop_fresh in blast)

text \<open>C38. The search for a local port ends exactly when one of the ports from \<open>2\<^sup>3\<^sup>0\<close> up to \<open>2\<^sup>3\<^sup>1\<close> is free, wherever
  it starts; the port it yields is one of them that is not in the set of ports in use, and it is then in that set. When
  all of them are taken it never returns.\<close>

theorem port_allocation_ends:
  "(allocate_local_port m \<noteq> None \<longleftrightarrow> (\<exists>f. push_bit 30 1 \<le> f \<and> f < push_bit 31 1 \<and> f \<notin> set (local_port_set m))) \<and>
   (case allocate_local_port m of None \<Rightarrow> True
    | Some (p, m') \<Rightarrow> push_bit 30 1 \<le> p \<and> p < push_bit 31 1 \<and> p \<notin> set (local_port_set m) \<and>
        m' = m\<lparr>local_port_last := p, local_port_set := p # local_port_set m\<rparr>)"
proof -
  have r: "push_bit 30 1 \<le> f \<and> f < push_bit 31 1 \<and> P \<longleftrightarrow> port_of f = f \<and> P" for f P
    using port_range_iff [of f] drop_bit_port [of f] by blast
  have "allocate_local_port m \<noteq> None \<longleftrightarrow> (\<exists>q. port_loop (local_port_set m) (local_port_last m) = Some q)"
    by (auto simp: allocate_local_port_def split: option.splits)
  moreover have "case allocate_local_port m of None \<Rightarrow> True
    | Some (p, m') \<Rightarrow> port_of p = p \<and> p \<notin> set (local_port_set m) \<and>
        m' = m\<lparr>local_port_last := p, local_port_set := p # local_port_set m\<rparr>"
    using port_loop_fresh by (auto simp: allocate_local_port_def split: option.splits)
  ultimately show ?thesis unfolding r by (simp only: port_loop_returns simp_thms)
qed

end
