(* ===== verification/Vsock_Muxer_Runs.thy ===== *)
theory Vsock_Muxer_Runs
  imports Vsock_Muxer_Recv
begin

text \<open>
  Runs of the multiplexer: every call keeps its tables in order, and no connection that has something
  to send to the guest is forgotten.
\<close>

section \<open>Every operation keeps the invariant\<close>

lemma mux_ok_killq [simp]: "mux_ok (m\<lparr>killq := x\<rparr>) = mux_ok m"
  by (simp add: mux_ok_def conn_at_def)

lemma mux_ok_sweep_items: "mux_ok m \<Longrightarrow> mux_ok (sweep_items t m)"
proof (induction t m rule: sweep_items.induct)
  case (1 t m)
  show ?case
  proof (cases "killq_pop t (killq m)")
    case (Pair a Q)
    show ?thesis
    proof (cases a)
      case None
      then show ?thesis using Pair 1(2) by (subst sweep_items.simps) simp
    next
      case (Some key)
      note IH = 1(1) [OF Pair [symmetric] Some refl refl]
      show ?thesis using IH 1(2) Pair Some mux_ok_kill
        by (subst sweep_items.simps) (simp add: Let_def split: option.splits)
    qed
  qed
qed

lemma mux_ok_sweep: "mux_ok m \<Longrightarrow> mux_ok (sweep_killq t m)"
proof (induction t m rule: sweep_killq.induct)
  case (1 t m)
  then show ?case by (subst sweep_killq.simps) (simp add: Let_def mux_ok_sweep_items)
qed

lemma set_conn_push: "set_conn key c (push_rx x m) = push_rx x (set_conn key c m)"
  by (simp add: set_conn_def push_rx_def)

lemma mux_ok_add_connection:
  assumes m: "mux_ok m" and c: "conn_ok key c"
  shows "mux_ok (snd (add_connection E key c m))"
proof -
  define m1 where "m1 = sweep_killq (now (conn_env E)) m"
  have m1: "mux_ok m1" using mux_ok_sweep [OF m] by (simp add: m1_def)
  obtain r m2 where a: "add_listener E (raw_fd (stream c)) (ConnectionL key (conn_polled_evset c)) m1 = (r, m2)" by fastforce
  then have e: "conn_map m2 = conn_map m1" "rxq m2 = rxq m1" by (metis listener_sel(3,4) snd_conv)+
  then have m2: "mux_ok m2" using mux_ok_frame [OF m1] by simp
  show ?thesis
  proof (cases "length (conn_map m1) \<ge> MAX_CONNECTIONS \<or> \<not> is_ok r")
    case True
    then have "snd (add_connection E key c m) \<in> {m1, m2}"
      using a by (auto simp: add_connection_def m1_def [symmetric] Let_def split: sum.splits)
    then show ?thesis using m1 m2 by auto
  next
    case False
    have "length (conn_map (set_conn key c m2)) \<le> Suc (length (conn_map m2))"
      using length_alist_update_le by (simp add: set_conn_def)
    then have len: "length (conn_map (set_conn key c m2)) \<le> MAX_CONNECTIONS" using False e by simp
    have "snd (add_connection E key c m) = set_conn key c (if has_pending_rx c then push_rx (ConnRx key) m2 else m2)"
      using a False by (auto simp: add_connection_def m1_def [symmetric] Let_def set_conn_def split: sum.splits)
    then show ?thesis using mux_ok_set_push [OF m2 c len] mux_ok_set [OF m2 c len]
      by (cases "has_pending_rx c") (simp_all add: set_conn_push)
  qed
qed

lemma mux_ok_free_port: "mux_ok m \<Longrightarrow> mux_ok (free_local_port lp m)"
  by (rule mux_ok_frame) simp_all

lemma mux_ok_peer_request: "mux_ok m \<Longrightarrow> mux_ok (handle_peer_request_pkt E p m)"
proof -
  assume m: "mux_ok m"
  let ?a = "\<lambda>fd. add_connection E \<lparr>key_local = dst_port p, key_peer = src_port p\<rparr>
    (new_peer_init (new_stream fd UnixStream) VSOCK_HOST_CID (mux_cid m) (dst_port p) (src_port p) (buf_alloc p)) m"
  have "mux_ok (snd (?a fd))" for fd by (rule mux_ok_add_connection [OF m conn_ok_new(1)])
  then show ?thesis using m
    by (auto simp: handle_peer_request_pkt_def Let_def enq_rst_def split: option.splits prod.splits intro!: mux_ok_push)
      (metis snd_conv)+
qed

lemma mux_ok_add_local: "mux_ok m \<Longrightarrow> mux_ok (add_local E s lp pp m)"
proof -
  assume "mux_ok m"
  from mux_ok_add_connection [OF this conn_ok_new(2)]
  show ?thesis by (auto simp: add_local_def split: prod.splits sum.splits intro!: mux_ok_free_port) (metis snd_conv)+
qed

lemma mux_ok_allocate: "mux_ok m \<Longrightarrow> allocate_local_port m = Some (lp, m') \<Longrightarrow> mux_ok m'"
  by (auto simp: allocate_local_port_def split: option.splits intro: mux_ok_frame)

lemma mux_ok_passfd_ports: "mux_ok m \<Longrightarrow> passfd_ports rs m = Some (ls, m') \<Longrightarrow> mux_ok m'"
  by (induction rs arbitrary: ls m m') (auto split: option.splits, metis mux_ok_allocate)

lemma mux_ok_passfds: "mux_ok m \<Longrightarrow> mux_ok (add_local_passfd_connections E ls m)"
  by (induction E ls m rule: add_local_passfd_connections.induct) (simp_all add: mux_ok_add_local mux_ok_free_port)

lemma mux_ok_listeners:
  "mux_ok m \<Longrightarrow> mux_ok (remove_listener fd m)" "mux_ok m \<Longrightarrow> mux_ok (snd (add_listener E fd l m))"
  by (rule mux_ok_frame; simp)+

lemma mux_ok_event:
  assumes m: "mux_ok m" and e: "dispatch_event E m fd ev = Some m'"
  shows "mux_ok m'"
proof -
  have c: "mux_ok (snd (apply_conn_mutation E key (\<lambda>conn. ((), conn_notify (conn_env E) conn ev)) m))" for key
    by (rule mux_ok_mutation [OF m]) (simp add: conn_ok_notify)
  note r = mux_ok_listeners(1) [OF m, of fd]
  have p: "prepare_local_passfds E rs m1 = Some (x, m2) \<Longrightarrow> mux_ok m1 \<Longrightarrow> mux_ok m2" for rs x m1 m2
    by (auto simp: prepare_local_passfds_def split: if_splits option.splits dest: mux_ok_passfd_ports)
  show ?thesis
  proof (cases "map_of (listener_map m) fd = Some LocalStream")
    case False
    then show ?thesis using e m c
      by (auto simp: dispatch_event_def mux_ok_listeners(2) split: option.splits EpollListener.splits if_splits)
  next
    case True
    have l: "add_local_connect_connection E fd pp (remove_listener fd m) = Some m' \<Longrightarrow> mux_ok m'" for pp
      using mux_ok_allocate [OF r]
      by (auto simp: add_local_connect_connection_def split: option.splits intro: mux_ok_add_local)
    have "prepare_local_passfds E rs (remove_listener fd m) = Some (x, m2) \<Longrightarrow> mux_ok (add_local_passfd_connections E ls m2) \<and> mux_ok m2" for rs x m2 ls
      using p [OF _ r] mux_ok_passfds by blast
    then show ?thesis using e True l r
      by (auto simp: dispatch_event_def Let_def split: sum.splits LocalStreamCommand.splits option.splits)
  qed
qed

lemma mux_ok_send:
  assumes m: "mux_ok m" and s: "mux_send_pkt E m p = (r, m')"
  shows "mux_ok m'"
proof -
  define key where "key = \<lparr>key_local = dst_port p, key_peer = src_port p\<rparr>"
  have "mux_ok (snd (apply_conn_mutation E key (\<lambda>conn. send_pkt (conn_env E) conn p) m))"
    by (rule mux_ok_mutation [OF m conn_ok_send])
  then show ?thesis using s m mux_ok_push [OF m] mux_ok_peer_request [OF m] mux_ok_remove [OF m]
    by (auto simp: mux_send_pkt_def Let_def enq_rst_def key_def split: if_splits prod.splits option.splits)
qed

lemma mux_ok_queue_rst: "mux_ok m \<Longrightarrow> mux_ok (queue_rst_for_connections ps m)"
proof (induction ps arbitrary: m)
  case (Cons x ps)
  then show ?case using mux_ok_push by (cases x) (simp add: queue_rst_for_connections_def)
qed (simp add: queue_rst_for_connections_def)

lemma mux_ok_new: "mux_new E cid path sock nested ports conf = Inr m \<Longrightarrow> mux_ok m"
  by (auto simp: mux_new_def Let_def add_listener_def mux_ok_def conn_at_def rxq_covers_def rxq_new_def split: if_splits)

section \<open>Runs\<close>

text \<open>The states that the calls of the device and of the event loop lead to.\<close>

inductive mux_runs :: "VsockMuxer \<Rightarrow> VsockMuxer \<Rightarrow> bool" for m0 where
  mux_start: "mux_runs m0 m0"
| mux_send: "mux_runs m0 m \<Longrightarrow> mux_send_pkt E m p = (r, m') \<Longrightarrow> mux_runs m0 m'"
| mux_recv: "mux_runs m0 m \<Longrightarrow> hdr_ok p \<Longrightarrow> mux_recv_pkt Es m p = Some (r, m', p') \<Longrightarrow> mux_runs m0 m'"
| mux_event: "mux_runs m0 m \<Longrightarrow> dispatch_event E m fd ev = Some m' \<Longrightarrow> mux_runs m0 m'"
| mux_reset: "mux_runs m0 m \<Longrightarrow> mux_runs m0 (queue_rst_for_connections ps m)"
| mux_host_sock: "mux_runs m0 m \<Longrightarrow> mux_runs m0 (add_host_sock_to_listener E m)"

lemma mux_ok_recv:
  assumes "mux_ok m" "hdr_ok p" "mux_recv_pkt Es m p = Some (r, m', p')"
  shows "mux_ok m'"
  using mux_recv_pkt_returns [OF assms(1,2), of Es] assms(3) by (auto simp: recv_done_def)

lemma mux_runs_ok: "mux_runs m0 m \<Longrightarrow> mux_ok m0 \<Longrightarrow> mux_ok m"
  by (induction rule: mux_runs.induct)
    (auto simp: add_host_sock_to_listener_def intro: mux_ok_send mux_ok_recv mux_ok_event mux_ok_queue_rst mux_ok_listeners(2))

section \<open>Other connections\<close>

lemma update_listener_other: "k \<noteq> key \<Longrightarrow> conn_at (update_listener E key c m) k = conn_at m k"
proof -
  assume k: "k \<noteq> key"
  obtain q where q: "q \<in> {m, kill_connection key m, del_conn key m}" "conn_map (update_listener E key c m) = conn_map q"
    using update_listener_effect [of m key E c] by blast
  have "conn_at (kill_connection key m) k = conn_at m k" using k by (simp add: kill_connection_eq split: option.splits)
  then have "conn_at q k = conn_at m k" using q(1) k by auto
  then show ?thesis using q(2) by (simp add: conn_at_def)
qed

lemma conn_at_map_upd: "conn_at (m\<lparr>conn_map := AList.update key c (conn_map m)\<rparr>) = (conn_at m)(key \<mapsto> c)"
  using conn_at_upd(1) by (simp add: set_conn_def)

lemma mutation_other:
  assumes "k \<noteq> key"
  shows "conn_at (snd (apply_conn_mutation E key f m)) k = conn_at m k"
proof (cases "map_of (conn_map m) key")
  case None
  then show ?thesis by (simp add: apply_conn_mutation_def)
next
  case (Some c)
  obtain r c1 where "f c = (r, c1)" by fastforce
  then show ?thesis using Some assms
    by (simp add: apply_conn_mutation_def Let_def update_listener_other)
      (simp add: conn_at_map_upd)
qed

text \<open>Removing expired connections kills some that have expired.\<close>

definition swept :: "int \<Rightarrow> VsockMuxer \<Rightarrow> VsockMuxer \<Rightarrow> bool" where
  "swept t m m' \<longleftrightarrow> (\<forall>k. conn_at m' k = conn_at m k \<or>
     (\<exists>c. conn_at m k = Some c \<and> has_expired t c \<and> conn_at m' k = Some (kill c)))"

lemma kill_twice: "kill (kill c) = kill c" "has_expired t (kill c) = has_expired t c"
  by (simp_all add: kill_def pend_def prx_insert_def has_expired_def or.assoc)

lemma swept_trans: "swept t m1 m2 \<Longrightarrow> swept t m2 m3 \<Longrightarrow> swept t m1 m3"
  unfolding swept_def by (metis kill_twice option.inject)

lemma swept_frame: "conn_map m' = conn_map m \<Longrightarrow> swept t m m'"
  by (simp add: swept_def conn_at_def)

lemma swept_kill: "conn_at m key = Some c \<Longrightarrow> has_expired t c \<Longrightarrow> swept t m (kill_connection key m)"
  by (simp add: swept_def kill_connection_eq)

lemma sweep_items_swept: "swept t m (sweep_items t m)"
proof (induction t m rule: sweep_items.induct)
  case (1 t m)
  obtain a Q where Q: "killq_pop t (killq m) = (a, Q)" by fastforce
  show ?case
  proof (cases a)
    case None
    then show ?thesis using Q by (subst sweep_items.simps) (simp add: swept_frame)
  next
    case (Some key)
    define m1 where "m1 = m\<lparr>killq := Q\<rparr>"
    define m2 where "m2 = (case map_of (conn_map m1) key of Some conn \<Rightarrow> if has_expired t conn then kill_connection key m1 else m1 | None \<Rightarrow> m1)"
    have "swept t m1 m2" using swept_kill [of m1 key] swept_frame [of m1 m1]
      by (auto simp: m2_def conn_at_def split: option.splits)
    then have "swept t m m2" using swept_trans [OF swept_frame [of m1 m]] by (simp add: m1_def)
    moreover have "swept t m2 (sweep_items t m2)" by (rule 1 [OF Q [symmetric] Some m1_def m2_def])
    moreover have "sweep_items t m = sweep_items t m2"
      using Q Some unfolding m2_def m1_def by (subst sweep_items.simps) (simp add: Let_def)
    ultimately show ?thesis using swept_trans by simp
  qed
qed

lemma sweep_killq_swept: "swept t m (sweep_killq t m)"
proof (induction t m rule: sweep_killq.induct)
  case (1 t m)
  define m1 where "m1 = sweep_items t m"
  define m2 where "m2 = m1\<lparr>killq := killq_from_conn_map t (conn_map m1)\<rparr>"
  have "swept t m m1" using sweep_items_swept by (simp add: m1_def)
  moreover have "swept t m1 m2" by (simp add: swept_frame m2_def)
  moreover have "killq_is_empty (killq m1) \<and> \<not> kq_synced (killq m1) \<Longrightarrow> swept t m2 (sweep_killq t m2)"
    using 1 [OF m1_def] by (simp add: m2_def)
  moreover have "sweep_killq t m = (if killq_is_empty (killq m1) \<and> \<not> kq_synced (killq m1) then sweep_killq t m2 else m1)"
    by (subst sweep_killq.simps) (simp add: m1_def m2_def Let_def)
  ultimately show ?case using swept_trans by (auto split: if_splits)
qed

lemma add_connection_swept:
  assumes "k \<noteq> key"
  shows "conn_at (snd (add_connection E key c m)) k = conn_at (sweep_killq (now (conn_env E)) m) k"
proof -
  define m1 where "m1 = sweep_killq (now (conn_env E)) m"
  have a: "conn_at (snd (add_listener E fd l m1)) = conn_at m1" for fd l by (simp add: conn_at_def)
  have u: "conn_at (m2\<lparr>conn_map := AList.update key c (conn_map m2)\<rparr>) k = conn_at m2 k" for m2
    using assms by (simp add: conn_at_map_upd)
  show ?thesis
    using a [of "raw_fd (stream c)" "ConnectionL key (conn_polled_evset c)"]
    by (auto simp: add_connection_def m1_def [symmetric] Let_def u split: prod.splits sum.splits) (simp add: conn_at_def update_conv' assms)
qed

lemma peer_request_other:
  fixes E :: MuxEnv
  assumes "k \<noteq> \<lparr>key_local = dst_port p, key_peer = src_port p\<rparr>" "conn_at m k = Some c"
  defines "m' \<equiv> handle_peer_request_pkt E p m"
  shows "conn_at m' k = Some c \<or> has_expired (now (conn_env E)) c \<and> conn_at m' k = Some (kill c)"
proof -
  have s: "conn_at (sweep_killq (now (conn_env E)) m) k = Some c \<or>
      has_expired (now (conn_env E)) c \<and> conn_at (sweep_killq (now (conn_env E)) m) k = Some (kill c)"
    using sweep_killq_swept [of "now (conn_env E)" m] assms(2) unfolding swept_def by (metis option.inject)
  have "conn_at m' k = conn_at m k \<or> conn_at m' k = conn_at (sweep_killq (now (conn_env E)) m) k"
    using add_connection_swept [OF assms(1), of E _ m]
    by (auto simp: m'_def handle_peer_request_pkt_def Let_def enq_rst_def split: option.splits prod.splits) (metis snd_conv)+
  then show ?thesis using s assms(2) by auto
qed

lemma send_other:
  assumes s: "mux_send_pkt E m p = (r, m')" and k: "k \<noteq> \<lparr>key_local = dst_port p, key_peer = src_port p\<rparr>"
    and c: "conn_at m k = Some c"
  shows "conn_at m' k = Some c \<or> pkt_op p = VSOCK_OP_REQUEST \<and> has_expired (now (conn_env E)) c \<and> conn_at m' k = Some (kill c)"
proof -
  let ?key = "\<lparr>key_local = dst_port p, key_peer = src_port p\<rparr>"
  have "conn_at (remove_connection ?key m) k = conn_at m k"
    using conn_at_upd(2) [of ?key m] remove_connection_sel(1) [of ?key m] k by (simp add: conn_at_def)
  then show ?thesis
    using s c peer_request_other [OF k c, of E] mutation_other [OF k, of E "\<lambda>conn. send_pkt (conn_env E) conn p" m]
    by (auto simp: mux_send_pkt_def Let_def enq_rst_def split: if_splits prod.splits option.splits)
qed

section \<open>The multiplexer is correct\<close>

text \<open>C36. A connection that has something to send to the guest is never forgotten: whatever calls were made
  since the multiplexer was created, the multiplexer then reports that it has something, and unless
  it knows that its receive queue is incomplete the connection is in that queue.\<close>

theorem no_connection_forgotten:
  assumes "mux_new E cid path sock nested ports conf = Inr m0" "mux_runs m0 m"
    and "map_of (conn_map m) key = Some c" "has_pending_rx c"
  shows "mux_has_pending_rx m \<and> (rx_synced (rxq m) \<longrightarrow> ConnRx key \<in> set (rx_q (rxq m)))"
proof -
  have "mux_ok m" by (rule mux_runs_ok [OF assms(2) mux_ok_new [OF assms(1)]])
  then have "rx_synced (rxq m) \<longrightarrow> ConnRx key \<in> set (rx_q (rxq m))"
    using assms(3,4) by (auto simp: mux_ok_def conn_at_def rxq_covers_def)
  then show ?thesis by (auto simp: mux_has_pending_rx_def rxq_is_empty_def)
qed

text \<open>C37. Asking for a packet ends in every state that the multiplexer can reach, whatever the connections,
  their streams and the kernel answer in every round of the loop. It yields a packet, or reports
  that there is none; then the receive queue is empty, and when it is complete no connection has
  anything to send.\<close>

theorem receiving_ends:
  assumes "mux_new E cid path sock nested ports conf = Inr m0" "mux_runs m0 m" "hdr_ok p"
  shows "\<exists>r m' p'. mux_recv_pkt Es m p = Some (r, m', p') \<and>
    (r = Inr () \<or> r = Inl NoData \<and> rx_q (rxq m') = [] \<and>
      (rx_synced (rxq m') \<longrightarrow> (\<forall>key c. map_of (conn_map m') key = Some c \<longrightarrow> \<not> has_pending_rx c)))"
proof -
  have "mux_ok m" by (rule mux_runs_ok [OF assms(2) mux_ok_new [OF assms(1)]])
  from mux_recv_pkt_returns [OF this assms(3), of Es] obtain r m' p' where
    res: "mux_recv_pkt Es m p = Some (r, m', p')" "mux_ok m'" "r = Inr () \<or> r = Inl NoData \<and> rx_q (rxq m') = []"
    by (auto simp: recv_done_def)
  have "\<not> has_pending_rx c" if "rx_q (rxq m') = []" "rx_synced (rxq m')" "map_of (conn_map m') key = Some c" for key c
    using that res(2) by (auto simp: mux_ok_def rxq_covers_def conn_at_def)
  then show ?thesis using res(1,3) by blast
qed

text \<open>C39. The tables stay well formed: no two connections have the same pair of ports, every connection is
  filed under its own ports and has a sound transmit buffer, and neither the connections nor the
  receive queue exceed their limits.\<close>

theorem tables_well_formed:
  assumes "mux_new E cid path sock nested ports conf = Inr m0" "mux_runs m0 m"
  shows "distinct (map fst (conn_map m)) \<and> length (conn_map m) \<le> MAX_CONNECTIONS \<and>
    length (rx_q (rxq m)) \<le> MUXER_RXQ_SIZE \<and>
    list_all (\<lambda>(key, c). key = \<lparr>key_local = local_port c, key_peer = peer_port c\<rparr> \<and> txbuf_ok (tx_buf c)) (conn_map m)"
proof -
  have ok: "mux_ok m" by (rule mux_runs_ok [OF assms(2) mux_ok_new [OF assms(1)]])
  then have "distinct (map fst (conn_map m))" by (simp add: mux_ok_def)
  then have "\<forall>(key, c) \<in> set (conn_map m). conn_ok key c" using ok by (auto simp: mux_ok_def conn_at_def)
  then show ?thesis using ok by (auto simp: mux_ok_def rxq_covers_def list_all_iff conn_ok_def)
qed

text \<open>C40. A packet from the guest disturbs no connection but the one with its ports. Only a request for a new
  connection can do so: it may kill connections whose time has run out.\<close>

theorem packets_disturb_no_other:
  assumes "mux_send_pkt E m p = (r, m')" "key \<noteq> \<lparr>key_local = dst_port p, key_peer = src_port p\<rparr>"
    and "map_of (conn_map m) key = Some c"
  shows "map_of (conn_map m') key = Some c \<or>
    pkt_op p = VSOCK_OP_REQUEST \<and> has_expired (now (conn_env E)) c \<and> map_of (conn_map m') key = Some (kill c)"
  using send_other [OF assms(1,2)] assms(3) by (simp add: conn_at_def)

section \<open>Ports that are freed too early or never\<close>

text \<open>Removing a connection frees its local port, also when another connection has the same one.\<close>

lemma removal_frees_shared_port:
  assumes "map_of (conn_map m) \<lparr>key_local = lp, key_peer = other\<rparr> = Some c" "other \<noteq> pp"
  defines "m' \<equiv> remove_connection \<lparr>key_local = lp, key_peer = pp\<rparr> m"
  shows "map_of (conn_map m') \<lparr>key_local = lp, key_peer = other\<rparr> = Some c \<and> lp \<notin> set (local_port_set m')"
proof -
  have "conn_at (del_conn \<lparr>key_local = lp, key_peer = pp\<rparr> m) \<lparr>key_local = lp, key_peer = other\<rparr> = Some c"
    using assms(1,2) by (simp only: conn_at_upd) (simp add: conn_at_def)
  then show ?thesis unfolding m'_def
    by (simp add: conn_at_def remove_connection_sel) (simp add: remove_connection_def free_local_port_def Let_def)
qed

text \<open>A connection whose descriptor is unknown to epoll is removed, but its local port stays taken.\<close>

lemma vanished_descriptor_keeps_port:
  assumes "map_of (listener_map m) (raw_fd (stream c)) = Some (ConnectionL key evset)" "evset \<noteq> conn_polled_evset c"
    and "epollin (conn_polled_evset c)" "ctl_mod E (raw_fd (stream c)) = CtlNotFound"
  shows "map_of (conn_map (update_listener E key c m)) key = None \<and>
    local_port_set (update_listener E key c m) = local_port_set m"
  using assms by (simp add: update_listener_def Let_def delete_conv')

section \<open>Examples\<close>

text \<open>A multiplexer with a listening socket, and a guest that opens a connection from its port 9 to port 5.\<close>

definition ex_menv :: MuxEnv where
  "ex_menv = \<lparr>conn_env = ex_env, ctl_add = (\<lambda>_. True), ctl_mod = (\<lambda>_. CtlOk), ack_ok = True,
     unix_connect = (\<lambda>path. if path = ''/vsock_5'' then Some 20 else None), accepted = None,
     local_cmd = Inl UnixRead, passfd_valid = (\<lambda>_. True), passfd_nonblocking = (\<lambda>_. True), clone_ok = (\<lambda>_. True)\<rparr>"

definition ex_pkt :: "u16 \<Rightarrow> u32 \<Rightarrow> VsockPacket" where
  "ex_pkt op sp = set_op op (set_type VSOCK_TYPE_STREAM (set_dst_cid VSOCK_HOST_CID (set_src_port sp (set_dst_port 5
     (set_buf_alloc 4096 (blank_pkt None))))))"

definition ex_mux :: VsockMuxer where
  "ex_mux = (case mux_new ex_menv 3 ''/vsock'' 10 True None [] of Inr m \<Rightarrow> m)"

definition ex_linked :: VsockMuxer where
  "ex_linked = snd (mux_send_pkt ex_menv ex_mux (ex_pkt VSOCK_OP_REQUEST 9))"

lemma ex_mux_new: "mux_new ex_menv 3 ''/vsock'' 10 True None [] = Inr ex_mux"
  by (simp add: ex_mux_def mux_new_def add_listener_def ex_menv_def Let_def)

lemma ex_linked_runs: "mux_runs ex_mux ex_linked"
  by (rule mux_send [OF mux_start]) (simp add: ex_linked_def prod_eq_iff)

definition ex_conn :: VsockConnection where
  "ex_conn = new_peer_init (new_stream 20 UnixStream) 2 3 5 9 4096"

lemma ex_linked_conn: "conn_map ex_linked = [(\<lparr>key_local = 5, key_peer = 9\<rparr>, ex_conn)]"
  by code_simp

lemma ex_linked_queue: "rxq ex_linked = \<lparr>rx_q = [ConnRx \<lparr>key_local = 5, key_peer = 9\<rparr>], rx_synced = True\<rparr>"
  by code_simp

theorem no_connection_forgotten_witness:
  "mux_has_pending_rx ex_linked \<and> ConnRx \<lparr>key_local = 5, key_peer = 9\<rparr> \<in> set (rx_q (rxq ex_linked))"
proof -
  have p: "has_pending_rx ex_conn" by code_simp
  have c: "map_of (conn_map ex_linked) \<lparr>key_local = 5, key_peer = 9\<rparr> = Some ex_conn" by (simp add: ex_linked_conn)
  show ?thesis using no_connection_forgotten [OF ex_mux_new ex_linked_runs c p] by (simp add: ex_linked_queue)
qed

theorem receiving_ends_witness:
  "\<exists>r m' p'. mux_recv_pkt (\<lambda>_. ex_menv) ex_linked (blank_pkt None) = Some (r, m', p') \<and> (r = Inr () \<or> r = Inl NoData \<and> rx_q (rxq m') = [])"
proof -
  have "hdr_ok (blank_pkt None)" by code_simp
  from receiving_ends [OF ex_mux_new ex_linked_runs this, of "\<lambda>_. ex_menv"] show ?thesis by blast
qed

theorem tables_well_formed_witness:
  "length (conn_map ex_linked) = 1 \<and> list_all (\<lambda>(key, c). key = \<lparr>key_local = local_port c, key_peer = peer_port c\<rparr> \<and> txbuf_ok (tx_buf c)) (conn_map ex_linked)"
  using tables_well_formed [OF ex_mux_new ex_linked_runs] ex_linked_conn by simp

theorem packets_disturb_no_other_witness:
  "map_of (conn_map (snd (mux_send_pkt ex_menv ex_linked (ex_pkt VSOCK_OP_RST 8)))) \<lparr>key_local = 5, key_peer = 9\<rparr> = Some ex_conn"
proof -
  let ?p = "ex_pkt VSOCK_OP_RST 8" and ?key = "\<lparr>key_local = 5, key_peer = 9\<rparr> :: ConnMapKey"
  have k: "?key \<noteq> \<lparr>key_local = dst_port ?p, key_peer = src_port ?p\<rparr>" by code_simp
  have r: "pkt_op ?p \<noteq> VSOCK_OP_REQUEST" by code_simp
  have c: "map_of (conn_map ex_linked) ?key = Some ex_conn" by (simp add: ex_linked_conn)
  show ?thesis using packets_disturb_no_other [OF prod.collapse [symmetric] k c] r by blast
qed

end
