(* ===== verification/Spec2Isabelle.thy ===== *)
theory Spec2Isabelle
  imports Prelude Runs Host_Fs Cow_Metrics Reflink Reflink_Store Reflink_Safety Reflink_Recovery
    Reflink_Listing Bytes Migration_Protocol Page_Ranges Page_Tracking Mem_Snapshot Snapshot_Exact
    Migration_Receiver Migration_Sender Migration_Safety Migration_Exact BTree Address_Ranges
    Address_Allocator System_Allocator Io_Bus Rate_Limiter Vsock_TxBuf Vsock_Packet
    Vsock_Connection Vsock_Stream Vsock_Flow Vsock_Queues Vsock_Muxer Vsock_Muxer_Inv
    Vsock_Muxer_Recv Vsock_Ports Vsock_Muxer_Runs
begin

text \<open>
  Verification of CubeSandbox, a platform that runs sandboxes as micro-VMs on a fork of Cloud
  Hypervisor. The development models the parts whose state the platform's guarantees rest on:
  the copy-on-write volume store, the memory snapshots and the live migration of a guest, the
  components of the VMM that hand out guest resources, and the vsock device's backend, over which
  the host talks to the agent in the guest.

  \<^bold>\<open>Common base.\<close> Theory Prelude has the machine integers (wrapping \<open>w word\<close>, checked and saturating
  operations as in Rust's release profile), results (\<open>Inl\<close> the error) and collections of rewrite
  rules. Runs has sequences of calls and the contracts over them: invariants, simulation of a
  specification, frames; each contract is a locale that the components interpret. BTree is the
  standard library's ordered map, Address_Ranges lists of disjoint address ranges.

  \<^bold>\<open>CubeCoW\<close> (\<^verbatim>\<open>cubecow/src\<close>). Host_Fs is the part of the host file system the engine uses, with a fault
  for every system call (a removal of a directory that fails may have removed a part of it). Reflink is the xfs-reflink engine (\<^verbatim>\<open>engine/reflink.rs\<close>): every operation of the
  trait \<^verbatim>\<open>Engine\<close>, its rollbacks and the scan at start-up; Cow_Metrics its counters. Reflink_Store shows
  that without faults the engine refines a store of volumes and snapshots; Reflink_Safety that data
  of live volumes and snapshots survives every operation, faults included; Reflink_Recovery what a
  restart finds; Reflink_Listing the paged listings.

  \<^bold>\<open>Snapshots of guest memory\<close> (\<^verbatim>\<open>hypervisor/vmm/src\<close>). Bytes and Migration_Protocol have the wire format
  (\<^verbatim>\<open>vm-migration/src/protocol.rs\<close>); Page_Ranges the conversion of dirty bitmaps to ranges; Page_Tracking
  the readers of pagemap and soft-dirty bits (\<^verbatim>\<open>pagemap_anon.rs\<close>, \<^verbatim>\<open>soft_dirty.rs\<close>); Mem_Snapshot the snapshot
  writers of \<^verbatim>\<open>memory_manager.rs\<close>. Snapshot_Exact shows that full, incremental and soft-dirty snapshots
  equal guest memory. The contents of proc files and the guest's writes are the environment.

  \<^bold>\<open>Live migration\<close> (\<^verbatim>\<open>vmm/src/lib.rs\<close>, \<^verbatim>\<open>vm.rs\<close>). Migration_Receiver and Migration_Sender are the two ends of
  the protocol, joined by a link that can break at any byte. Migration_Safety shows that the guest
  runs on exactly one side, outside the failures that its claim names, and what a panic of the
  source leaves; Migration_Exact that an undisturbed
  migration hands over memory byte for byte although the guest keeps writing. The receive loop
  reads a stream of finite length, so it is total; a read of no bytes that the code repeats for
  ever is the outcome \<open>MemSpins\<close>.

  \<^bold>\<open>Guest resources.\<close> Address_Allocator and System_Allocator are \<^verbatim>\<open>vm-allocator\<close> (\<^verbatim>\<open>address.rs\<close>, \<^verbatim>\<open>gsi.rs\<close>,
  \<^verbatim>\<open>system.rs\<close>), Io_Bus is \<^verbatim>\<open>vm-device/src/bus.rs\<close>, Rate_Limiter is \<^verbatim>\<open>rate_limiter/src/lib.rs\<close>. The allocators
  refine sets of disjoint ranges, the bus a map from addresses to devices, the limiter keeps its
  rate; below, the allocator and the bus are shown to fit together.

  \<^bold>\<open>Vsock\<close> (\<^verbatim>\<open>hypervisor/virtio-devices/src/vsock\<close>). Vsock_Packet is the packet over descriptors of guest memory
  (\<^verbatim>\<open>packet.rs\<close>), Vsock_TxBuf the ring buffer and Vsock_Connection the state machine of a connection
  (\<^verbatim>\<open>csm/txbuf.rs\<close>, \<^verbatim>\<open>csm/connection.rs\<close>), with the answers of the host stream and the clock as the
  environment of a call. Vsock_Stream shows that the host receives the bytes that the
  guest offers in the life of a connection, in order; Vsock_Flow joins a connection with a guest that keeps the credit rules and shows that neither
  buffer overflows and that credit comes back. Vsock_Queues and Vsock_Muxer are the multiplexer
  (\<^verbatim>\<open>unix/muxer.rs\<close>, \<^verbatim>\<open>muxer_rxq.rs\<close>, \<^verbatim>\<open>muxer_killq.rs\<close>). Vsock_Muxer_Inv has its invariant, Vsock_Muxer_Recv shows that
  looking for a packet ends, Vsock_Ports that the search for a port does, and Vsock_Muxer_Runs that
  no connection with something to send is forgotten, that the tables stay well formed and that a
  packet disturbs no other connection.

  \<^bold>\<open>Bounds.\<close> Nothing is cut off by fuel: loops are structural recursion or have a measure. The two loops
  of the vsock multiplexer that need not end by themselves (\<^verbatim>\<open>mux_recv_loop\<close>, \<^verbatim>\<open>port_loop\<close>) are partial functions
  whose result is \<open>None\<close> when they do not; the theorems say when they do. The theorems about the address allocator are for regions below \<open>2 ^ 63\<close> (the guest's physical address
  space is far smaller); outside, Address_Allocator shows how it fails.

  \<^bold>\<open>Not modelled.\<close> The parts in Go, Lua, C and TypeScript; generated protocol code (\<^verbatim>\<open>CubeShim/protoc\<close>); code
  that only issues system calls or ioctls (the KVM layer, seccomp filters, tap devices); and the
  remaining device models. Of the vsock multiplexer, the parsing of a host client's command, the
  kernel's epoll interest list and the timing log are left out. Locks are not modelled: each operation is atomic.
\<close>

section \<open>The allocator and the bus\<close>

text \<open>C27. The allocator and the bus fit together: when every range on the bus was handed out by the
  allocator, a range that the allocator hands out next (for a requested address or any) is accepted
  by the bus, and every range on the bus is again one in use.\<close>

theorem allocated_range_fits_bus:
  assumes "aa_ok A" "bus_ok L B" "\<forall>(b, l, e) \<in> set B. (b, l) \<in> set (in_use A)"
    and "aa_allocate A address n al = (Some x, A')" "d \<in> L"
  shows "fst (bus_insert B d x n) = Inr () \<and> bus_ok L (snd (bus_insert B d x n)) \<and>
    (\<forall>(b, l, e) \<in> set (snd (bus_insert B d x n)). (b, l) \<in> set (in_use A'))"
proof -
  note f = allocate_fits [OF assms(1,4)]
  note ok = aa_okD [OF assms(1)]
  have room: "room (unat (aa_base A)) (in_use A) (unat (aa_end A + 1)) (unat x) (unat n)"
    using f(1) ok(2) by (simp add: fits_def)
  then have "unat x + unat n \<le> unat (aa_end A + 1)" by (simp add: room_def)
  also have "\<dots> < 2 ^ 64" by (rule le_less_trans [OF ok(4)]) simp
  finally have top: "unat x + unat n < 2 ^ 64" .
  have "\<not> overlaps b l x n" if "(b, l, e) \<in> set B" for b l e
    using overlaps_iff(2) [OF assms(2) that top f(2)] assms(3) that room by (auto simp: room_def list_all_iff)
  then have "\<not> list_ex (\<lambda>(b, l, _). overlaps b l x n) B" by (auto simp: list_ex_iff)
  note new = bus_insert_new [OF assms(2) top f(2) assms(5) this]
  have "set (in_use A') = insert (x, n) (set (in_use A))" unfolding f(3) by (rule insert_ok(2) [OF assms(1) f(1,2)])
  then show ?thesis using new assms(3) by auto
qed

theorem allocated_range_fits_bus_witness:
  "fst (aa_allocate demo_allocator None 0x200 (Some 0x100)) = Some 0x10e00 \<and>
   fst (bus_insert [(0x4000, 0x1000, 0)] 1 0x10e00 0x200) = Inr ()"
proof -
  obtain A' where a: "aa_allocate demo_allocator None 0x200 (Some 0x100) = (Some 0x10e00, A')"
  proof -
    have "fst (aa_allocate demo_allocator None 0x200 (Some 0x100)) = Some 0x10e00" by code_simp
    then show ?thesis using that by (cases "aa_allocate demo_allocator None 0x200 (Some 0x100)") simp
  qed
  have "bus_ok {0, 1} [(0x4000, 0x1000, 0)]" by (simp add: bus_ok_def)
  moreover have "\<forall>(b, l, e) \<in> set [(0x4000, 0x1000, 0)]. (b, l) \<in> set (in_use demo_allocator)"
    by (simp add: demo_allocator_def in_use_def)
  ultimately show ?thesis using allocated_range_fits_bus [OF demo_allocator_ok _ _ a, of "{0, 1}" _ 1] a by simp
qed

end
